(* ===== verification/Kiss_Prelude.thy ===== *)
theory Kiss_Prelude
  imports Main "HOL-Library.Word" "HOL-Library.Monad_Syntax"
begin

unbundle bit_operations_syntax

text \<open>
  Shared vocabulary of the development.

  \<^item> The machine integers of the Rust code: \<open>u8\<close>, \<open>u32\<close>, \<open>u64\<close> and \<open>u128\<close> are words of that
    width, \<open>usize\<close> is \<open>nat\<close>, \<open>i64\<close> is \<open>int\<close> with the range check written out.
  \<^item> Computations of plain functions that may panic return \<open>'a option\<close>; \<open>None\<close> is "no value is
    returned", which is what an index out of range, an overflowing operation (the profile
    \<^verbatim>\<open>cargo run\<close> builds with overflow checks) or an endless loop amounts to for the caller.
  \<^item> Computations of effectful functions (async methods returning \<^verbatim>\<open>Res\<close>) are state transformers
    with an outcome \<open>Ok\<close>, \<open>Err\<close> or \<open>Panic\<close>; \<open>act_bind\<close> is the \<^verbatim>\<open>?\<close> operator.
  \<^item> \<open>foldM\<close> is a \<^verbatim>\<open>for\<close> loop over a list whose body may panic, and \<open>foldM_upt_rule\<close> is its rule
    of total correctness: an invariant that the body keeps without panicking holds at the end.
\<close>

section \<open>Machine integers\<close>

type_synonym u8 = "8 word"
type_synonym u32 = "32 word"
type_synonym u64 = "64 word"
type_synonym u128 = "128 word"
type_synonym bytes = "u8 list"

named_theorems rust_simps \<open>unfolding rules for the panicking primitives\<close>

definition checked_add :: "'a::len word \<Rightarrow> 'a word \<Rightarrow> 'a word option" where
  "checked_add a b = (if unat a + unat b < 2 ^ LENGTH('a) then Some (a + b) else None)"

definition checked_mul :: "'a::len word \<Rightarrow> 'a word \<Rightarrow> 'a word option" where
  "checked_mul a b = (if unat a * unat b < 2 ^ LENGTH('a) then Some (a * b) else None)"

text \<open>Subtraction on \<open>usize\<close>: an underflow panics.\<close>

definition checked_sub :: "nat \<Rightarrow> nat \<Rightarrow> nat option" where
  "checked_sub a b = (if b \<le> a then Some (a - b) else None)"

text \<open>Division on \<open>usize\<close>: a zero divisor panics.\<close>

definition checked_div :: "nat \<Rightarrow> nat \<Rightarrow> nat option" where
  "checked_div a b = (if b = 0 then None else Some (a div b))"

text \<open>Addition and negation on \<open>i64\<close>.\<close>

definition in_i64 :: "int \<Rightarrow> bool" where
  "in_i64 x \<longleftrightarrow> - (2 ^ 63) \<le> x \<and> x < 2 ^ 63"

definition i64_add :: "int \<Rightarrow> int \<Rightarrow> int option" where
  "i64_add a b = (if in_i64 (a + b) then Some (a + b) else None)"

definition i64_sub :: "int \<Rightarrow> int \<Rightarrow> int option" where
  "i64_sub a b = (if in_i64 (a - b) then Some (a - b) else None)"

definition i64_neg :: "int \<Rightarrow> int option" where
  "i64_neg a = (if in_i64 (- a) then Some (- a) else None)"

text \<open>The cast \<^verbatim>\<open>x as usize\<close> of an \<open>i64\<close> reinterprets the two's complement bits.\<close>

definition i64_as_usize :: "int \<Rightarrow> nat" where
  "i64_as_usize x = nat (x mod 2 ^ 64)"

text \<open>The cast \<^verbatim>\<open>x as i64\<close> of an unsigned number keeps its low 64 bits.\<close>

definition as_i64 :: "int \<Rightarrow> int" where
  "as_i64 x = (let m = x mod 2 ^ 64 in if m < 2 ^ 63 then m else m - 2 ^ 64)"

definition usize_as_i64 :: "nat \<Rightarrow> int" where
  "usize_as_i64 n = as_i64 (int n)"

lemma unat_checked_add:
  "checked_add a b = Some c \<Longrightarrow> unat c = unat a + unat b"
  by (auto simp: checked_add_def unat_word_ariths split: if_splits)

lemma unat_checked_mul:
  "checked_mul a b = Some c \<Longrightarrow> unat c = unat a * unat b"
  by (auto simp: checked_mul_def unat_word_ariths split: if_splits)

lemma checked_add_ok:
  fixes a b :: "'a::len word"
  assumes "unat a + unat b < 2 ^ LENGTH('a)"
  shows "checked_add a b = Some (a + b)" and "unat (a + b) = unat a + unat b"
  using assms by (simp_all add: checked_add_def unat_word_ariths)

lemma checked_mul_ok:
  fixes a b :: "'a::len word"
  assumes "unat a * unat b < 2 ^ LENGTH('a)"
  shows "checked_mul a b = Some (a * b)" and "unat (a * b) = unat a * unat b"
  using assms by (simp_all add: checked_mul_def unat_word_ariths)

lemma i64_add_simp [rust_simps]: "in_i64 (a + b) \<Longrightarrow> i64_add a b = Some (a + b)"
  by (simp add: i64_add_def)

lemma i64_usize_roundtrip:
  "n < 2 ^ 64 \<Longrightarrow> i64_as_usize (usize_as_i64 n) = n"
  by (auto simp: i64_as_usize_def usize_as_i64_def as_i64_def Let_def)

lemma unat_ucast_up [simp]:
  "unat (ucast (a :: u64) :: u128) = unat a"
proof -
  have "unat a < 2 ^ 64" using unsigned_less [of a] by simp
  then have "unat a < 2 ^ 128" by (rule less_trans) simp
  then show ?thesis by (simp add: unsigned_ucast_eq take_bit_nat_eq_self_iff)
qed

section \<open>Indexing and loops\<close>

definition index :: "'a list \<Rightarrow> nat \<Rightarrow> 'a option" where
  "index xs i = (if i < length xs then Some (xs ! i) else None)"

text \<open>The slice \<^verbatim>\<open>xs[a..b]\<close>.\<close>

definition slice :: "'a list \<Rightarrow> nat \<Rightarrow> nat \<Rightarrow> 'a list option" where
  "slice xs a b = (if a \<le> b \<and> b \<le> length xs then Some (take (b - a) (drop a xs)) else None)"

lemma index_Some [simp]: "i < length xs \<Longrightarrow> index xs i = Some (xs ! i)"
  by (simp add: index_def)

lemma index_None [simp]: "length xs \<le> i \<Longrightarrow> index xs i = None"
  by (simp add: index_def)

primrec foldM :: "('a \<Rightarrow> 's \<Rightarrow> 's option) \<Rightarrow> 'a list \<Rightarrow> 's \<Rightarrow> 's option" where
  "foldM f [] s = Some s"
| "foldM f (x # xs) s = do { s' \<leftarrow> f x s; foldM f xs s' }"

lemma foldM_append: "foldM f (xs @ ys) s = do { s' \<leftarrow> foldM f xs s; foldM f ys s' }"
  by (induction xs arbitrary: s) (auto split: bind_splits)

lemma foldM_map: "foldM f (map g xs) s = foldM (\<lambda>x. f (g x)) xs s"
  by (induction xs arbitrary: s) (auto split: bind_splits)

lemma foldM_upt_rule:
  assumes init: "I 0 s"
    and step: "\<And>k s. k < n \<Longrightarrow> I k s \<Longrightarrow> \<exists>s'. f k s = Some s' \<and> I (Suc k) s'"
  shows "\<exists>s'. foldM f [0..<n] s = Some s' \<and> I n s'"
  using step
proof (induction n)
  case 0
  then show ?case using init by simp
next
  case (Suc n)
  then obtain s' where "foldM f [0..<n] s = Some s'" and "I n s'" by fastforce
  moreover from Suc.prems [of n s'] \<open>I n s'\<close> obtain s'' where "f n s' = Some s''" "I (Suc n) s''"
    by blast
  ultimately show ?case by (auto simp: foldM_append)
qed

text \<open>A loop that finishes has run its body for every element.\<close>

lemma foldM_Some_member: "foldM f xs s = Some s' \<Longrightarrow> x \<in> set xs \<Longrightarrow> \<exists>t t'. f x t = Some t'"
  by (induction xs arbitrary: s) (auto split: bind_splits)

lemma foldM_upt_None:
  assumes init: "I 0 s" and "n < m"
    and step: "\<And>k s. k < n \<Longrightarrow> I k s \<Longrightarrow> \<exists>s'. f k s = Some s' \<and> I (Suc k) s'"
    and fail: "\<And>s. I n s \<Longrightarrow> f n s = None"
  shows "foldM f [0..<m] s = None"
proof -
  have "\<exists>s'. foldM f [0..<n] s = Some s' \<and> I n s'"
    using init step by (rule foldM_upt_rule)
  then obtain s' where "foldM f [0..<n] s = Some s'" "I n s'"
    by blast
  moreover have "[0..<m] = [0..<n] @ n # [Suc n..<m]"
    using \<open>n < m\<close> upt_add_eq_append [of 0 n "m - n"] by (simp add: upt_conv_Cons)
  ultimately show ?thesis by (simp add: foldM_append fail)
qed

text \<open>The iterator \<^verbatim>\<open>(0..n).step_by(k)\<close>.\<close>

definition step_by :: "nat \<Rightarrow> nat \<Rightarrow> nat list" where
  "step_by n k = map (\<lambda>b. b * k) [0..<(n + k - 1) div k]"

lemma step_by_mult: "0 < k \<Longrightarrow> step_by (k * n) k = map (\<lambda>b. b * k) [0..<n]"
proof -
  assume "0 < k"
  then have "(k * n + k - 1) div k = n"
    by (metis add_diff_assoc add_0 div_less div_mult_self2 diff_less less_one
        Suc_leI One_nat_def add.commute less_numeral_extra(3))
  then show ?thesis by (simp add: step_by_def)
qed

end
