(* ===== verification/Util.thy ===== *)
theory Util
  imports Kiss_Prelude
begin

text \<open>
  The shared types of the program: \<^verbatim>\<open>src/util/types.rs\<close> (contracts, verification claims, the
  commands the controller sends to the swarm), \<^verbatim>\<open>src/util/consts.rs\<close>, \<^verbatim>\<open>src/util/errors.rs\<close>
  (\<^verbatim>\<open>ErrorKind\<close>, exit code, help text and the conversions into errors) and the SQL values of \<^verbatim>\<open>proto/immudb.proto\<close>.

  A \<^verbatim>\<open>PeerId\<close> is its multihash bytes. Error values of foreign crates are only ever displayed, so
  such a payload is its rendered text (\<open>ext_error\<close>). A oneshot sender is the number of its channel.
  The last section fixes the outcome of effectful code: \<open>'a outcome\<close> with \<open>Ok\<close>, \<open>Err\<close> and \<open>Panic\<close>,
  and \<open>('w, 'a) action\<close>, a function on the state \<open>'w\<close> of everything outside the component.
\<close>

section \<open>Constants\<close>

definition GRPC_TIMEOUT :: nat where "GRPC_TIMEOUT = 30"
definition DEFAULT_LEADING_ZEROS :: nat where "DEFAULT_LEADING_ZEROS = 2"
definition AUDIT_REWARD :: int where "AUDIT_REWARD = 1"
definition AUDIT_PENALTY :: int where "AUDIT_PENALTY = 5"
definition VERIFICATION_CYCLE_TIME :: nat where "VERIFICATION_CYCLE_TIME = 6"
definition NUM_PEERS :: u128 where "NUM_PEERS = 3"
definition DATABASE_NAME :: string where "DATABASE_NAME = ''kiss''"
definition REPLICATION_FACTOR :: nat where "REPLICATION_FACTOR = 3"

section \<open>Types\<close>

datatype peer_id = PeerId bytes

type_synonym uuid = u128
type_synonym chan = nat
type_synonym query_id = nat
type_synonym request_id = nat
type_synonym ext_error = string

text \<open>\<^verbatim>\<open>SQLValue\<close> of the immudb protocol: an optional value.\<close>

datatype val = Null | N int | S string | B bool | Bs bytes | Ts int

datatype sql_value = SqlValue (sql_val: "val option")

type_synonym sql_row = "sql_value list"

datatype named_param = NamedParam (param_name: string) (param_value: "sql_value option")

record contract =
  c_contract_uuid :: string
  c_peer_id :: peer_id
  c_file_uuid :: string
  c_file_hash :: string
  c_upload_date :: int
  c_ttl :: int
  c_secret_n :: bytes
  c_secret_m :: bytes
  c_rows :: int
  c_cols :: int

record verification_claim =
  v_contract_uuid :: string
  v_verified_by_id :: peer_id
  v_verification_time :: int
  v_succeeded :: bool

datatype command_to_swarm =
    CmdGet string chan
  | CmdPutLocal string bytes chan
  | CmdPutRemote string bytes "peer_id list" chan
  | CmdStartProviding string chan
  | CmdGetProviders string chan
  | CmdGetClosestPeers uuid chan
  | CmdRequestVerification peer_id string "u64 list" chan

section \<open>Errors\<close>

datatype (plugins only: size) error_kind =
    UnknownError
  | IoDetailed ext_error nat
  | DockerConnectionFailed string
  | LocalStorageFail ext_error
  | FilesystemErr ext_error
  | ConfigErr ext_error
  | Generic string
  | SettingsDependencyFail
  | SettingsParseError string
  | ObjectStoreError ext_error
  | StoragePutSerdeError ext_error
  | StorageGetSerdeError ext_error
  | StorageGetFailed ext_error
  | StorageConvertToStreamFailed ext_error
  | GrpcServerStartFailed ext_error
  | KeypairProtobufDecodeError ext_error
  | KeypairBase64DecodeError ext_error
  | KeypairBase64DecodingError ext_error
  | SwarmPutRecordError ext_error
  | SwarmGetRecordError ext_error
  | SwarmGetProvidersError ext_error
  | SwarmStartProvidingError ext_error
  | SwarmGetClosestPeersError ext_error
  | SwarmGetRecordUnknownError string
  | GrpcError ext_error
  | PathParsingError string
  | RequestOutboundFailure ext_error
  | RequestInboundFailure ext_error
  | BehaviourInitFailed ext_error
  | NoiseInitFailed ext_error
  | IpParseFailed ext_error
  | SwarmListenFailed ext_error nat
  | IoError ext_error
  | StdError string
  | TonicTransportError ext_error
  | SwarmOperationFailed command_to_swarm
  | SendReceiverFailed
  | ChannelReceiveError
  | KademliaStoreError ext_error
  | InjectorError string
  | InvalidResponseChannel query_id
  | InvalidResponseChannelForRequest request_id
  | MissingInstruction
  | SendingResultFailed
  | MutexIsEmpty
  | GrpcClientIsEmpty
  | SettingsAddressesAreEmpty
  | KeeperClientConnectionError
  | JoinError ext_error
  | InvalidTonicMetadataValue ext_error
  | FailedTonicRequest ext_error
  | MutexIsNotMutable
  | FailedConvertingFromUtf8 ext_error
  | Utf8Error
  | SystemTimeError
  | InvalidSqlRow sql_row
  | InvalidSql
  | NoProvidersFound
  | InvalidRecordName
  | AsyncExecutionFailed
  | InvalidSwarmInstruction command_to_swarm
  | InvalidNonZeroUsize
  | InvalidPeerId ext_error
  | SwarmReqResSendResponseError
  | InsufficientReputationToStake
  | InsufficientReputationToUnstake

text \<open>\<^verbatim>\<open>impl ExitCode for Error\<close> and \<^verbatim>\<open>impl ErrorHelper for Error\<close>.\<close>

definition error_code :: "error_kind \<Rightarrow> int" where
  "error_code e = (case e of DockerConnectionFailed _ \<Rightarrow> 1 | _ \<Rightarrow> 1)"

definition error_help :: "error_kind \<Rightarrow> string" where
  "error_help e =
     (case e of
        DockerConnectionFailed _ \<Rightarrow> ''Is Docker running?''
      | LocalStorageFail _ \<Rightarrow> ''Does the directory exist?''
      | _ \<Rightarrow> ''No help available for this error'')"

section \<open>Conversions into errors\<close>

text \<open>
  The \<^verbatim>\<open>impl From<..> for Error\<close> that the operator \<^verbatim>\<open>?\<close> applies. A result that could not be sent and a receiver
  that could not be handed out are dropped by the conversion, so these have no argument.
\<close>

abbreviation (input) from_transport_error :: "ext_error \<Rightarrow> error_kind" where
  "from_transport_error \<equiv> TonicTransportError"

abbreviation (input) from_send_error :: "command_to_swarm \<Rightarrow> error_kind" where
  "from_send_error \<equiv> SwarmOperationFailed"

abbreviation (input) from_unit_result :: error_kind where
  "from_unit_result \<equiv> SendingResultFailed"

abbreviation (input) from_recv_error :: error_kind where
  "from_recv_error \<equiv> ChannelReceiveError"

abbreviation (input) from_receiver :: error_kind where
  "from_receiver \<equiv> SendReceiverFailed"

abbreviation (input) from_store_error :: "ext_error \<Rightarrow> error_kind" where
  "from_store_error \<equiv> KademliaStoreError"

abbreviation (input) from_metadata_error :: "ext_error \<Rightarrow> error_kind" where
  "from_metadata_error \<equiv> InvalidTonicMetadataValue"

abbreviation (input) from_status :: "ext_error \<Rightarrow> error_kind" where
  "from_status \<equiv> FailedTonicRequest"

abbreviation (input) from_utf8_error :: "ext_error \<Rightarrow> error_kind" where
  "from_utf8_error \<equiv> FailedConvertingFromUtf8"

abbreviation (input) from_system_time_error :: error_kind where
  "from_system_time_error \<equiv> SystemTimeError"

abbreviation (input) from_decoding_error :: "ext_error \<Rightarrow> error_kind" where
  "from_decoding_error \<equiv> KeypairBase64DecodingError"

abbreviation (input) from_providers_result :: error_kind where
  "from_providers_result \<equiv> SendingResultFailed"

abbreviation (input) from_peers_result :: error_kind where
  "from_peers_result \<equiv> SendingResultFailed"

abbreviation (input) from_get_result :: error_kind where
  "from_get_result \<equiv> SendingResultFailed"

text \<open>
  A failed activation of a service, as the factories report it to the injector, and its conversion; the debug text of an
  error is a parameter.
\<close>

datatype inject_error = ActivationFailed string error_kind | OtherInjectError ext_error

definition from_inject_error :: "(error_kind \<Rightarrow> string) \<Rightarrow> inject_error \<Rightarrow> error_kind" where
  "from_inject_error debug e = (case e of
     ActivationFailed service inner \<Rightarrow>
       InjectorError (''injector error for service '' @ service @ '': '' @ debug inner)
   | OtherInjectError _ \<Rightarrow> InjectorError ''unknown error'')"

text \<open>\<^verbatim>\<open>impl Display for CommandToSwarm\<close>; the text forms of UUIDs and peers are parameters.\<close>

definition display_command :: "(uuid \<Rightarrow> string) \<Rightarrow> (peer_id \<Rightarrow> string) \<Rightarrow> command_to_swarm \<Rightarrow> string" where
  "display_command uuid_text peer_text c = (case c of
     CmdGet key _ \<Rightarrow> ''Get('' @ key @ '')''
   | CmdPutLocal key _ _ \<Rightarrow> ''PutLocal('' @ key @ '')''
   | CmdPutRemote key _ _ _ \<Rightarrow> ''PutRemote('' @ key @ '')''
   | CmdStartProviding key _ \<Rightarrow> ''StartProviding('' @ key @ '')''
   | CmdGetProviders key _ \<Rightarrow> ''GetProviders('' @ key @ '')''
   | CmdGetClosestPeers key _ \<Rightarrow> ''GetClosestPeers('' @ uuid_text key @ '')''
   | CmdRequestVerification peer _ _ _ \<Rightarrow> ''RequestVerification('' @ peer_text peer @ '')'')"

section \<open>Outcomes of effectful code\<close>

datatype 'a outcome = Ok 'a | Err error_kind | Panic

primrec is_ok :: "'a outcome \<Rightarrow> bool" where
  "is_ok (Ok _) = True" | "is_ok (Err _) = False" | "is_ok Panic = False"

lemma is_ok_unit: "is_ok r \<longleftrightarrow> r = Ok ()"
  by (cases r) simp_all

lemma is_okE: "is_ok r \<Longrightarrow> (\<And>x. r = Ok x \<Longrightarrow> P) \<Longrightarrow> P"
  by (cases r) simp_all

lemma is_ok_pair: "is_ok (fst p) \<Longrightarrow> \<exists>x. p = (Ok x, snd p)"
  by (cases p) (auto elim: is_okE)

type_synonym ('w, 'a) action = "'w \<Rightarrow> 'a outcome \<times> 'w"

definition act_return :: "'a \<Rightarrow> ('w, 'a) action" where
  "act_return x w = (Ok x, w)"

definition act_fail :: "error_kind \<Rightarrow> ('w, 'a) action" where
  "act_fail e w = (Err e, w)"

definition act_panic :: "('w, 'a) action" where
  "act_panic w = (Panic, w)"

text \<open>\<^verbatim>\<open>m?\<close> followed by the rest of the function: errors and panics leave it at once.\<close>

definition act_bind :: "('w, 'a) action \<Rightarrow> ('a \<Rightarrow> ('w, 'b) action) \<Rightarrow> ('w, 'b) action" where
  "act_bind m f w =
     (case m w of (Ok x, w') \<Rightarrow> f x w' | (Err e, w') \<Rightarrow> (Err e, w') | (Panic, w') \<Rightarrow> (Panic, w'))"

text \<open>\<^verbatim>\<open>match m\<close>: the error is a value the function goes on with, a panic is not.\<close>

definition act_try :: "('w, 'a) action \<Rightarrow> (error_kind + 'a \<Rightarrow> ('w, 'b) action) \<Rightarrow> ('w, 'b) action" where
  "act_try m f w =
     (case m w of (Ok x, w') \<Rightarrow> f (Inr x) w' | (Err e, w') \<Rightarrow> f (Inl e) w'
      | (Panic, w') \<Rightarrow> (Panic, w'))"

text \<open>A plain computation that may panic, and a foreign result whose error is wrapped.\<close>

definition act_option :: "'a option \<Rightarrow> ('w, 'a) action" where
  "act_option x = (case x of Some v \<Rightarrow> act_return v | None \<Rightarrow> act_panic)"

definition act_result :: "('e \<Rightarrow> error_kind) \<Rightarrow> 'e + 'a \<Rightarrow> ('w, 'a) action" where
  "act_result wrap x = (case x of Inr v \<Rightarrow> act_return v | Inl e \<Rightarrow> act_fail (wrap e))"

text \<open>A loop over a list whose body carries a value.\<close>

primrec act_fold :: "('x \<Rightarrow> 'a \<Rightarrow> ('w, 'a) action) \<Rightarrow> 'x list \<Rightarrow> 'a \<Rightarrow> ('w, 'a) action" where
  "act_fold f [] a = act_return a"
| "act_fold f (x # xs) a = act_bind (f x a) (act_fold f xs)"

named_theorems act_simps \<open>evaluation of actions\<close>

lemma act_return_simp [act_simps]: "act_return x w = (Ok x, w)"
  by (simp add: act_return_def)

lemma act_fail_simp [act_simps]: "act_fail e w = (Err e, w)"
  by (simp add: act_fail_def)

lemma act_panic_simp [act_simps]: "act_panic w = (Panic, w)"
  by (simp add: act_panic_def)

lemma act_bind_simps [act_simps]:
  "m w = (Ok x, w') \<Longrightarrow> act_bind m f w = f x w'"
  "m w = (Err e, w') \<Longrightarrow> act_bind m f w = (Err e, w')"
  "m w = (Panic, w') \<Longrightarrow> act_bind m f w = (Panic, w')"
  by (simp_all add: act_bind_def)

lemma act_try_simps [act_simps]:
  "m w = (Ok x, w') \<Longrightarrow> act_try m f w = f (Inr x) w'"
  "m w = (Err e, w') \<Longrightarrow> act_try m f w = f (Inl e) w'"
  "m w = (Panic, w') \<Longrightarrow> act_try m f w = (Panic, w')"
  by (simp_all add: act_try_def)

lemma act_option_simps [act_simps]:
  "act_option (Some v) w = (Ok v, w)" "act_option None w = (Panic, w)"
  by (simp_all add: act_option_def act_simps)

lemma act_result_simps [act_simps]:
  "act_result f (Inr v) w = (Ok v, w)" "act_result f (Inl e) w = (Err (f e), w)"
  by (simp_all add: act_result_def act_simps)

lemma act_bind_OkE:
  assumes "act_bind m f w = (Ok y, w'')"
  obtains x w' where "m w = (Ok x, w')" "f x w' = (Ok y, w'')"
  using assms by (auto simp: act_bind_def split: prod.splits outcome.splits)

lemma act_bind_assoc:
  "act_bind (act_bind m g) h = act_bind m (\<lambda>x. act_bind (g x) h)"
  by (auto simp: fun_eq_iff act_bind_def split: prod.splits outcome.splits)

lemma act_fold_append:
  "act_fold f (xs @ ys) a = act_bind (act_fold f xs a) (act_fold f ys)"
proof (induction xs arbitrary: a)
  case Nil
  then show ?case by (simp add: fun_eq_iff act_bind_def act_return_def)
next
  case (Cons x xs)
  then have "act_fold f (xs @ ys) = (\<lambda>a. act_bind (act_fold f xs a) (act_fold f ys))"
    by (rule ext)
  then show ?case by (simp add: act_bind_assoc)
qed

text \<open>The rule for loops that keep an invariant and return normally.\<close>

lemma act_fold_rule:
  assumes "I [] a w"
    and "\<And>ys x zs a w. xs = ys @ x # zs \<Longrightarrow> I ys a w \<Longrightarrow>
           \<exists>a' w'. f x a w = (Ok a', w') \<and> I (ys @ [x]) a' w'"
  shows "\<exists>a' w'. act_fold f xs a w = (Ok a', w') \<and> I xs a' w'"
  using assms
proof (induction xs arbitrary: rule: rev_induct)
  case Nil
  then show ?case by (simp add: act_simps)
next
  case (snoc x xs)
  have "\<exists>a' w'. act_fold f xs a w = (Ok a', w') \<and> I xs a' w'"
    using snoc.prems by (intro snoc.IH) auto
  then obtain a' w' where "act_fold f xs a w = (Ok a', w')" "I xs a' w'" by blast
  moreover from this snoc.prems(2) [of xs x "[]" a' w'] obtain a'' w''
    where "f x a' w' = (Ok a'', w'')" "I (xs @ [x]) a'' w''" by auto
  ultimately show ?case by (auto simp: act_fold_append act_simps)
qed

end
