(* ===== verification/Le_Bytes.thy ===== *)
theory Le_Bytes
  imports Kiss_Prelude
begin

text \<open>
  Little-endian bytes, as Rust's standard library has them: \<^verbatim>\<open>u64::from_le_bytes\<close>,
  \<^verbatim>\<open>u64::to_le_bytes\<close> and \<^verbatim>\<open>chunks_exact\<close>. \<open>le_nat\<close> is the number a list of bytes denotes; the
  lemmas relate slices of a byte list to the digits of that number.
\<close>

primrec le_nat :: "bytes \<Rightarrow> nat" where
  "le_nat [] = 0"
| "le_nat (b # bs) = unat b + 256 * le_nat bs"

definition from_le_bytes :: "bytes \<Rightarrow> u64" where
  "from_le_bytes bs = of_nat (le_nat bs)"

definition to_le_bytes :: "u64 \<Rightarrow> bytes" where
  "to_le_bytes x = map (\<lambda>i. ucast (drop_bit (8 * i) x)) [0..<8]"

fun chunks_exact :: "nat \<Rightarrow> 'a list \<Rightarrow> 'a list list" where
  "chunks_exact n xs =
     (if n = 0 \<or> length xs < n then [] else take n xs # chunks_exact n (drop n xs))"

declare chunks_exact.simps [simp del]

lemma le_nat_append: "le_nat (xs @ ys) = le_nat xs + 256 ^ length xs * le_nat ys"
  by (induction xs) (simp_all add: algebra_simps)

lemma le_nat_less: "le_nat bs < 256 ^ length bs"
proof (induction bs)
  case Nil
  then show ?case by simp
next
  case (Cons b bs)
  have "unat b < 256" using unsigned_less [of b] by simp
  then show ?case using Cons by simp
qed

lemma le_nat_inject: "le_nat xs = le_nat ys \<Longrightarrow> length xs = length ys \<Longrightarrow> xs = ys"
proof (induction xs arbitrary: ys)
  case (Cons x xs)
  then obtain y ys' where ys: "ys = y # ys'" by (cases ys) simp_all
  have b: "unat b < 256" for b :: u8 using unsigned_less [of b] by simp
  from Cons.prems have "unat x + 256 * le_nat xs = unat y + 256 * le_nat ys'" by (simp add: ys)
  moreover have "(u + 256 * v) mod 256 = u \<and> (u + 256 * v) div 256 = v" if "u < 256" for u v :: nat
    using that by simp
  ultimately have "unat x = unat y \<and> le_nat xs = le_nat ys'" using b by metis
  then show ?case using Cons ys by (simp add: word_unat_eq_iff)
qed simp

lemma le_nat_zeros [simp]: "le_nat (replicate n 0) = 0"
  by (induction n) simp_all

lemma le_nat_take: "le_nat (take n bs) = le_nat bs mod 256 ^ n"
proof (cases "n \<le> length bs")
  case True
  then have "le_nat bs = le_nat (take n bs) + 256 ^ n * le_nat (drop n bs)"
    using le_nat_append [of "take n bs" "drop n bs"] by (simp add: min_absorb2)
  then show ?thesis using le_nat_less [of "take n bs"] True by (simp add: min_absorb2)
next
  case False
  then have "le_nat bs < 256 ^ n"
    using le_nat_less [of bs] by (meson less_le_trans power_increasing not_le less_imp_le one_le_numeral)
  with False show ?thesis by simp
qed

lemma le_nat_drop: "le_nat (drop n bs) = le_nat bs div 256 ^ n"
proof (cases "n \<le> length bs")
  case True
  then have "le_nat bs = le_nat (take n bs) + 256 ^ n * le_nat (drop n bs)"
    using le_nat_append [of "take n bs" "drop n bs"] by (simp add: min_absorb2)
  then show ?thesis using le_nat_less [of "take n bs"] True by (simp add: min_absorb2)
next
  case False
  then have "le_nat bs < 256 ^ n"
    using le_nat_less [of bs] by (meson less_le_trans power_increasing not_le less_imp_le one_le_numeral)
  with False show ?thesis by simp
qed

text \<open>Zero bytes at the end do not change a slice's number.\<close>

lemma le_nat_slice_zeros:
  "le_nat (take n (drop k (bs @ replicate m 0))) = le_nat (take n (drop k bs))"
  by (simp add: le_nat_append take_replicate drop_replicate)

lemma unat_from_le_bytes: "length bs \<le> 8 \<Longrightarrow> unat (from_le_bytes bs) = le_nat bs"
proof -
  assume "length bs \<le> 8"
  then have "le_nat bs < 256 ^ 8"
    using le_nat_less [of bs] by (meson less_le_trans power_increasing one_le_numeral)
  then show ?thesis by (simp add: from_le_bytes_def unat_of_nat)
qed

lemma le_nat_digits: "le_nat (map (\<lambda>i. of_nat (n div 256 ^ i)) [0..<k]) = n mod 256 ^ k"
proof (induction k)
  case 0
  then show ?case by simp
next
  case (Suc k)
  have "unat (of_nat (n div 256 ^ k) :: u8) = n div 256 ^ k mod 256" by (simp add: unat_of_nat)
  with Suc show ?case
    by (simp add: le_nat_append) (metis mod_mult2_eq mult.commute add.commute)
qed

lemma to_le_bytes_nat: "to_le_bytes x = map (\<lambda>i. of_nat (unat x div 256 ^ i)) [0..<8]"
proof -
  have "ucast (drop_bit (8 * i) x) = (of_nat (unat x div 256 ^ i) :: u8)" for i
  proof -
    have "unat (drop_bit (8 * i) x) = unat x div 256 ^ i"
      by (subst unat_drop_bit_eq) (simp add: drop_bit_eq_div power_mult)
    then show ?thesis by (simp add: unsigned_def)
  qed
  then show ?thesis by (simp add: to_le_bytes_def)
qed

lemma from_to_le_bytes [simp]: "from_le_bytes (to_le_bytes x) = x"
proof -
  have "unat x < 256 ^ 8" using unsigned_less [of x] by simp
  then show ?thesis by (simp only: from_le_bytes_def to_le_bytes_nat le_nat_digits mod_less) simp
qed

lemma length_to_le_bytes [simp]: "length (to_le_bytes x) = 8"
  by (simp add: to_le_bytes_def)

lemma length_chunks_exact: "0 < n \<Longrightarrow> length (chunks_exact n xs) = length xs div n"
proof (induction n xs rule: chunks_exact.induct)
  case (1 n xs)
  then show ?case
    by (cases "length xs < n")
       (simp_all add: chunks_exact.simps [of n xs] le_div_geq)
qed

lemma nth_chunks_exact:
  "0 < n \<Longrightarrow> i < length xs div n \<Longrightarrow> chunks_exact n xs ! i = take n (drop (n * i) xs)"
proof (induction n xs arbitrary: i rule: chunks_exact.induct)
  case (1 n xs)
  then have "\<not> length xs < n" by auto
  with 1 show ?case
    by (cases i) (auto simp: chunks_exact.simps [of n xs] le_div_geq add.commute)
qed

lemma chunks_exact_concat:
  "0 < n \<Longrightarrow> (\<forall>c \<in> set cs. length c = n) \<Longrightarrow> chunks_exact n (concat cs) = cs"
  by (induction cs) (auto simp: chunks_exact.simps [of n "concat _"] chunks_exact.simps [of n "_ @ _"]
      chunks_exact.simps [of n "[]"])

end
