(* ===== verification/F64.thy ===== *)
theory F64
  imports Kiss_Prelude
begin

text \<open>
  The part of Rust's \<open>f64\<close> that \<^verbatim>\<open>src/verifier/por.rs\<close> uses to choose the shape of the audit
  matrix: \<^verbatim>\<open>usize as f64\<close>, \<^verbatim>\<open>sqrt\<close>, division, \<^verbatim>\<open>ceil\<close>, multiplication and \<^verbatim>\<open>f64 as usize\<close>. A
  non-negative number is a mantissa of 53 bits and an exponent, and every operation is the
  correctly rounded (nearest, ties to even) exact result, as IEEE 754 prescribes. No number the
  program computes leaves the normal range, so infinities and subnormals do not occur.

  \<open>grid_rows\<close> is the expression of the source. \<open>grid_rows_exact\<close> shows that for every number of
  chunks up to \<open>2 ^ 50\<close> the rounding never changes its value: it is the least multiple of 56 whose
  square is at least the number of chunks.
\<close>

section \<open>Numbers and rounding\<close>

datatype f64 = F64 (mant: nat) (expo: int)

fun bit_len :: "nat \<Rightarrow> nat" where
  "bit_len n = (if n = 0 then 0 else Suc (bit_len (n div 2)))"

declare bit_len.simps [simp del]

fun isqrt :: "nat \<Rightarrow> nat" where
  "isqrt n =
     (if n = 0 then 0
      else let r = 2 * isqrt (n div 4) in if (r + 1) * (r + 1) \<le> n then r + 1 else r)"

declare isqrt.simps [simp del]

definition round_even :: "nat \<Rightarrow> nat \<Rightarrow> nat" where
  "round_even a b =
     (let q = a div b; r = a mod b
      in if 2 * r < b \<or> (2 * r = b \<and> even q) then q else q + 1)"

text \<open>The quotient \<open>a / b\<close> rounded to 53 bits.\<close>

definition f64_round :: "nat \<Rightarrow> nat \<Rightarrow> f64" where
  "f64_round a b =
     (if a = 0 then F64 0 0
      else let e = int (bit_len a) - int (bit_len b) - 53;
               e = (if a * 2 ^ nat (- e) < b * 2 ^ nat e * 2 ^ 53 then e else e + 1)
           in F64 (round_even (a * 2 ^ nat (- e)) (b * 2 ^ nat e)) e)"

definition f64_of_usize :: "nat \<Rightarrow> f64" where
  "f64_of_usize n = f64_round n 1"

fun f64_div :: "f64 \<Rightarrow> f64 \<Rightarrow> f64" where
  "f64_div (F64 m e) (F64 m' e') = f64_round (m * 2 ^ nat (e - e')) (m' * 2 ^ nat (e' - e))"

fun f64_mul :: "f64 \<Rightarrow> f64 \<Rightarrow> f64" where
  "f64_mul (F64 m e) (F64 m' e') = f64_round (m * m' * 2 ^ nat (e + e')) (2 ^ nat (- (e + e')))"

text \<open>The square root: the radicand is scaled to an integer of 105 or 106 bits.\<close>

fun f64_sqrt :: "f64 \<Rightarrow> f64" where
  "f64_sqrt (F64 m e) =
     (if m = 0 then F64 0 0
      else let e' = (e + int (bit_len m) - 105) div 2;
               x = m * 2 ^ nat (e - 2 * e');
               s = isqrt x
           in F64 (if s * s + s < x then s + 1 else s) e')"

fun f64_ceil :: "f64 \<Rightarrow> f64" where
  "f64_ceil (F64 m e) =
     (if 0 \<le> e then F64 m e else F64 ((m + 2 ^ nat (- e) - 1) div 2 ^ nat (- e)) 0)"

fun f64_to_usize :: "f64 \<Rightarrow> nat" where
  "f64_to_usize (F64 m e) = min (m * 2 ^ nat e div 2 ^ nat (- e)) (2 ^ 64 - 1)"

definition CHUNK_ALIGN :: nat where "CHUNK_ALIGN = 56"

definition grid_rows :: "nat \<Rightarrow> nat" where
  "grid_rows num_chunks =
     f64_to_usize
       (f64_mul
         (f64_ceil (f64_div (f64_sqrt (f64_of_usize num_chunks)) (f64_of_usize CHUNK_ALIGN)))
         (f64_of_usize CHUNK_ALIGN))"

text \<open>The least multiple of 56 whose square is at least \<open>n\<close>, by its factor.\<close>

definition sqrt_ceil56 :: "nat \<Rightarrow> nat \<Rightarrow> bool" where
  "sqrt_ceil56 n c \<longleftrightarrow> 0 < c \<and> n \<le> (56 * c) * (56 * c) \<and> (56 * (c - 1)) * (56 * (c - 1)) < n"

section \<open>Integer square root, bit length, rounding\<close>

lemma isqrt_bounds: "isqrt n * isqrt n \<le> n \<and> n < (isqrt n + 1) * (isqrt n + 1)"
proof (induction n rule: isqrt.induct)
  case (1 n)
  show ?case
  proof (cases "n = 0")
    case True
    then show ?thesis by (simp add: isqrt.simps)
  next
    case False
    let ?i = "isqrt (n div 4)"
    from "1.IH" [OF False] have "?i * ?i \<le> n div 4" "n div 4 < (?i + 1) * (?i + 1)" by simp_all
    then have "4 * (?i * ?i) \<le> n" "n < 4 * ((?i + 1) * (?i + 1))" by linarith+
    with False show ?thesis by (simp add: isqrt.simps [of n] Let_def algebra_simps)
  qed
qed

lemma bit_len_bounds: "0 < n \<Longrightarrow> 2 ^ (bit_len n - 1) \<le> n \<and> n < 2 ^ bit_len n \<and> 0 < bit_len n"
proof (induction n rule: bit_len.induct)
  case (1 n)
  show ?case
  proof (cases "n div 2 = 0")
    case True
    with "1.prems" show ?thesis by (simp add: bit_len.simps [of n] bit_len.simps [of 0])
  next
    case False
    with "1.IH" "1.prems" have
      "2 ^ (bit_len (n div 2) - 1) \<le> n div 2" "n div 2 < 2 ^ bit_len (n div 2)" "0 < bit_len (n div 2)"
      by simp_all
    moreover from this have "(2::nat) ^ bit_len (n div 2) = 2 * 2 ^ (bit_len (n div 2) - 1)"
      by (metis power_minus_mult mult.commute)
    moreover have "bit_len n = Suc (bit_len (n div 2))"
      using "1.prems" by (simp add: bit_len.simps [of n])
    ultimately show ?thesis by simp arith
  qed
qed

lemma pow2_less: "(2::nat) ^ a < 2 ^ b \<longleftrightarrow> a < b"
  by simp

lemma bit_len_unique: "2 ^ k \<le> n \<Longrightarrow> n < 2 ^ Suc k \<Longrightarrow> bit_len n = Suc k"
proof -
  assume n: "2 ^ k \<le> n" "n < 2 ^ Suc k"
  then have "0 < n" by (metis gr0I not_le zero_less_numeral zero_less_power)
  note b = bit_len_bounds [OF this]
  from n b have "(2::nat) ^ (bit_len n - 1) < 2 ^ Suc k" "(2::nat) ^ k < 2 ^ bit_len n" by linarith+
  then have "bit_len n - 1 < Suc k" "k < bit_len n"
    by (simp_all only: pow2_less)
  then show ?thesis using b by simp
qed

lemma round_even_mult: "0 < c \<Longrightarrow> round_even (c * a) (c * b) = round_even a b"
  by (auto simp: round_even_def Let_def mult.left_commute [of 2 c])

lemma round_even_exact: "0 < b \<Longrightarrow> round_even (b * c) b = c"
  by (simp add: round_even_def)

lemma round_even_le:
  assumes "0 < b" "a \<le> b * c"
  shows "round_even a b \<le> c"
proof (cases "a mod b = 0")
  case True
  then have "round_even a b = a div b" using assms(1) by (simp add: round_even_def)
  also have "\<dots> \<le> c" using assms by (metis div_le_mono nonzero_mult_div_cancel_left less_not_refl)
  finally show ?thesis .
next
  case False
  have "a div b < c"
  proof (rule ccontr)
    assume "\<not> a div b < c"
    then have "b * c \<le> b * (a div b)" by simp
    with assms(2) False mult_div_mod_eq [of b a] show False by linarith
  qed
  then show ?thesis by (simp add: round_even_def Let_def)
qed

lemma round_even_gt:
  assumes "0 < b" "2 * a > b * (2 * c + 1)"
  shows "c < round_even a b"
proof (cases "c < a div b")
  case True
  then show ?thesis by (simp add: round_even_def Let_def)
next
  case False
  then have "b * (a div b) \<le> b * c" by simp
  moreover have "a = b * (a div b) + a mod b" by simp
  ultimately have *: "b < 2 * (a mod b)" if "a div b = c" using assms that
    by (simp add: algebra_simps)
  have "a div b = c"
  proof (rule ccontr)
    assume "a div b \<noteq> c"
    with False have "Suc (a div b) \<le> c" by simp
    then have "b * Suc (a div b) \<le> b * c" by (rule mult_le_mono2)
    moreover have "a < b * Suc (a div b)" using assms(1) by (simp add: dividend_less_times_div)
    ultimately have "a < b * c" by simp
    with assms show False by (simp add: algebra_simps)
  qed
  with * show ?thesis by (simp add: round_even_def Let_def)
qed

section \<open>The rounding never changes the number of rows\<close>

lemma f64_round_small:
  assumes "0 < a" "0 < b" "a < b * 2 ^ 52"
  obtains k where "f64_round a b = F64 (round_even (a * 2 ^ k) b) (- int k)"
    and "b * 2 ^ 52 \<le> a * 2 ^ k" and "a * 2 ^ k < b * 2 ^ 53"
proof -
  define la lb where "la = bit_len a" and "lb = bit_len b"
  have a: "2 ^ (la - 1) \<le> a" "a < 2 ^ la" "0 < la" and b: "2 ^ (lb - 1) \<le> b" "b < 2 ^ lb" "0 < lb"
    using bit_len_bounds assms(1,2) by (simp_all add: la_def lb_def)
  have "b * 2 ^ 52 < 2 ^ lb * 2 ^ 52" using b(2) by simp
  with a(1) assms(3) have "(2::nat) ^ (la - 1) < 2 ^ (lb + 52)" by (simp add: power_add)
  then have "la - 1 < lb + 52" by (simp only: pow2_less)
  then have "la < lb + 53" using a(3) by simp
  then obtain k where k: "lb + 53 = la + Suc k" by (metis less_imp_Suc_add add_Suc_right)
  have lo: "b * 2 ^ 52 < a * 2 ^ Suc k"
  proof -
    have "b * 2 ^ 52 < 2 ^ (lb + 52)" using b(2) by (simp add: power_add)
    also have "lb + 52 = la - 1 + Suc k" using k a(3) by simp
    also have "(2::nat) ^ (la - 1 + Suc k) \<le> a * 2 ^ Suc k" using a(1) by (simp add: power_add)
    finally show ?thesis .
  qed
  have hi: "a * 2 ^ Suc k < b * 2 ^ 54"
  proof -
    have "a * 2 ^ Suc k < 2 ^ la * 2 ^ Suc k" using a(2) by simp
    also have "\<dots> = 2 ^ (lb - 1 + 54)" 
    proof -
      have "la + Suc k = lb - 1 + 54" using k b(3) by simp
      then show ?thesis by (simp only: power_add [symmetric])
    qed
    also have "\<dots> = 2 ^ (lb - 1) * 2 ^ 54" by (rule power_add)
    also have "\<dots> \<le> b * 2 ^ 54" using b(1) by simp
    finally show ?thesis .
  qed
  have e: "int la - int lb - 53 = - int (Suc k)" and n: "nat (int k + 1) = Suc k" using k by simp_all
  show thesis
  proof (cases "a * 2 ^ Suc k < b * 2 ^ 53")
    case True
    then have "f64_round a b = F64 (round_even (a * 2 ^ Suc k) b) (- int (Suc k))"
      using assms(1) by (simp add: f64_round_def Let_def e n flip: la_def lb_def)
    then show thesis using that [of "Suc k"] lo True by simp
  next
    case False
    then have "f64_round a b = F64 (round_even (a * 2 ^ k) b) (- int k)"
      using assms(1) by (simp add: f64_round_def Let_def e n flip: la_def lb_def)
    then show thesis using that [of k] False hi by simp
  qed
qed

lemma f64_of_usize_small:
  assumes "0 < n" "n < 2 ^ 52"
  obtains k where "f64_of_usize n = F64 (n * 2 ^ k) (- int k)"
    and "2 ^ 52 \<le> n * 2 ^ k" and "n * 2 ^ k < 2 ^ 53"
proof -
  obtain k where "f64_round n 1 = F64 (round_even (n * 2 ^ k) 1) (- int k)"
    "2 ^ 52 \<le> n * 2 ^ k" "n * 2 ^ k < 2 ^ 53"
    using f64_round_small [of n 1] assms by auto
  then show thesis
    using that round_even_exact [of 1 "n * 2 ^ k"] by (simp add: f64_of_usize_def)
qed

lemma four_pow: "(4::nat) ^ t = 2 ^ t * 2 ^ t"
  by (simp flip: power_mult_distrib)

lemma sqrt_round_le:
  fixes s x c :: nat
  assumes "s * s \<le> x" "x \<le> c * c" "s' = (if s * s + s < x then s + 1 else s)"
  shows "s' \<le> c"
proof -
  have "s \<le> c" using assms(1,2) by (meson mult_strict_mono le_trans not_less zero_le)
  then show ?thesis using assms by (cases "s = c") auto
qed

lemma sqrt_round_gt:
  fixes s x b :: nat
  assumes "b * b + b < x" "s * s \<le> x \<and> x < (s + 1) * (s + 1)"
    and "s' = (if s * s + s < x then s + 1 else s)"
  shows "b < s'"
proof -
  have "b * b < (s + 1) * (s + 1)" using assms(1,2) by linarith
  then have "b < s + 1" by (meson mult_le_mono not_less)
  then show ?thesis using assms by (cases "s = b") auto
qed

lemma f64_sqrt_usize:
  assumes "0 < n" "n \<le> 2 ^ 50" "sqrt_ceil56 n c"
  obtains s t where "f64_sqrt (f64_of_usize n) = F64 s (- int t)" and "s \<le> 2 ^ 53"
    and "s \<le> 56 * c * 2 ^ t" and "56 * (c - 1) * 2 ^ t < s" and "27 \<le> t"
proof -
  obtain k where f: "f64_of_usize n = F64 (n * 2 ^ k) (- int k)"
    and k: "2 ^ 52 \<le> n * 2 ^ k" "n * 2 ^ k < 2 ^ 53"
    using f64_of_usize_small [of n] assms(1,2) by auto
  define t where "t = (k + 53) div 2"
  define x where "x = n * 4 ^ t"
  define s where "s = isqrt x"
  define s' where "s' = (if s * s + s < x then s + 1 else s)"
  have "bit_len (n * 2 ^ k) = 53" using bit_len_unique [of 52] k by simp
  moreover have "(- int k + 53 - 105) div 2 = - int t" by (simp add: t_def)
  moreover have "n * 2 ^ k * 2 ^ nat (- int k - 2 * - int t) = x"
  proof -
    have "nat (- int k - 2 * - int t) = 2 * t - k" and "k \<le> 2 * t" by (auto simp: t_def)
    then have "n * 2 ^ k * 2 ^ nat (- int k - 2 * - int t) = n * 2 ^ (2 * t)"
      by (simp flip: power_add mult.assoc add: mult.assoc)
    then show ?thesis by (simp add: x_def power_mult)
  qed
  ultimately have r: "f64_sqrt (f64_of_usize n) = F64 s' (- int t)"
    using assms(1) by (simp add: f s'_def s_def Let_def)
  note sq = isqrt_bounds [of x, folded s_def]
  have "2 \<le> k"
  proof (rule ccontr)
    assume "\<not> 2 \<le> k"
    then have "(2::nat) ^ k \<le> 2 ^ 1" by (intro power_increasing) auto
    then have "n * 2 ^ k \<le> 2 ^ 50 * 2 ^ 1" using assms(2) by (rule mult_le_mono [rotated])
    with k(1) show False by simp
  qed
  then have t: "27 \<le> t" by (simp add: t_def)
  define A where "A = 56 * (c - 1)"
  have A: "A * A < n" and "n \<le> (56 * c) * (56 * c)" using assms(3) by (simp_all add: sqrt_ceil56_def A_def)
  then have c: "n * 4 ^ t \<le> (56 * c) * (56 * c) * 4 ^ t" "(A * A + 1) * 4 ^ t \<le> n * 4 ^ t"
    by (intro mult_le_mono1; simp)+
  have "A < 2 ^ t"
  proof -
    have "A * A < 2 ^ 25 * 2 ^ 25" using A assms(2) by simp
    then have "A < 2 ^ 25" by (meson mult_le_mono not_less)
    also have "(2::nat) ^ 25 \<le> 2 ^ t" using t by (intro power_increasing) auto
    finally show ?thesis .
  qed
  show thesis
  proof (rule that [OF r])
    show "s' \<le> 2 ^ 53"
    proof -
      have "n * 2 ^ k * 2 ^ (2 * t - k) < 2 ^ 53 * 2 ^ (2 * t - k)" using k(2) by simp
      also have "\<dots> \<le> 2 ^ 53 * 2 ^ 53" unfolding t_def
        by (intro mult_le_mono2 power_increasing) auto
      also have "n * 2 ^ k * 2 ^ (2 * t - k) = x"
      proof -
        have "k + (2 * t - k) = t + t" by (simp add: t_def)
        then have "(2::nat) ^ k * 2 ^ (2 * t - k) = 2 ^ t * 2 ^ t" by (metis power_add)
        then show ?thesis by (simp only: x_def four_pow mult.assoc)
      qed
      finally have "s * s < 2 ^ 53 * 2 ^ 53" using sq by linarith
      then have "s < 2 ^ 53" by (meson mult_le_mono not_less)
      then show ?thesis by (simp add: s'_def)
    qed
    show "s' \<le> 56 * c * 2 ^ t"
    proof (rule sqrt_round_le)
      show "x \<le> 56 * c * 2 ^ t * (56 * c * 2 ^ t)"
        using c(1) by (simp only: x_def four_pow mult.assoc mult.left_commute)
    qed (use sq in \<open>simp_all add: s'_def\<close>)
    show "56 * (c - 1) * 2 ^ t < s'" unfolding A_def [symmetric]
    proof (rule sqrt_round_gt [OF _ sq])
      have "(A * 2 ^ t) * (A * 2 ^ t) + A * 2 ^ t < (A * 2 ^ t) * (A * 2 ^ t) + 2 ^ t * 2 ^ t"
        using \<open>A < 2 ^ t\<close> by simp
      also have "\<dots> \<le> x" using c(2) by (simp add: x_def four_pow algebra_simps)
      finally show "(A * 2 ^ t) * (A * 2 ^ t) + A * 2 ^ t < x" .
    qed (simp add: s'_def)
  qed (rule t)
qed

lemma ceil_div_eq:
  fixes r m c :: nat
  assumes "r \<le> c * m" "(c - 1) * m < r" "0 < c"
  shows "(r + m - 1) div m = c"
proof -
  obtain b where b: "c = Suc b" using assms(3) by (cases c) auto
  then have "b * m < r" "r \<le> b * m + m" using assms(1,2) by simp_all
  then show ?thesis unfolding b by (intro div_nat_eqI) (simp_all add: mult.commute [of m])
qed

lemma f64_ceil_div56:
  assumes "s \<le> 2 ^ 53" "s \<le> 56 * c * 2 ^ t" "56 * (c - 1) * 2 ^ t < s" "0 < c" "27 \<le> t"
  shows "f64_ceil (f64_div (F64 s (- int t)) (f64_of_usize 56)) = F64 c 0"
proof -
  obtain j where j: "f64_of_usize 56 = F64 (56 * 2 ^ j) (- int j)"
    using f64_of_usize_small [of 56] by auto
  define x where "x = j - t"
  have p: "j + (t - j) = x + t" by (simp add: x_def)
  have a: "nat (- int t - - int j) = x" and b: "nat (- int j - - int t) = t - j"
    by (simp_all add: x_def)
  have den: "(56::nat) * 2 ^ j * 2 ^ (t - j) = 2 ^ x * (56 * 2 ^ t)"
    by (simp add: p mult.assoc flip: power_add)
  have "s * 2 ^ x < 2 ^ x * (56 * 2 ^ t) * 2 ^ 52"
  proof -
    have "s < 2 ^ 54" using assms(1) by simp
    also have "(2::nat) ^ 54 \<le> 56 * 2 ^ t * 2 ^ 52"
      using power_increasing [OF assms(5), of "2::nat"] by simp
    finally show ?thesis by simp
  qed
  moreover have "0 < s * 2 ^ x" using assms(3) by simp
  ultimately obtain k where
    k: "f64_round (s * 2 ^ x) (2 ^ x * (56 * 2 ^ t)) =
          F64 (round_even (s * 2 ^ x * 2 ^ k) (2 ^ x * (56 * 2 ^ t))) (- int k)"
      "2 ^ x * (56 * 2 ^ t) * 2 ^ 52 \<le> s * 2 ^ x * 2 ^ k"
    using f64_round_small [of "s * 2 ^ x" "2 ^ x * (56 * 2 ^ t)"] by auto
  have "56 * 2 ^ t * 2 ^ 52 \<le> s * 2 ^ k" using k(2) by simp
  also have "\<dots> \<le> 2 ^ 53 * 2 ^ k" using assms(1) by (rule mult_le_mono1)
  finally have "28 * 2 ^ t \<le> (2::nat) ^ k" by simp
  moreover have "0 < (2::nat) ^ t" by simp
  ultimately have "16 * 2 ^ t < (2::nat) ^ k" by linarith
  then have "(2::nat) ^ (t + 4) < 2 ^ k" by (simp add: power_add)
  then have "t + 4 < k" by (simp only: pow2_less)
  define d where "d = k - t"
  with \<open>t + 4 < k\<close> have d: "k = t + d" "5 \<le> d" by simp_all
  define r where "r = round_even (s * 2 ^ d) 56"
  have "round_even (s * 2 ^ x * 2 ^ k) (2 ^ x * (56 * 2 ^ t)) = r"
    using round_even_mult [of "2 ^ x * 2 ^ t" "s * 2 ^ d" 56]
    by (simp add: r_def d(1) power_add mult_ac)
  then have f: "f64_div (F64 s (- int t)) (f64_of_usize 56) = F64 r (- int k)"
    using k(1) by (simp only: j f64_div.simps a b den)
  have "r \<le> c * 2 ^ k" unfolding r_def
    using assms(2) by (intro round_even_le) (simp_all add: d(1) power_add mult_ac)
  moreover have "(c - 1) * 2 ^ k < r" unfolding r_def
  proof (rule round_even_gt)
    have "(2::nat) ^ 5 \<le> 2 ^ d" using d(2) by (rule power_increasing) simp
    moreover have "(56 * (c - 1) * 2 ^ t + 1) * 2 ^ d \<le> s * 2 ^ d"
      using assms(3) by (intro mult_le_mono1) simp
    ultimately show "56 * (2 * ((c - 1) * 2 ^ k) + 1) < 2 * (s * 2 ^ d)"
      by (simp add: d(1) power_add algebra_simps)
  qed simp
  ultimately have "(r + 2 ^ k - 1) div 2 ^ k = c"
    using assms(4) by (intro ceil_div_eq) auto
  moreover have "0 < k" using d by simp
  ultimately show ?thesis by (simp add: f)
qed

lemma sqrt_ceil56_ex: "0 < n \<Longrightarrow> \<exists>c. sqrt_ceil56 n c"
proof -
  assume "0 < n"
  define c where "c = (LEAST c. n \<le> (56 * c) * (56 * c))"
  have ex: "n \<le> (56 * n) * (56 * n)" using \<open>0 < n\<close> by (cases n) (auto simp: algebra_simps)
  have le: "n \<le> (56 * c) * (56 * c)" unfolding c_def by (rule LeastI [of _ n]) (rule ex)
  with \<open>0 < n\<close> have "0 < c" by (cases c) auto
  moreover from this have "\<not> n \<le> (56 * (c - 1)) * (56 * (c - 1))"
    unfolding c_def by (intro not_less_Least) (simp add: c_def)
  ultimately show ?thesis using le by (auto simp: sqrt_ceil56_def not_le)
qed

lemma f64_mul_56:
  assumes "0 < c" "56 * c < 2 ^ 52"
  shows "f64_to_usize (f64_mul (F64 c 0) (f64_of_usize 56)) = 56 * c"
proof -
  obtain j where j: "f64_of_usize 56 = F64 (56 * 2 ^ j) (- int j)"
    using f64_of_usize_small [of 56] by auto
  obtain k where "f64_round (c * (56 * 2 ^ j)) (2 ^ j) = F64 (round_even (c * (56 * 2 ^ j) * 2 ^ k) (2 ^ j)) (- int k)"
    using f64_round_small [of "c * (56 * 2 ^ j)" "2 ^ j"] assms by auto
  moreover have "round_even (c * (56 * 2 ^ j) * 2 ^ k) (2 ^ j) = 56 * c * 2 ^ k"
    using round_even_exact [of "2 ^ j" "56 * c * 2 ^ k"] by (simp add: mult_ac)
  ultimately show ?thesis using assms(2) by (simp add: j)
qed

lemma grid_rows_exact:
  assumes "0 < n" "n \<le> 2 ^ 50"
  shows "\<exists>c. grid_rows n = 56 * c \<and> sqrt_ceil56 n c"
proof -
  obtain c where c: "sqrt_ceil56 n c" using sqrt_ceil56_ex assms(1) by blast
  then have "0 < c" by (simp add: sqrt_ceil56_def)
  obtain s t where r: "f64_sqrt (f64_of_usize n) = F64 s (- int t)" "s \<le> 2 ^ 53"
    "s \<le> 56 * c * 2 ^ t" "56 * (c - 1) * 2 ^ t < s" "27 \<le> t"
    using f64_sqrt_usize [OF assms c] by blast
  have "56 * (c - 1) < 2 ^ 26"
  proof -
    have "56 * (c - 1) * (56 * (c - 1)) < 2 ^ 26 * 2 ^ 26" using c assms(2) by (simp add: sqrt_ceil56_def)
    then show ?thesis by (meson mult_le_mono not_less)
  qed
  then have "56 * c < 2 ^ 52" by simp
  with f64_mul_56 [OF \<open>0 < c\<close>] f64_ceil_div56 [OF r(2-4) \<open>0 < c\<close> r(5)] r(1) c
  show ?thesis by (auto simp: grid_rows_def CHUNK_ALIGN_def)
qed

lemma grid_rows_bounds:
  assumes "0 < n" "n \<le> 2 ^ 50"
  shows "0 < grid_rows n" and "56 dvd grid_rows n" and "n \<le> grid_rows n * grid_rows n"
    and "(grid_rows n - 56) * (grid_rows n - 56) < n"
  using grid_rows_exact [OF assms] by (auto simp: sqrt_ceil56_def right_diff_distrib')

end
