(* ===== verification/Por_Random.thy ===== *)
theory Por_Random
  imports Kiss_Prelude
begin

text \<open>
  The pseudo random generator of \<^verbatim>\<open>src/verifier/por.rs\<close> (a TinyMT variant): \<^verbatim>\<open>struct Random\<close> with
  \<^verbatim>\<open>init\<close>, \<^verbatim>\<open>period_certification\<close>, \<^verbatim>\<open>next_state\<close>, \<^verbatim>\<open>temper\<close>, \<^verbatim>\<open>generate_uint64\<close>,
  \<^verbatim>\<open>rand_mod_p\<close> and \<^verbatim>\<open>rand_vector\<close>, on 64 bit words.

  \<^item> The array \<^verbatim>\<open>status: [u64; 2]\<close> is the two fields \<open>status0\<close>, \<open>status1\<close>; \<open>get_status\<close> and
    \<open>set_status\<close> are the accesses \<^verbatim>\<open>status[i & 1]\<close>.
  \<^item> \<^verbatim>\<open>rand_mod_p\<close> is a rejection loop with no bound, so it is a partial function: \<open>None\<close> means that
    the loop does not end.
  \<^item> \<open>int_state\<close>, \<open>int_sample\<close> and \<open>int_vector\<close> are a reference definition of the generator on
    integers for the matrices the program uses (all zero); \<open>rand_vector_int\<close> shows that the word
    level code computes it, and it is what the concrete vectors are evaluated with.
\<close>

section \<open>Constants\<close>

definition P_BITS :: nat where "P_BITS = 57"
definition MIN_LOOP :: nat where "MIN_LOOP = 8"
definition P57 :: u64 where "P57 = 144115188075855859"
definition TINYMT_MASK :: u64 where "TINYMT_MASK = 0x7fffffffffffffff"

section \<open>The generator\<close>

record random =
  status0 :: u64
  status1 :: u64
  mat1 :: u32
  mat2 :: u32
  tmat :: u64

definition get_status :: "random \<Rightarrow> nat \<Rightarrow> u64" where
  "get_status r i = (if even i then status0 r else status1 r)"

definition set_status :: "nat \<Rightarrow> u64 \<Rightarrow> random \<Rightarrow> random" where
  "set_status i x r = (if even i then r\<lparr>status0 := x\<rparr> else r\<lparr>status1 := x\<rparr>)"

text \<open>One round of the mixing loop of \<^verbatim>\<open>init\<close>; the product is taken in \<open>u128\<close> and truncated.\<close>

definition init_round :: "nat \<Rightarrow> random \<Rightarrow> random" where
  "init_round i r =
     (let prev = get_status r (i - 1);
          mix = (of_nat i + 6364136223846793005 * ucast (prev XOR drop_bit 62 prev) :: u128)
      in set_status i (get_status r i XOR ucast mix) r)"

definition period_certification :: "random \<Rightarrow> random" where
  "period_certification r =
     (if status0 r AND TINYMT_MASK = 0 \<and> status1 r = 0
      then r\<lparr>status0 := 84, status1 := 77\<rparr> else r)"

definition init :: "u64 \<Rightarrow> random \<Rightarrow> random" where
  "init seed r =
     (let r = r\<lparr>status0 := seed XOR push_bit 32 (ucast (mat1 r))\<rparr>;
          r = r\<lparr>status1 := ucast (mat2 r) XOR tmat r\<rparr>;
          r = fold init_round [1..<MIN_LOOP] r
      in period_certification r)"

definition next_state :: "random \<Rightarrow> random" where
  "next_state r =
     (let s0 = status0 r AND TINYMT_MASK;
          x = s0 XOR status1 r;
          x = x XOR push_bit 12 x;
          x = x XOR drop_bit 32 x;
          x = x XOR push_bit 32 x;
          x = x XOR push_bit 11 x;
          neg = - (x AND 1)
      in r\<lparr>status0 := status1 r XOR (neg AND ucast (mat1 r)),
           status1 := x XOR (neg AND push_bit 32 (ucast (mat2 r)))\<rparr>)"

definition temper :: "random \<Rightarrow> u64" where
  "temper r =
     (let x = ucast ((ucast (status0 r) + ucast (status1 r) :: u128) mod 0xffffffffffffffff);
          x = x XOR drop_bit 8 (status0 r)
      in x XOR (- (x AND 1) AND tmat r))"

definition generate_uint64 :: "random \<Rightarrow> u64 \<times> random" where
  "generate_uint64 r = (let r = next_state r in (temper r, r))"

text \<open>The rejection loop: draw until the masked value is below \<open>P57\<close>.\<close>

partial_function (option) rand_mod_p :: "random \<Rightarrow> (u64 \<times> random) option" where
  "rand_mod_p r =
     (let (x, r') = generate_uint64 r;
          val = x AND (push_bit P_BITS 1 - 1)
      in if val < P57 then Some (val, r') else rand_mod_p r')"

primrec rand_fill :: "nat \<Rightarrow> random \<Rightarrow> u64 list option" where
  "rand_fill 0 r = Some []"
| "rand_fill (Suc n) r = do { (v, r') \<leftarrow> rand_mod_p r; vs \<leftarrow> rand_fill n r'; Some (v # vs) }"

definition zero_random :: random where
  "zero_random = \<lparr>status0 = 0, status1 = 0, mat1 = 0, mat2 = 0, tmat = 0\<rparr>"

definition rand_vector :: "nat \<Rightarrow> u64 \<Rightarrow> u64 list option" where
  "rand_vector n seed = rand_fill n (init seed zero_random)"

section \<open>Range of the samples\<close>

lemma rand_mod_p_range:
  assumes "rand_mod_p r = Some (v, r')"
  shows "v < P57"
  by (rule rand_mod_p.raw_induct [where P = "\<lambda>r (v, r'). v < P57", OF _ assms, simplified])
     (auto simp: Let_def split: if_splits prod.splits)

lemma rand_fill_props:
  "rand_fill n r = Some vs \<Longrightarrow> length vs = n \<and> (\<forall>v \<in> set vs. v < P57)"
  by (induction n arbitrary: r vs)
     (fastforce split: bind_splits dest: rand_mod_p_range)+

lemma rand_vector_length: "rand_vector n s = Some vs \<Longrightarrow> length vs = n"
  by (simp add: rand_vector_def rand_fill_props)

lemma rand_vector_range: "rand_vector n s = Some vs \<Longrightarrow> i < n \<Longrightarrow> unat (vs ! i) < 144115188075855859"
  using rand_fill_props [of n "init s zero_random" vs]
  by (auto simp: rand_vector_def P57_def word_less_nat_alt dest!: bspec [OF _ nth_mem])

text \<open>A longer vector from the same seed extends a shorter one.\<close>

lemma rand_fill_prefix:
  "rand_fill n r = Some vs \<Longrightarrow> m \<le> n \<Longrightarrow> rand_fill m r = Some (take m vs)"
proof (induction n arbitrary: m r vs)
  case 0
  then show ?case by simp
next
  case (Suc n)
  show ?case
  proof (cases m)
    case 0
    then show ?thesis by simp
  next
    case (Suc m')
    from Suc.prems(1) obtain v r' ws where
      "rand_mod_p r = Some (v, r')" "rand_fill n r' = Some ws" "vs = v # ws"
      by (auto split: bind_splits)
    with Suc.IH [of r' ws m'] Suc.prems(2) Suc show ?thesis by simp
  qed
qed

section \<open>Reference definition on integers\<close>

definition xor_shl :: "nat \<Rightarrow> int \<Rightarrow> int" where
  "xor_shl n x = x XOR take_bit 64 (push_bit n x)"

definition xor_shr :: "nat \<Rightarrow> int \<Rightarrow> int" where
  "xor_shr n x = x XOR drop_bit n x"

fun int_state :: "int \<times> int \<Rightarrow> int \<times> int" where
  "int_state (a, b) =
     (b, xor_shl 11 (xor_shl 32 (xor_shr 32 (xor_shl 12 (take_bit 63 a XOR b)))))"

fun int_sample :: "int \<times> int \<Rightarrow> int" where
  "int_sample (a, b) = take_bit 57 (((a + b) mod 0xffffffffffffffff) XOR drop_bit 8 a)"

text \<open>The samples without a rejection: \<open>None\<close> when one of the draws would be rejected.\<close>

declare int_state.simps [simp del] int_sample.simps [simp del]

primrec int_vector :: "nat \<Rightarrow> int \<times> int \<Rightarrow> int list option" where
  "int_vector 0 s = Some []"
| "int_vector (Suc n) s =
     (let s' = int_state s; v = int_sample s'
      in if v < 144115188075855859 then map_option (Cons v) (int_vector n s') else None)"

text \<open>The first 56 samples of the two seeds the program uses, as integers.\<close>

definition samples_2020 :: "int list" where
  "samples_2020 =
    [57829946736570845, 84853376040641058, 101783401954601920, 110131545803032571,
     83521582701475694, 95097895471546688, 43266277134273390, 84594520395027380,
     82968918648221157, 132902821039061526, 90215880049117646, 36088581440526147,
     86566092959741695, 109809266606009875, 73952007657307888, 73690625590006327,
     100408637981080653, 47211095960897756, 18804718883065874, 123686996705986066,
     82251153648006341, 2324635136958892, 76274380111055570, 10433973936383998,
     36856653675945113, 4481005938383319, 60329082758386555, 21523808470868171,
     7166479047882845, 130769252006553848, 68507851609419480, 54872685990548948,
     101081223909166870, 70985980598027272, 94981864156466175, 123069228666455345,
     57091704850400240, 31062760562311637, 56261132835089851, 21847296359904399,
     94235701533986418, 102993621291237785, 92412312247804583, 30503457873825356,
     47574627545644526, 108260382029083434, 134005527467543225, 70952571421735907,
     91389892147985141, 137152672981408394, 7668605459535287, 108532139532233787,
     23446136893226761, 71860417797247066, 138378241837032302, 52333653588968980]"

definition samples_20 :: "int list" where
  "samples_20 =
    [13457785998537090, 45123648461735385, 76635261846539495, 124196496802687771,
     112564714784516795, 65799197272842763, 65970488923255500, 30506379899125528,
     92186161075956961, 81057273116047342, 39509846311994104, 88723555634782336,
     100903884337471325, 42063212797789720, 104538841626850905, 126976769516586353,
     142079750589703579, 109587760875559145, 24558618400219957, 12442026650171056,
     83155095638137343, 50826458772864075, 140649810071171213, 123475738097125606,
     133559054637843732, 83889634842204339, 136130626080880584, 62038965148671208,
     64356829523116681, 76116807240614922, 117608548435801893, 26465870086568443,
     109306892649263822, 6912695018029649, 24402857450048157, 82610651810988628,
     133862567794590992, 133839728499639212, 60384658884680815, 92460387661094903,
     126742787271368588, 39032232244110361, 86479717042432239, 19688692348350788,
     105728073365549054, 114087649456557422, 98513814877879955, 127387454289669535,
     94253055250997932, 85173151910832633, 44742359081330970, 78493812355247765,
     106623938545296637, 102714459190174665, 139694422270334660, 139835273643171415]"

definition word_state :: "int \<times> int \<Rightarrow> random" where
  "word_state s = zero_random\<lparr>status0 := word_of_int (fst s), status1 := word_of_int (snd s)\<rparr>"


lemma bit64_less: "take_bit 64 x = (x::int) \<Longrightarrow> bit x n \<Longrightarrow> n < 64"
  by (metis bit_take_bit_iff)

lemma word_of_int_ops:
  "word_of_int x XOR word_of_int y = (word_of_int (x XOR y) :: u64)"
  "push_bit n (word_of_int x) = (word_of_int (push_bit n x) :: u64)"
  "take_bit 64 x = x \<Longrightarrow> drop_bit n (word_of_int x) = (word_of_int (drop_bit n x) :: u64)"
  "word_of_int (take_bit 64 x) = (word_of_int x :: u64)"
  "word_of_int x AND 0x7fffffffffffffff = (word_of_int (take_bit 63 x) :: u64)"
proof -
  show "word_of_int x XOR word_of_int y = (word_of_int (x XOR y) :: u64)"
    by (simp add: bit_eq_iff bit_simps)
  show "push_bit n (word_of_int x) = (word_of_int (push_bit n x) :: u64)"
    by (auto simp: bit_eq_iff bit_simps)
  show "drop_bit n (word_of_int x) = (word_of_int (drop_bit n x) :: u64)" if "take_bit 64 x = x"
    using bit64_less [OF that] by (auto simp: bit_eq_iff bit_simps)
  show "word_of_int (take_bit 64 x) = (word_of_int x :: u64)"
    by (auto simp: bit_eq_iff bit_simps)
  have "(0x7fffffffffffffff :: u64) = mask 63" by (simp add: mask_eq_exp_minus_1)
  then show "word_of_int x AND 0x7fffffffffffffff = (word_of_int (take_bit 63 x) :: u64)"
    by (auto simp: bit_eq_iff bit_simps)
qed

lemma xor_shl_word:
  "word_of_int x XOR push_bit n (word_of_int x) = (word_of_int (xor_shl n x) :: u64)"
  by (auto simp: xor_shl_def bit_eq_iff bit_simps)

lemma xor_shr_word:
  "take_bit 64 x = x \<Longrightarrow> word_of_int x XOR drop_bit n (word_of_int x) = (word_of_int (xor_shr n x) :: u64)"
  by (simp add: xor_shr_def word_of_int_ops)

lemma xor64_range:
  "take_bit 64 (x::int) = x \<Longrightarrow> take_bit 64 y = y \<Longrightarrow> take_bit 64 (x XOR y) = x XOR y"
  by simp

lemma xor_shift_range [simp]:
  assumes "take_bit 64 x = x"
  shows "take_bit 64 (xor_shl n x) = xor_shl n x" and "take_bit 64 (xor_shr n x) = xor_shr n x"
proof -
  show "take_bit 64 (xor_shl n x) = xor_shl n x" using assms by (simp add: xor_shl_def)
  have "take_bit 64 (drop_bit n x) = drop_bit n x"
    using bit64_less [OF assms] by (force simp: bit_eq_iff bit_simps)
  with assms show "take_bit 64 (xor_shr n x) = xor_shr n x" by (simp add: xor_shr_def)
qed

lemma int_state_range:
  "take_bit 64 a = a \<Longrightarrow> take_bit 64 b = b \<Longrightarrow> int_state (a, b) = (a', b') \<Longrightarrow>
   take_bit 64 a' = a' \<and> take_bit 64 b' = b'"
  by (auto simp: int_state.simps)

lemma next_state_int:
  assumes "take_bit 64 a = a" "take_bit 64 b = b"
  shows "next_state (word_state (a, b)) = word_state (int_state (a, b))"
proof -
  have r: "take_bit 64 (take_bit 63 a XOR b) = take_bit 63 a XOR b" using assms by simp
  show ?thesis
    using r by (simp add: next_state_def word_state_def zero_random_def TINYMT_MASK_def Let_def int_state.simps
        word_of_int_ops(1,5) xor_shl_word xor_shr_word
        del: push_bit_xor drop_bit_xor take_bit_xor)
qed

lemma temper_int:
  assumes "take_bit 64 a = a" "take_bit 64 b = b"
  shows "temper (word_state (a, b)) AND (push_bit P_BITS 1 - 1) = word_of_int (int_sample (a, b))"
proof -
  have le: "0 \<le> a" "0 \<le> b" "a < 2 ^ 64" "b < 2 ^ 64"
    using assms take_bit_nonnegative [of 64 a] take_bit_int_less_exp [of 64 a]
      take_bit_nonnegative [of 64 b] take_bit_int_less_exp [of 64 b] by simp_all
  let ?s = "ucast (word_of_int a :: u64) + ucast (word_of_int b :: u64) :: u128"
  have "?s = word_of_int (a + b)"
    using assms by (simp add: ucast_eq uint_word_of_int_eq)
  then have "uint ?s = take_bit 128 (a + b)" by (simp only: uint_word_of_int_eq) simp
  then have "uint ?s = a + b" using le by (simp add: take_bit_int_eq_self)
  then have "ucast (?s mod 0xffffffffffffffff) = (word_of_int ((a + b) mod 0xffffffffffffffff) :: u64)"
    by (simp only: ucast_eq [of "_ mod _"] uint_mod) simp
  moreover have "(push_bit P_BITS 1 - 1 :: u64) = mask 57"
    by (simp add: P_BITS_def mask_eq_exp_minus_1)
  moreover have "word_of_int x AND mask 57 = (word_of_int (take_bit 57 x) :: u64)" for x
    by (auto simp: bit_eq_iff bit_simps)
  ultimately show ?thesis
    using assms by (simp add: temper_def word_state_def zero_random_def Let_def int_sample.simps word_of_int_ops(1,3)
        del: push_bit_xor drop_bit_xor take_bit_xor)
qed

lemma rand_mod_p_int:
  assumes "take_bit 64 a = a" "take_bit 64 b = b" and "int_state (a, b) = s'"
    and "int_sample s' < 144115188075855859"
  shows "rand_mod_p (word_state (a, b)) = Some (word_of_int (int_sample s'), word_state s')"
proof -
  obtain a' b' where s': "s' = (a', b')" by (cases s')
  have r: "take_bit 64 a' = a'" "take_bit 64 b' = b'"
    using int_state_range [OF assms(1,2), of a' b'] assms(3) s' by simp_all
  have "take_bit 57 x = x \<Longrightarrow> x < 144115188075855859 \<Longrightarrow> (word_of_int x :: u64) < P57" for x
    using take_bit_nonnegative [of 57 x]
    by (simp add: P57_def word_less_alt uint_word_of_int_eq take_bit_int_eq_self)
  from this [of "int_sample s'"] assms(4) have "(word_of_int (int_sample s') :: u64) < P57"
    by (simp add: s' int_sample.simps)
  then show ?thesis
    using next_state_int [OF assms(1,2)] temper_int [OF r] assms(3)
    by (subst rand_mod_p.simps) (simp add: generate_uint64_def Let_def s')
qed

lemma rand_fill_int:
  "int_vector n (a, b) = Some vs \<Longrightarrow> take_bit 64 a = a \<Longrightarrow> take_bit 64 b = b \<Longrightarrow>
   rand_fill n (word_state (a, b)) = Some (map word_of_int vs)"
proof (induction n arbitrary: a b vs)
  case 0
  then show ?case by simp
next
  case (Suc n)
  obtain a' b' where s': "int_state (a, b) = (a', b')" by (cases "int_state (a, b)")
  with Suc.prems(1) obtain ws where "int_sample (a', b') < 144115188075855859"
    and "int_vector n (a', b') = Some ws" and "vs = int_sample (a', b') # ws"
    by (auto simp: Let_def split: if_splits)
  with Suc.IH int_state_range [OF Suc.prems(2,3) s'] rand_mod_p_int [OF Suc.prems(2,3) s']
  show ?case by simp
qed

lemma int_vector_numeral:
  "int_vector (numeral k) s =
     (let s' = int_state s; v = int_sample s'
      in if v < 144115188075855859 then map_option (Cons v) (int_vector (pred_numeral k) s') else None)"
  by (simp add: numeral_eq_Suc)

lemma init_2020: "init 2020 zero_random = word_state (1322990357858598306, 1915520805084982122)"
  by (simp add: init_def zero_random_def word_state_def period_certification_def TINYMT_MASK_def
      MIN_LOOP_def init_round_def get_status_def set_status_def upt_rec Let_def cong: let_weak_cong)

lemma init_20: "init 20 zero_random = word_state (12920316737846564699, 4309568757166302399)"
  by (simp add: init_def zero_random_def word_state_def period_certification_def TINYMT_MASK_def
      MIN_LOOP_def init_round_def get_status_def set_status_def upt_rec Let_def cong: let_weak_cong)

lemma int_vector_samples:
  "int_vector 56 (1322990357858598306, 1915520805084982122) = Some samples_2020"
  "int_vector 56 (12920316737846564699, 4309568757166302399) = Some samples_20"
  by (simp_all add: samples_2020_def samples_20_def int_vector_numeral int_state.simps
      int_sample.simps xor_shl_def xor_shr_def Let_def cong: let_weak_cong)

lemma rand_vector_56:
  "rand_vector 56 2020 = Some (map word_of_int samples_2020)"
  "rand_vector 56 20 = Some (map word_of_int samples_20)"
  using rand_fill_int [OF int_vector_samples(1)] rand_fill_int [OF int_vector_samples(2)]
  by (simp_all add: rand_vector_def init_2020 init_20)

lemma rand_vector_small:
  assumes "n \<le> 56"
  shows "rand_vector n 2020 = Some (map word_of_int (take n samples_2020))"
    and "rand_vector n 20 = Some (map word_of_int (take n samples_20))"
  using rand_vector_56 assms
  by (auto simp: rand_vector_def take_map dest: rand_fill_prefix)

end
