(* ===== verification/Por.thy ===== *)
theory Por
  imports Util Le_Bytes F64 Por_Random
begin

text \<open>
  The proof of retrievability protocol of \<^verbatim>\<open>src/verifier/por.rs\<close>: the configurations of the
  verification client and server, the challenge, the response and the audit.

  The file is cut into chunks of seven bytes, laid out as \<open>cols\<close> rows of \<open>rows\<close> chunks (the names
  of the source). The client keeps a secret vector and the product of the matrix with it modulo the
  prime \<open>P57\<close>; the server answers a challenge with the product from the other side; the audit
  compares the two double products.

  The definitions follow the source loop by loop, with every indexing and every addition and
  multiplication in \<open>u128\<close> checked. \<open>chunk\<close>, \<open>secret_spec\<close> and \<open>response_spec\<close> are the reference
  definitions of the matrix products; \<open>data_val_chunk\<close> is the equivalence of the shift-and-mask
  unpacking of seven 64 bit words with the eight chunks they hold.
\<close>

section \<open>Configurations\<close>

definition BYTES_UNDER_P :: nat where "BYTES_UNDER_P = 7"

definition chunk_mask :: u64 where "chunk_mask = push_bit (8 * BYTES_UNDER_P) 1 - 1"

record client_config =
  cc_rows :: nat
  cc_cols :: nat
  secret_m_vector :: "u64 list"
  secret_n_vector :: "u64 list"

record server_config =
  sc_rows :: nat
  sc_cols :: nat
  sc_file :: bytes

definition bytes_to_u64 :: "bytes \<Rightarrow> u64 list" where
  "bytes_to_u64 bs = map from_le_bytes (chunks_exact 8 bs)"

definition u64_to_bytes :: "u64 list \<Rightarrow> bytes" where
  "u64_to_bytes xs = concat (map to_le_bytes xs)"

definition from_contract_fields :: "bytes \<Rightarrow> bytes \<Rightarrow> int \<Rightarrow> int \<Rightarrow> client_config" where
  "from_contract_fields secret_n secret_m rows cols =
     \<lparr>cc_rows = i64_as_usize rows, cc_cols = i64_as_usize cols,
      secret_m_vector = bytes_to_u64 secret_m, secret_n_vector = bytes_to_u64 secret_n\<rparr>"

definition from_contract :: "contract \<Rightarrow> client_config" where
  "from_contract c =
     \<lparr>cc_rows = i64_as_usize (c_rows c), cc_cols = i64_as_usize (c_cols c),
      secret_m_vector = bytes_to_u64 (c_secret_m c), secret_n_vector = bytes_to_u64 (c_secret_n c)\<rparr>"

definition to_contract :: "client_config \<Rightarrow> bytes \<times> bytes \<times> int \<times> int" where
  "to_contract cc =
     (u64_to_bytes (secret_n_vector cc), u64_to_bytes (secret_m_vector cc),
      usize_as_i64 (cc_rows cc), usize_as_i64 (cc_cols cc))"

section \<open>The layout of the file\<close>

text \<open>The number of rows and columns for a file of the given length; an empty file panics.\<close>

definition dims :: "nat \<Rightarrow> (nat \<times> nat) option" where
  "dims file_len = do {
     l \<leftarrow> checked_sub file_len 1;
     let num_chunks = 1 + l div BYTES_UNDER_P;
     let rows = grid_rows num_chunks;
     c \<leftarrow> checked_div (num_chunks - 1) rows;
     Some (rows, 1 + c) }"

definition extend_file :: "nat \<Rightarrow> bytes \<Rightarrow> bytes" where
  "extend_file bytes_per_row file = file @ replicate bytes_per_row 0"

definition raw_row :: "bytes \<Rightarrow> nat \<Rightarrow> nat \<Rightarrow> u64 list option" where
  "raw_row file_extended bytes_per_row i = do {
     row \<leftarrow> slice file_extended (bytes_per_row * i) (bytes_per_row * (i + 1));
     Some (map from_le_bytes (chunks_exact 8 row)) }"

text \<open>The \<open>k\<close>-th of the eight values unpacked from the seven words at \<open>raw_ind\<close>.\<close>

definition data_val :: "u64 list \<Rightarrow> nat \<Rightarrow> nat \<Rightarrow> u64 option" where
  "data_val raw raw_ind k =
     (if k = 0 then do { w \<leftarrow> index raw raw_ind; Some (w AND chunk_mask) }
      else if k < 7 then do {
        a \<leftarrow> index raw (raw_ind + k - 1);
        b \<leftarrow> index raw (raw_ind + k);
        Some (drop_bit (64 - k * 8) a OR (push_bit (k * 8) b AND chunk_mask)) }
      else do { w \<leftarrow> index raw (raw_ind + 6); Some (drop_bit 8 w) })"

text \<open>\<^verbatim>\<open>acc += data * v as u128\<close>.\<close>

definition mul_add :: "u128 \<Rightarrow> u64 \<Rightarrow> u64 \<Rightarrow> u128 option" where
  "mul_add acc data v = do {
     p \<leftarrow> checked_mul (ucast data :: u128) (ucast v);
     checked_add acc p }"

definition reduce :: "u128 \<Rightarrow> u64" where
  "reduce x = ucast (x mod ucast P57)"

section \<open>The client's configuration\<close>

definition client_cell :: "u64 list \<Rightarrow> u64 list \<Rightarrow> nat \<Rightarrow> nat \<Rightarrow> nat \<Rightarrow> nat \<Rightarrow> u128 list \<Rightarrow> u128 list option" where
  "client_cell raw vector_u i full_ind raw_ind k partials1 = do {
     d \<leftarrow> data_val raw raw_ind k;
     u \<leftarrow> index vector_u i;
     acc \<leftarrow> index partials1 (full_ind + k);
     acc' \<leftarrow> mul_add acc d u;
     Some (partials1[full_ind + k := acc']) }"

definition client_block :: "u64 list \<Rightarrow> u64 list \<Rightarrow> nat \<Rightarrow> nat \<Rightarrow> u128 list \<times> nat \<Rightarrow> (u128 list \<times> nat) option" where
  "client_block raw vector_u i full_ind st = (case st of (partials1, raw_ind) \<Rightarrow> do {
     partials1 \<leftarrow> foldM (client_cell raw vector_u i full_ind raw_ind) [0..<8] partials1;
     Some (partials1, raw_ind + 7) })"

definition client_row :: "bytes \<Rightarrow> nat \<Rightarrow> u64 list \<Rightarrow> nat \<Rightarrow> u128 list \<Rightarrow> u128 list option" where
  "client_row file_extended rows vector_u i partials1 = do {
     raw \<leftarrow> raw_row file_extended (BYTES_UNDER_P * rows) i;
     (partials1, _) \<leftarrow> foldM (client_block raw vector_u i) (step_by rows 8) (partials1, 0);
     Some partials1 }"

definition client_from_file :: "bytes \<Rightarrow> client_config option" where
  "client_from_file file = do {
     (rows, cols) \<leftarrow> dims (length file);
     vector_u \<leftarrow> rand_vector cols 2020;
     let file_extended = extend_file (BYTES_UNDER_P * rows) file;
     partials1 \<leftarrow> foldM (client_row file_extended rows vector_u) [0..<cols] (replicate rows 0);
     Some \<lparr>cc_rows = rows, cc_cols = cols, secret_m_vector = vector_u,
           secret_n_vector = map reduce partials1\<rparr> }"

definition make_challenge_vector :: "client_config \<Rightarrow> u64 list option" where
  "make_challenge_vector cc = rand_vector (cc_rows cc) 20"

section \<open>The server's response\<close>

definition server_from_file :: "bytes \<Rightarrow> server_config option" where
  "server_from_file file = do {
     (rows, cols) \<leftarrow> dims (length file);
     Some \<lparr>sc_rows = rows, sc_cols = cols, sc_file = file\<rparr> }"

definition server_cell :: "u64 list \<Rightarrow> u64 list \<Rightarrow> nat \<Rightarrow> nat \<Rightarrow> nat \<Rightarrow> nat \<Rightarrow> u128 list \<Rightarrow> u128 list option" where
  "server_cell raw challenge i full_ind raw_ind k dot_prods1 = do {
     d \<leftarrow> data_val raw raw_ind k;
     c \<leftarrow> index challenge (full_ind + k);
     acc \<leftarrow> index dot_prods1 i;
     acc' \<leftarrow> mul_add acc d c;
     Some (dot_prods1[i := acc']) }"

definition server_block :: "u64 list \<Rightarrow> u64 list \<Rightarrow> nat \<Rightarrow> nat \<Rightarrow> u128 list \<times> nat \<Rightarrow> (u128 list \<times> nat) option" where
  "server_block raw challenge i full_ind st = (case st of (dot_prods1, raw_ind) \<Rightarrow> do {
     dot_prods1 \<leftarrow> foldM (server_cell raw challenge i full_ind raw_ind) [0..<8] dot_prods1;
     Some (dot_prods1, raw_ind + 7) })"

definition server_row :: "bytes \<Rightarrow> nat \<Rightarrow> u64 list \<Rightarrow> nat \<Rightarrow> u128 list \<Rightarrow> u128 list option" where
  "server_row file_extended rows challenge i dot_prods1 = do {
     raw \<leftarrow> raw_row file_extended (BYTES_UNDER_P * rows) i;
     (dot_prods1, _) \<leftarrow> foldM (server_block raw challenge i) (step_by rows 8) (dot_prods1, 0);
     Some dot_prods1 }"

definition fulfill_challenge :: "server_config \<Rightarrow> u64 list \<Rightarrow> u64 list option" where
  "fulfill_challenge sc challenge = do {
     let file_extended = extend_file (BYTES_UNDER_P * sc_rows sc) (sc_file sc);
     dot_prods1 \<leftarrow> foldM (server_row file_extended (sc_rows sc) challenge) [0..<sc_cols sc]
                    (replicate (sc_cols sc) 0);
     Some (map reduce dot_prods1) }"

section \<open>The audit\<close>

definition audit_step :: "u64 list \<Rightarrow> u64 list \<Rightarrow> nat \<Rightarrow> u128 \<Rightarrow> u128 option" where
  "audit_step xs ys i acc = do {
     x \<leftarrow> index xs i;
     y \<leftarrow> index ys i;
     acc \<leftarrow> mul_add acc x y;
     Some (if ucast P57 < acc then acc mod ucast P57 else acc) }"

definition audit :: "client_config \<Rightarrow> u64 list \<Rightarrow> u64 list \<Rightarrow> bool option" where
  "audit cc challenge response =
     (if length response \<noteq> cc_cols cc then Some False
      else if length challenge \<noteq> cc_rows cc then Some False
      else do {
        rxr1 \<leftarrow> foldM (audit_step response (secret_m_vector cc)) [0..<cc_cols cc] 0;
        sxc1 \<leftarrow> foldM (audit_step challenge (secret_n_vector cc)) [0..<cc_rows cc] 0;
        Some (rxr1 = sxc1) })"

text \<open>
  A whole round, as the tests of the source run it: the client's configuration is derived from the
  original file, the server's from the file it stores.
\<close>

definition run_audit :: "bytes \<Rightarrow> bytes \<Rightarrow> bool option" where
  "run_audit original stored = do {
     cc \<leftarrow> client_from_file original;
     sc \<leftarrow> server_from_file stored;
     challenge \<leftarrow> make_challenge_vector cc;
     response \<leftarrow> fulfill_challenge sc challenge;
     audit cc challenge response }"

section \<open>Reference definitions\<close>

abbreviation (input) p57 :: nat where "p57 \<equiv> 144115188075855859"

text \<open>The number in the \<open>j\<close>-th group of seven bytes; the file is padded with zeros.\<close>

definition chunk :: "bytes \<Rightarrow> nat \<Rightarrow> nat" where
  "chunk file j = le_nat (take 7 (drop (7 * j) file))"

definition secret_spec :: "bytes \<Rightarrow> nat \<Rightarrow> u64 list \<Rightarrow> nat \<Rightarrow> nat" where
  "secret_spec file rows u j = (\<Sum>i<length u. chunk file (rows * i + j) * unat (u ! i)) mod p57"

definition response_spec :: "bytes \<Rightarrow> nat \<Rightarrow> u64 list \<Rightarrow> nat \<Rightarrow> nat" where
  "response_spec file rows c i = (\<Sum>j<rows. chunk file (rows * i + j) * unat (c ! j)) mod p57"

text \<open>The value an audit loop accumulates: it reduces only values above \<open>P57\<close>.\<close>

primrec audit_acc :: "(nat \<Rightarrow> nat) \<Rightarrow> nat \<Rightarrow> nat" where
  "audit_acc f 0 = 0"
| "audit_acc f (Suc n) =
     (let s = audit_acc f n + f n in if p57 < s then s mod p57 else s)"


section \<open>Unpacking: seven words are eight chunks\<close>

lemma nat_or_disjoint:
  assumes "x < (2::nat) ^ n"
  shows "x OR (y * 2 ^ n) = x + y * 2 ^ n"
proof -
  have x: "take_bit n x = x" using assms by (simp add: take_bit_nat_eq_self_iff)
  have "x + push_bit n y = x OR push_bit n y"
  proof (rule disjunctive_add)
    show "\<not> bit x m \<or> \<not> bit (push_bit n y) m" for m
      using x bit_take_bit_iff [of n x m] by (auto simp: bit_simps)
  qed
  then show ?thesis by (simp add: push_bit_eq_mult)
qed

lemma unat_and_chunk_mask: "unat (x AND chunk_mask) = unat x mod 256 ^ 7"
proof -
  have "chunk_mask = mask 56" by (simp add: chunk_mask_def BYTES_UNDER_P_def mask_eq_exp_minus_1)
  then have "x AND chunk_mask = take_bit 56 x" by (simp only: take_bit_eq_mask)
  then have "unat (x AND chunk_mask) = take_bit 56 (unat x)" by (simp only: unsigned_take_bit_eq)
  then show ?thesis by (simp add: take_bit_eq_mod)
qed

lemma unat_drop_bytes: "unat (drop_bit (8 * n) (x :: u64)) = unat x div 256 ^ n"
  by (subst unat_drop_bit_eq) (simp add: drop_bit_eq_div power_mult)

lemma unat_push_bytes: "unat (push_bit (8 * n) (x :: u64)) = unat x * 256 ^ n mod 256 ^ 8"
  by (subst unsigned_push_bit_eq) (simp add: push_bit_eq_mult power_mult take_bit_eq_mod)

text \<open>The bytes \<open>8 i\<close> to \<open>8 i + 7\<close> as a word, and the chunk across a word boundary.\<close>

lemma le_nat_slice: "le_nat (take n (drop k bs)) = le_nat bs div 256 ^ k mod 256 ^ n"
  by (simp add: le_nat_take le_nat_drop)

lemma split_digits:
  fixes q :: nat
  assumes "k \<le> n"
  shows "q mod 256 ^ k + (q div 256 ^ k mod 256 ^ (n - k)) * 256 ^ k = q mod 256 ^ n"
proof -
  have "(256::nat) ^ n = 256 ^ k * 256 ^ (n - k)" using assms by (simp flip: power_add)
  then show ?thesis using mod_mult2_eq [of q "256 ^ k" "256 ^ (n - k)"] by (simp add: mult.commute)
qed

lemma mod_mult_shift:
  fixes b :: nat
  assumes "k \<le> 7"
  shows "b * 256 ^ k mod 256 ^ 8 mod 256 ^ 7 = (b mod 256 ^ (7 - k)) * 256 ^ k"
proof -
  have "(256::nat) ^ 7 dvd 256 ^ 8" by (rule le_imp_power_dvd) simp
  then have "b * 256 ^ k mod 256 ^ 8 mod 256 ^ 7 = b * 256 ^ k mod 256 ^ 7" by (rule mod_mod_cancel)
  also have "\<dots> = b * 256 ^ k mod (256 ^ (7 - k) * 256 ^ k)" using assms by (simp flip: power_add)
  also have "\<dots> = (b mod 256 ^ (7 - k)) * 256 ^ k" by (rule mult_mod_left [symmetric])
  finally show ?thesis .
qed

lemma mod_div_mod: "q mod (x * y) div x = q div x mod (y :: nat)"
  by (cases "x = 0") (simp_all add: mod_mult2_eq)

lemma data_val_middle:
  fixes a b :: u64
  assumes "1 \<le> k" "k < 7" "unat a = q mod 256 ^ 8" "unat b = q div 256 ^ 8 mod 256 ^ 8"
  shows "unat (drop_bit (64 - k * 8) a OR (push_bit (k * 8) b AND chunk_mask))
       = q div 256 ^ (8 - k) mod 256 ^ 7"
proof -
  define Q where "Q = q div 256 ^ (8 - k)"
  have s: "64 - k * 8 = 8 * (8 - k)" "(256::nat) ^ 8 = 256 ^ (8 - k) * 256 ^ k"
    using assms(2) by (simp_all flip: power_add)
  have lo: "unat (drop_bit (64 - k * 8) a) = Q mod 256 ^ k"
    unfolding s(1) unat_drop_bytes assms(3) Q_def s(2) by (rule mod_div_mod)
  have "(256::nat) ^ (7 - k) dvd 256 ^ 8" by (rule le_imp_power_dvd) simp
  then have "unat b mod 256 ^ (7 - k) = q div 256 ^ 8 mod 256 ^ (7 - k)"
    unfolding assms(4) by (rule mod_mod_cancel)
  also have "q div 256 ^ 8 = Q div 256 ^ k"
    unfolding Q_def s(2) by (rule div_mult2_eq)
  finally have hi: "unat (push_bit (k * 8) b AND chunk_mask)
       = (Q div 256 ^ k mod 256 ^ (7 - k)) * 256 ^ k"
    using mod_mult_shift [of k "unat b"] assms(2)
    by (simp only: unat_and_chunk_mask mult.commute [of k 8] unat_push_bytes less_imp_le)
  have "unat (drop_bit (64 - k * 8) a OR (push_bit (k * 8) b AND chunk_mask))
       = (Q mod 256 ^ k) OR (Q div 256 ^ k mod 256 ^ (7 - k)) * 256 ^ k"
    by (simp only: unsigned_or_eq lo hi)
  also have "\<dots> = Q mod 256 ^ k + (Q div 256 ^ k mod 256 ^ (7 - k)) * 256 ^ k"
    using nat_or_disjoint [of "Q mod 256 ^ k" "8 * k"] by (simp add: power_mult)
  also have "\<dots> = Q mod 256 ^ 7" using assms(2) by (intro split_digits) simp
  finally show ?thesis by (simp add: Q_def)
qed

lemma data_val_chunk:
  assumes "raw = map from_le_bytes (chunks_exact 8 row)" "length row = 56 * n" "b < n" "k < 8"
  shows "\<exists>w. data_val raw (7 * b) k = Some w \<and> unat w = chunk row (8 * b + k)"
proof -
  define q where "q = le_nat row"
  have len: "length raw = 7 * n" using assms(1,2) by (simp add: length_chunks_exact)
  have word: "unat (raw ! (7 * b + m)) = q div 256 ^ (56 * b + 8 * m) mod 256 ^ 8" if "m < 7" for m
  proof -
    have "7 * b + m < length row div 8" using assms(2,3) that by simp
    then have "raw ! (7 * b + m) = from_le_bytes (take 8 (drop (8 * (7 * b + m)) row))"
      using assms(1) by (simp add: nth_chunks_exact length_chunks_exact)
    then show ?thesis by (simp add: unat_from_le_bytes le_nat_slice q_def algebra_simps)
  qed
  have chunk: "chunk row (8 * b + k) = q div 256 ^ (56 * b + 7 * k) mod 256 ^ 7"
    by (simp only: chunk_def le_nat_slice q_def) (simp add: algebra_simps)
  consider "k = 0" | "1 \<le> k" "k < 7" | "k = 7" using assms(4) by linarith
  then show ?thesis
  proof cases
    case 1
    have "(256::nat) ^ 7 dvd 256 ^ 8" by (rule le_imp_power_dvd) simp
    then show ?thesis
      using 1 word [of 0] assms(3) len chunk
      by (simp only: data_val_def) (simp add: unat_and_chunk_mask mod_mod_cancel)
  next
    case 2
    define Q where "Q = q div 256 ^ (56 * b + 8 * (k - 1))"
    have e: "7 * b + k - 1 = 7 * b + (k - 1)" "56 * b + 8 * k = 56 * b + 8 * (k - 1) + 8"
      "56 * b + 7 * k = 56 * b + 8 * (k - 1) + (8 - k)"
      using 2 by simp_all
    have "unat (raw ! (7 * b + k - 1)) = Q mod 256 ^ 8"
      "unat (raw ! (7 * b + k)) = Q div 256 ^ 8 mod 256 ^ 8"
      using word [of "k - 1"] word [of k] 2 unfolding e(1,2) Q_def by (simp_all only: power_add div_mult2_eq)
    from data_val_middle [OF 2 this] chunk
    have "unat (drop_bit (64 - k * 8) (raw ! (7 * b + k - 1)) OR
        (push_bit (k * 8) (raw ! (7 * b + k)) AND chunk_mask)) = chunk row (8 * b + k)"
      unfolding e(3) Q_def by (simp only: power_add div_mult2_eq)
    moreover have "7 * b + k - 1 < length raw" "7 * b + k < length raw" using assms(3) len 2 by simp_all
    ultimately show ?thesis using 2 by (auto simp: data_val_def)
  next
    case 3
    have "unat (drop_bit (8 * 1) (raw ! (7 * b + 6))) = q div 256 ^ (56 * b + 48) mod 256 ^ 8 div 256 ^ 1"
      unfolding unat_drop_bytes using word [of 6] by simp
    also have "\<dots> = q div 256 ^ (56 * b + 48) mod (256 ^ 1 * 256 ^ 7) div 256 ^ 1"
      by (simp flip: power_add)
    also have "\<dots> = q div 256 ^ (56 * b + 48) div 256 ^ 1 mod 256 ^ 7" by (rule mod_div_mod)
    also have "\<dots> = q div 256 ^ (56 * b + 48 + 1) mod 256 ^ 7" by (simp only: power_add div_mult2_eq)
    finally have "unat (drop_bit 8 (raw ! (7 * b + 6))) = chunk row (8 * b + k)"
      using chunk 3 by (simp add: add.commute)
    moreover have "7 * b + 6 < length raw" using assms(3) len by simp
    ultimately show ?thesis using 3 by (auto simp: data_val_def)
  qed
qed

lemma chunk_row:
  assumes "j < r" "r * i + j < r * (i + 1)"
  shows "chunk (take (7 * r) (drop (7 * r * i) (extend_file m file))) j = chunk file (r * i + j)"
proof -
  have "take 7 (drop (7 * j) (take (7 * r) (drop (7 * r * i) (extend_file m file))))
      = take 7 (drop (7 * (r * i + j)) (extend_file m file))"
    using assms(1) by (simp add: drop_take algebra_simps min_def)
  then show ?thesis by (simp only: chunk_def extend_file_def le_nat_slice_zeros)
qed

lemma raw_row_chunks:
  assumes "r = 8 * n" "7 * r * i \<le> length file"
  obtains raw where "raw_row (extend_file (7 * r) file) (7 * r) i = Some raw"
    and "\<And>b k. b < n \<Longrightarrow> k < 8 \<Longrightarrow>
           \<exists>w. data_val raw (7 * b) k = Some w \<and> unat w = chunk file (r * i + (8 * b + k))"
proof -
  define row where "row = take (7 * r) (drop (7 * r * i) (extend_file (7 * r) file))"
  define raw where "raw = map from_le_bytes (chunks_exact 8 row)"
  have len: "length row = 56 * n" using assms by (simp add: row_def extend_file_def)
  have "raw_row (extend_file (7 * r) file) (7 * r) i = Some raw"
    using assms(2) by (simp add: raw_row_def slice_def extend_file_def raw_def row_def algebra_simps)
  moreover have "\<exists>w. data_val raw (7 * b) k = Some w \<and> unat w = chunk file (r * i + (8 * b + k))"
    if "b < n" "k < 8" for b k
    using data_val_chunk [OF raw_def len that] chunk_row [of "8 * b + k" r i "7 * r" "file"] that assms(1)
    by (simp add: row_def)
  ultimately show thesis by (rule that)
qed

section \<open>The loops\<close>

lemma mul_add_ok:
  assumes "unat acc + unat d * unat v < 2 ^ 128"
  shows "\<exists>a. mul_add acc d v = Some a \<and> unat a = unat acc + unat d * unat v"
proof -
  have "unat (ucast d :: u128) * unat (ucast v :: u128) < 2 ^ LENGTH(128)" using assms by simp
  note m = checked_mul_ok [OF this]
  have "unat acc + unat (ucast d * ucast v :: u128) < 2 ^ LENGTH(128)" using assms m(2) by simp
  from checked_add_ok [OF this] m show ?thesis by (simp add: mul_add_def)
qed

lemma block_loop:
  assumes blk: "\<And>full_ind st raw_ind. blk full_ind (st, raw_ind) =
      do { st \<leftarrow> foldM (cell full_ind raw_ind) [0..<8] st; Some (st, raw_ind + 7) }"
    and init: "I 0 st"
    and step: "\<And>b k st. b < n \<Longrightarrow> k < 8 \<Longrightarrow> I (8 * b + k) st \<Longrightarrow>
        \<exists>st'. cell (8 * b) (7 * b) k st = Some st' \<and> I (8 * b + Suc k) st'"
  shows "\<exists>st'. foldM blk (step_by (8 * n) 8) (st, 0) = Some (st', 7 * n) \<and> I (8 * n) st'"
proof -
  have "\<exists>s'. foldM (\<lambda>b. blk (b * 8)) [0..<n] (st, 0) = Some s' \<and> I (8 * n) (fst s') \<and> snd s' = 7 * n"
  proof (rule foldM_upt_rule [where I = "\<lambda>b s. I (8 * b) (fst s) \<and> snd s = 7 * b"])
    fix b s assume b: "b < n" "I (8 * b) (fst s) \<and> snd s = 7 * b"
    have "\<exists>st'. foldM (cell (8 * b) (7 * b)) [0..<8] (fst s) = Some st' \<and> I (8 * b + 8) st'"
      using b step by (intro foldM_upt_rule [where I = "\<lambda>k st. I (8 * b + k) st"]) auto
    with b(2) show "\<exists>s'. blk (b * 8) s = Some s' \<and> I (8 * Suc b) (fst s') \<and> snd s' = 7 * Suc b"
      by (cases s) (auto simp: blk mult.commute [of b] add.commute)
  qed (use init in auto)
  then show ?thesis by (auto simp: step_by_mult foldM_map)
qed

lemma sum_le_partial: "(m :: nat) \<le> n \<Longrightarrow> (\<Sum>j<m. f j) \<le> (\<Sum>j<n. (f j :: nat))"
  by (rule sum_mono2) auto

lemma server_row_ok:
  fixes bs :: bytes and r :: nat and ch :: "u64 list"
  defines "f \<equiv> \<lambda>i j. chunk bs (r * i + j) * unat (ch ! j)"
  assumes "r = 8 * n" "7 * r * i \<le> length bs" "length ch = r" "i < length dots" "dots ! i = 0"
    and bound: "(\<Sum>j<r. f i j) < 2 ^ 128"
  shows "\<exists>a. server_row (extend_file (7 * r) bs) r ch i dots = Some (dots[i := a])
           \<and> unat a = (\<Sum>j<r. f i j)"
proof -
  obtain raw where raw: "raw_row (extend_file (7 * r) bs) (7 * r) i = Some raw"
    and dv: "\<And>b k. b < n \<Longrightarrow> k < 8 \<Longrightarrow>
           \<exists>w. data_val raw (7 * b) k = Some w \<and> unat w = chunk bs (r * i + (8 * b + k))"
    using raw_row_chunks [OF assms(2,3)] by blast
  let ?I = "\<lambda>m ds. \<exists>a. ds = dots[i := a] \<and> unat a = (\<Sum>j<m. f i j)"
  have "\<exists>st'. foldM (server_block raw ch i) (step_by (8 * n) 8) (dots, 0) = Some (st', 7 * n) \<and> ?I (8 * n) st'"
  proof (rule block_loop [where cell = "server_cell raw ch i" and I = ?I])
    show "?I 0 dots" using assms(6) list_update_id [of dots i] by (intro exI [of _ 0]) simp
  next
    fix b k ds assume bk: "b < n" "k < 8" and I: "?I (8 * b + k) ds"
    then obtain a where a: "ds = dots[i := a]" "unat a = (\<Sum>j<8 * b + k. f i j)" by blast
    obtain w where w: "data_val raw (7 * b) k = Some w" "unat w = chunk bs (r * i + (8 * b + k))"
      using dv [OF bk] by blast
    have m: "8 * b + Suc k \<le> r" using bk assms(2) by simp
    have s: "unat a + unat w * unat (ch ! (8 * b + k)) = (\<Sum>j<8 * b + Suc k. f i j)"
      using a(2) w(2) by (simp add: f_def)
    also have "\<dots> < 2 ^ 128" using sum_le_partial [OF m, of "f i"] bound by linarith
    finally obtain a' where "mul_add a w (ch ! (8 * b + k)) = Some a'"
      "unat a' = (\<Sum>j<8 * b + Suc k. f i j)" using mul_add_ok s by metis
    then show "\<exists>st'. server_cell raw ch i (8 * b) (7 * b) k ds = Some st' \<and> ?I (8 * b + Suc k) st'"
      using a(1) w(1) m assms(4,5) by (auto simp: server_cell_def)
  qed (simp add: server_block_def)
  then show ?thesis
    using raw by (auto simp: server_row_def BYTES_UNDER_P_def assms(2))
qed

lemma client_row_ok:
  fixes bs :: bytes and r :: nat and u :: "u64 list" and ps :: "u128 list"
  defines "f \<equiv> \<lambda>i j. chunk bs (r * i + j) * unat (u ! i)"
  assumes "r = 8 * n" "7 * r * i \<le> length bs" "i < length u" "length ps = r"
    and ps: "\<And>j. j < r \<Longrightarrow> unat (ps ! j) = (\<Sum>i'<i. f i' j)"
    and bound: "\<And>j. j < r \<Longrightarrow> (\<Sum>i'<Suc i. f i' j) < 2 ^ 128"
  shows "\<exists>ps'. client_row (extend_file (7 * r) bs) r u i ps = Some ps' \<and> length ps' = r
           \<and> (\<forall>j<r. unat (ps' ! j) = (\<Sum>i'<Suc i. f i' j))"
proof -
  obtain raw where raw: "raw_row (extend_file (7 * r) bs) (7 * r) i = Some raw"
    and dv: "\<And>b k. b < n \<Longrightarrow> k < 8 \<Longrightarrow>
           \<exists>w. data_val raw (7 * b) k = Some w \<and> unat w = chunk bs (r * i + (8 * b + k))"
    using raw_row_chunks [OF assms(2,3)] by blast
  let ?I = "\<lambda>m (qs :: u128 list). length qs = r \<and> (\<forall>j<r. unat (qs ! j) = (\<Sum>i'<(if j < m then Suc i else i). f i' j))"
  have "\<exists>st'. foldM (client_block raw u i) (step_by (8 * n) 8) (ps, 0) = Some (st', 7 * n) \<and> ?I (8 * n) st'"
  proof (rule block_loop [where cell = "client_cell raw u i" and I = ?I])
    show "?I 0 ps" using assms(5) ps by simp
  next
    fix b k qs assume bk: "b < n" "k < 8" and I: "?I (8 * b + k) qs"
    obtain w where w: "data_val raw (7 * b) k = Some w" "unat w = chunk bs (r * i + (8 * b + k))"
      using dv [OF bk] by blast
    have m: "8 * b + k < r" using bk assms(2) by simp
    then have s: "unat (qs ! (8 * b + k)) + unat w * unat (u ! i) = (\<Sum>i'<Suc i. f i' (8 * b + k))"
      using I w(2) by (simp add: f_def)
    also have "\<dots> < 2 ^ 128" using bound m by simp
    finally obtain a where "mul_add (qs ! (8 * b + k)) w (u ! i) = Some a"
      "unat a = (\<Sum>i'<Suc i. f i' (8 * b + k))" using mul_add_ok s by metis
    then show "\<exists>st'. client_cell raw u i (8 * b) (7 * b) k qs = Some st' \<and> ?I (8 * b + Suc k) st'"
      using w(1) m assms(4) I by (auto simp: client_cell_def nth_list_update less_Suc_eq)
  qed (simp add: client_block_def)
  then show ?thesis
    using raw by (auto simp: client_row_def BYTES_UNDER_P_def assms(2))
qed

section \<open>The loops compute the matrix products\<close>

lemma unat_reduce: "unat (reduce x) = unat x mod p57"
proof -
  have P: "unat (ucast P57 :: u128) = p57" by (simp add: P57_def)
  have "unat (x mod ucast P57) = unat x mod p57" by (simp only: unat_mod_distrib P)
  moreover have "unat x mod p57 < 2 ^ 64" by (rule less_trans [of _ p57]) simp_all
  ultimately show ?thesis
    by (simp add: reduce_def unsigned_ucast_eq take_bit_nat_eq_self_iff)
qed

lemma fulfill_challenge_ok:
  fixes bs :: bytes and r :: nat and ch :: "u64 list"
  defines "f \<equiv> \<lambda>i j. chunk bs (r * i + j) * unat (ch ! j)"
  assumes "r = 8 * n" "7 * r * (m - 1) \<le> length bs" "length ch = r"
    and bound: "\<And>i. i < m \<Longrightarrow> (\<Sum>j<r. f i j) < 2 ^ 128"
  shows "\<exists>resp. fulfill_challenge \<lparr>sc_rows = r, sc_cols = m, sc_file = bs\<rparr> ch = Some resp
           \<and> map unat resp = map (response_spec bs r ch) [0..<m]"
proof -
  let ?I = "\<lambda>k (ds :: u128 list). length ds = m \<and> (\<forall>i<m. unat (ds ! i) = (if i < k then \<Sum>j<r. f i j else 0))"
  have "\<exists>ds. foldM (server_row (extend_file (7 * r) bs) r ch) [0..<m] (replicate m 0) = Some ds \<and> ?I m ds"
  proof (rule foldM_upt_rule [where I = ?I])
    fix k ds assume k: "k < m" and I: "?I k ds"
    from k have "7 * r * k \<le> 7 * r * (m - 1)" by (intro mult_le_mono2) simp
    then have "7 * r * k \<le> length bs" using assms(3) by (rule le_trans)
    moreover from I k have "unat (ds ! k) = 0" by simp
    then have "ds ! k = 0" by (simp only: unat_eq_zero)
    ultimately show "\<exists>ds'. server_row (extend_file (7 * r) bs) r ch k ds = Some ds' \<and> ?I (Suc k) ds'"
      using server_row_ok [OF assms(2) _ assms(4), of k bs ds] bound [OF k] I k
      by (auto simp: f_def nth_list_update less_Suc_eq)
  qed simp
  then obtain ds where "foldM (server_row (extend_file (7 * r) bs) r ch) [0..<m] (replicate m 0) = Some ds"
    and "?I m ds" by blast
  then show ?thesis
    by (auto simp: fulfill_challenge_def BYTES_UNDER_P_def unat_reduce response_spec_def f_def
        intro!: nth_equalityI)
qed

lemma client_loop_ok:
  fixes bs :: bytes and r :: nat and u :: "u64 list"
  defines "f \<equiv> \<lambda>i j. chunk bs (r * i + j) * unat (u ! i)"
  assumes "r = 8 * n" "7 * r * (length u - 1) \<le> length bs"
    and bound: "\<And>j. j < r \<Longrightarrow> (\<Sum>i<length u. f i j) < 2 ^ 128"
  shows "\<exists>ps. foldM (client_row (extend_file (7 * r) bs) r u) [0..<length u] (replicate r 0) = Some ps
           \<and> map (unat \<circ> reduce) ps = map (secret_spec bs r u) [0..<r]"
proof -
  let ?I = "\<lambda>k (ps :: u128 list). length ps = r \<and> (\<forall>j<r. unat (ps ! j) = (\<Sum>i<k. f i j))"
  have "\<exists>ps. foldM (client_row (extend_file (7 * r) bs) r u) [0..<length u] (replicate r 0) = Some ps
          \<and> ?I (length u) ps"
  proof (rule foldM_upt_rule [where I = ?I])
    fix k ps assume k: "k < length u" and I: "?I k ps"
    from k have "7 * r * k \<le> 7 * r * (length u - 1)" by (intro mult_le_mono2) simp
    then have "7 * r * k \<le> length bs" using assms(3) by (rule le_trans)
    moreover have "(\<Sum>i<Suc k. f i j) < 2 ^ 128" if "j < r" for j
      using sum_le_partial [of "Suc k" "length u" "\<lambda>i. f i j"] bound [OF that] k by linarith
    ultimately show "\<exists>ps'. client_row (extend_file (7 * r) bs) r u k ps = Some ps' \<and> ?I (Suc k) ps'"
      using client_row_ok [OF assms(2) _ k, of bs ps] I by (simp add: f_def)
  qed simp
  then obtain ps where "foldM (client_row (extend_file (7 * r) bs) r u) [0..<length u] (replicate r 0) = Some ps"
    and "?I (length u) ps" by blast
  then show ?thesis
    by (auto simp: unat_reduce secret_spec_def f_def intro!: nth_equalityI)
qed

section \<open>The layout\<close>

lemma dims_ok:
  assumes "0 < len" "len \<le> 2 ^ 30"
  obtains r m n where "dims len = Some (r, m)" and "r = 8 * n" and "0 < r" and "0 < m"
    and "7 * r * (m - 1) \<le> len" and "len \<le> 7 * r * m" and "r < 2 ^ 15" and "m < 2 ^ 15"
proof -
  define N where "N = 1 + (len - 1) div 7"
  have N: "0 < N" "N \<le> 2 ^ 28" "N \<le> 2 ^ 50" using assms by (simp_all add: N_def)
  define r where "r = grid_rows N"
  define m where "m = 1 + (N - 1) div r"
  note g = grid_rows_bounds [OF N(1,3), folded r_def]
  from g(2) obtain n where n: "r = 56 * n" by blast
  have d: "dims len = Some (r, m)"
    using assms(1) g(1) by (simp add: dims_def checked_sub_def checked_div_def BYTES_UNDER_P_def
        Let_def r_def m_def N_def)
  have le: "r * (m - 1) \<le> N - 1" by (simp add: m_def)
  have ge: "N - 1 < r * m" using g(1) by (simp add: m_def dividend_less_times_div)
  have "(r - 56) * (r - 56) < 2 ^ 14 * 2 ^ 14" using g(4) N(2) by simp
  then have "r - 56 < 2 ^ 14" by (meson mult_le_mono not_less)
  then have r: "r < 2 ^ 15" by simp
  have "m - 1 < r"
  proof (rule ccontr)
    assume "\<not> m - 1 < r"
    then have "r * r \<le> r * (m - 1)" by simp
    with g(3) le N(1) show False by linarith
  qed
  with r have m: "m < 2 ^ 15" by simp
  show thesis
  proof (rule that [OF d])
    show "r = 8 * (7 * n)" using n by simp
    have "7 * (r * (m - 1)) \<le> 7 * (N - 1)" using le by simp
    also have "\<dots> \<le> len" by (simp add: N_def)
    finally show "7 * r * (m - 1) \<le> len" by (simp add: mult.assoc)
    have "len \<le> 7 * N" using assms(1) by (simp add: N_def)
    also have "\<dots> \<le> 7 * (r * m)" using ge by simp
    finally show "len \<le> 7 * r * m" by (simp add: mult.assoc)
  qed (use g(1) r m in \<open>simp_all add: m_def\<close>)
qed

lemma chunk_less: "chunk bs j < 2 ^ 56"
proof -
  have "le_nat (take 7 (drop (7 * j) bs)) < 256 ^ length (take 7 (drop (7 * j) bs))" by (rule le_nat_less)
  also have "\<dots> \<le> 256 ^ 7" by (rule power_increasing) simp_all
  finally show ?thesis by (simp add: chunk_def)
qed

lemma sum_products_bound:
  fixes a b :: "nat \<Rightarrow> nat"
  assumes "\<And>i. i < n \<Longrightarrow> a i < 2 ^ 56" "\<And>i. i < n \<Longrightarrow> b i < 2 ^ 57" "n < 2 ^ 15"
  shows "(\<Sum>i<n. a i * b i) < 2 ^ 128"
proof -
  have "(\<Sum>i<n. a i * b i) \<le> (\<Sum>i<n. 2 ^ 56 * 2 ^ 57)"
    using assms(1,2) by (intro sum_mono mult_le_mono) (auto simp: less_imp_le)
  also have "\<dots> = n * 2 ^ 113" by simp
  also have "\<dots> < 2 ^ 128" using assms(3) by simp
  finally show ?thesis .
qed

section \<open>The audit\<close>

lemma reduced_above: "(if p < s then s mod p else s) mod p = s mod (p :: nat)"
  "0 < p \<Longrightarrow> (if p < s then s mod p else s) \<le> p"
  by (simp_all add: less_imp_le)

lemma audit_acc_le: "audit_acc f n \<le> p57"
  by (induction n) (simp_all only: audit_acc.simps Let_def reduced_above(2) zero_less_numeral zero_le)

lemma audit_acc_mod: "audit_acc f n mod p57 = (\<Sum>i<n. f i) mod p57"
proof (induction n)
  case (Suc n)
  have "audit_acc f (Suc n) mod p57 = (audit_acc f n + f n) mod p57"
    by (simp only: audit_acc.simps Let_def reduced_above(1))
  also have "\<dots> = (audit_acc f n mod p57 + f n) mod p57" by (rule mod_add_left_eq [symmetric])
  also have "\<dots> = ((\<Sum>i<n. f i) mod p57 + f n) mod p57" by (simp only: Suc)
  also have "\<dots> = ((\<Sum>i<n. f i) + f n) mod p57" by (rule mod_add_left_eq)
  finally show ?case by (simp only: sum.lessThan_Suc)
qed simp

lemma audit_acc_cong:
  "m = n \<Longrightarrow> (\<And>i. i < n \<Longrightarrow> f i = g i) \<Longrightarrow> audit_acc f m = audit_acc g n"
  by (induction n arbitrary: m) (simp_all add: Let_def)

text \<open>Equal remainders: the accumulators agree, or one is 0 and the other \<open>P57\<close>.\<close>

lemma audit_acc_eq_cases:
  assumes "audit_acc f n mod p57 = audit_acc g m mod p57"
  shows "audit_acc f n = audit_acc g m \<or> {audit_acc f n, audit_acc g m} = {0, p57}"
proof -
  have "x mod p57 = (if x = p57 then 0 else x)" if "x \<le> p57" for x :: nat using that by auto
  from this [OF audit_acc_le] this [OF audit_acc_le] assms show ?thesis
    by (auto split: if_splits)
qed

lemma audit_loop_ok:
  fixes xs ys :: "u64 list"
  assumes "n \<le> length xs" "n \<le> length ys"
  shows "\<exists>a. foldM (audit_step xs ys) [0..<n] 0 = Some a
           \<and> unat a = audit_acc (\<lambda>i. unat (xs ! i) * unat (ys ! i)) n"
proof (rule foldM_upt_rule [where I = "\<lambda>k a. unat a = audit_acc (\<lambda>i. unat (xs ! i) * unat (ys ! i)) k"])
  fix k and a :: u128
  let ?f = "\<lambda>i. unat (xs ! i) * unat (ys ! i)"
  assume k: "k < n" and a: "unat a = audit_acc ?f k"
  have P: "unat (ucast P57 :: u128) = p57" by (simp add: P57_def)
  have w: "unat x \<le> 2 ^ 64 - 1" for x :: u64 using unsigned_less [of x, where ?'a = nat] by simp
  have "?f k \<le> (2 ^ 64 - 1) * (2 ^ 64 - 1)" by (intro mult_le_mono w)
  then have "unat a + unat (xs ! k) * unat (ys ! k) < 2 ^ 128" using a audit_acc_le [of ?f k] by simp
  from mul_add_ok [OF this] obtain b where b: "mul_add a (xs ! k) (ys ! k) = Some b"
    "unat b = audit_acc ?f k + ?f k" using a by auto
  then show "\<exists>a'. audit_step xs ys k a = Some a' \<and> unat a' = audit_acc ?f (Suc k)"
    using k assms P by (auto simp: audit_step_def Let_def word_less_nat_alt unat_mod_distrib)
qed simp

lemma audit_ok:
  assumes "length response = cc_cols cc" "length challenge = cc_rows cc"
    and "cc_cols cc \<le> length (secret_m_vector cc)" "cc_rows cc \<le> length (secret_n_vector cc)"
  shows "audit cc challenge response = Some
    (audit_acc (\<lambda>i. unat (response ! i) * unat (secret_m_vector cc ! i)) (cc_cols cc) =
     audit_acc (\<lambda>j. unat (challenge ! j) * unat (secret_n_vector cc ! j)) (cc_rows cc))"
proof -
  obtain a where "foldM (audit_step response (secret_m_vector cc)) [0..<cc_cols cc] 0 = Some a"
    "unat a = audit_acc (\<lambda>i. unat (response ! i) * unat (secret_m_vector cc ! i)) (cc_cols cc)"
    using audit_loop_ok [of "cc_cols cc" response "secret_m_vector cc"] assms by auto
  moreover obtain b where "foldM (audit_step challenge (secret_n_vector cc)) [0..<cc_rows cc] 0 = Some b"
    "unat b = audit_acc (\<lambda>j. unat (challenge ! j) * unat (secret_n_vector cc ! j)) (cc_rows cc)"
    using audit_loop_ok [of "cc_rows cc" challenge "secret_n_vector cc"] assms by auto
  ultimately show ?thesis using assms(1,2)
    by (simp add: audit_def word_unat_eq_iff)
qed

section \<open>Both sides of the audit are the same double sum\<close>

lemma double_sum:
  "(\<Sum>i<m. response_spec bs r c i * unat (u ! i)) mod p57
 = (\<Sum>j<r. unat (c ! j) * secret_spec bs r u j) mod p57" if "length u = m"
proof -
  let ?D = "\<lambda>i j. chunk bs (r * i + j)"
  have "(\<Sum>i<m. response_spec bs r c i * unat (u ! i)) mod p57
      = (\<Sum>i<m. (\<Sum>j<r. ?D i j * unat (c ! j)) * unat (u ! i)) mod p57"
    unfolding response_spec_def
    by (subst (1 2) mod_sum_eq [symmetric]) (simp add: mod_mult_left_eq)
  also have "(\<Sum>i<m. (\<Sum>j<r. ?D i j * unat (c ! j)) * unat (u ! i))
      = (\<Sum>i<m. \<Sum>j<r. unat (c ! j) * (?D i j * unat (u ! i)))"
    by (simp add: sum_distrib_right sum_distrib_left mult_ac)
  also have "\<dots> = (\<Sum>j<r. unat (c ! j) * (\<Sum>i<m. ?D i j * unat (u ! i)))"
    by (subst sum.swap) (simp add: sum_distrib_left)
  also have "\<dots> mod p57 = (\<Sum>j<r. unat (c ! j) * secret_spec bs r u j) mod p57"
    unfolding secret_spec_def that
    by (subst (1 2) mod_sum_eq [symmetric]) (simp add: mod_mult_right_eq)
  finally show ?thesis .
qed

end
