(* ===== verification/Rand_Total.thy ===== *)
theory Rand_Total
  imports Por_Random
begin

text \<open>
  The rejection loop of the generator ends. Its state without the bit that the next step drops is permuted by the step, so that
  every run comes back to the state it started from; once one of its samples is accepted, a sample is accepted after every
  later state as well. The locale states this for an injective step on a finite set, its interpretation is the generator.
\<close>

section \<open>Injective steps on a finite set\<close>

locale permuted =
  fixes step :: "'s \<Rightarrow> 's" and S :: "'s set"
  assumes finite_S: "finite S" and closed: "x \<in> S \<Longrightarrow> step x \<in> S" and inj: "inj_on step S"
begin

lemma iterate_closed: "x \<in> S \<Longrightarrow> (step ^^ n) x \<in> S"
  by (induction n) (simp_all add: closed)

lemma iterate_cancel:
  "x \<in> S \<Longrightarrow> y \<in> S \<Longrightarrow> (step ^^ n) x = (step ^^ n) y \<Longrightarrow> x = y"
  by (induction n) (auto dest: inj_onD [OF inj] intro: iterate_closed)

lemma returns:
  assumes "x \<in> S"
  shows "\<exists>p>0. (step ^^ p) x = x"
proof -
  have "\<not> inj_on (\<lambda>n. (step ^^ n) x) UNIV"
    using assms finite_S iterate_closed finite_subset [of "range (\<lambda>n. (step ^^ n) x)" S]
    by (auto dest: finite_imageD)
  then obtain i j where ij: "i < j" "(step ^^ i) x = (step ^^ j) x" by (auto simp: inj_on_def) (metis nat_neq_iff)
  then have "(step ^^ i) x = (step ^^ i) ((step ^^ (j - i)) x)" by (metis comp_apply funpow_add le_add_diff_inverse less_imp_le)
  from iterate_cancel [OF assms iterate_closed [OF assms] this] ij(1) show ?thesis
    by (intro exI [of _ "j - i"]) simp
qed

lemma returns_later:
  assumes "x \<in> S"
  shows "\<exists>k. (step ^^ k) ((step ^^ m) x) = x"
proof -
  obtain p where p: "0 < p" "(step ^^ p) x = x" using returns [OF assms] by blast
  have "(step ^^ (p * q)) x = x" for q by (induction q) (simp_all add: p(2) funpow_add)
  moreover have "m \<le> p * m" using p(1) by simp
  ultimately have "(step ^^ (p * m - m + m)) x = x" by simp
  then show ?thesis by (intro exI [of _ "p * m - m"]) (simp add: funpow_add)
qed

end

section \<open>The step of the generator\<close>

lemma xor_shl_inj:
  assumes "0 < n" "x XOR push_bit n x = y XOR push_bit n (y :: u64)"
  shows "x = y"
proof (rule bit_word_eqI)
  fix i assume "i < LENGTH(64)"
  have e: "(bit x i \<noteq> (n \<le> i \<and> bit x (i - n))) = (bit y i \<noteq> (n \<le> i \<and> bit y (i - n)))" if "i < 64" for i
    using arg_cong [OF assms(2), of "\<lambda>w. bit w i"] that by (simp add: bit_xor_iff bit_push_bit_iff)
  have "i < 64 \<Longrightarrow> bit x i = bit y i"
  proof (induction i rule: less_induct)
    case (less i)
    then show ?case using e [of i] assms(1) by (cases "n \<le> i") auto
  qed
  with \<open>i < LENGTH(64)\<close> show "bit x i = bit y i" by simp
qed

lemma xor_shr_inj:
  assumes "0 < n" "x XOR drop_bit n x = y XOR drop_bit n (y :: u64)"
  shows "x = y"
proof (rule bit_word_eqI)
  fix i assume "i < LENGTH(64)"
  have e: "(bit x i \<noteq> bit x (n + i)) = (bit y i \<noteq> bit y (n + i))" for i
    using arg_cong [OF assms(2), of "\<lambda>w. bit w i"] by (simp add: bit_xor_iff bit_drop_bit_eq)
  have "bit x i = bit y i"
  proof (induction "64 - i" arbitrary: i rule: less_induct)
    case less
    show ?case
    proof (cases "i < 64")
      case True
      then have "bit x (n + i) = bit y (n + i)" using assms(1) by (intro less) simp
      then show ?thesis using e [of i] by blast
    next
      case False
      then show ?thesis using bit_imp_le_length [of x i] bit_imp_le_length [of y i] by auto
    qed
  qed
  then show "bit x i = bit y i" .
qed

definition xorshift :: "u64 \<Rightarrow> u64" where
  "xorshift x = (let x = x XOR push_bit 12 x; x = x XOR drop_bit 32 x; x = x XOR push_bit 32 x in x XOR push_bit 11 x)"

lemma xorshift_inj: "xorshift x = xorshift y \<Longrightarrow> x = y"
  unfolding xorshift_def Let_def
  by (drule xor_shl_inj [rotated], simp, drule xor_shl_inj [rotated], simp, drule xor_shr_inj [rotated], simp, erule xor_shl_inj [rotated], simp)

text \<open>The state a step depends on, when the matrices are zero as in \<^verbatim>\<open>rand_vector\<close>.\<close>

definition core :: "random \<Rightarrow> u64 \<times> u64" where
  "core r = (status0 r AND TINYMT_MASK, status1 r)"

definition cores :: "(u64 \<times> u64) set" where
  "cores = {(a, b). a AND TINYMT_MASK = a}"

definition core_step :: "u64 \<times> u64 \<Rightarrow> u64 \<times> u64" where
  "core_step s = (case s of (a, b) \<Rightarrow> (b AND TINYMT_MASK, xorshift (a XOR b)))"

lemma mask_bit: "bit TINYMT_MASK i \<longleftrightarrow> i < 63"
proof -
  have m: "TINYMT_MASK = mask 63" by (simp add: TINYMT_MASK_def mask_eq_exp_minus_1)
  show ?thesis unfolding m by (subst bit_mask_iff) auto
qed

lemma core_step_inj: "inj_on core_step cores"
proof (rule inj_onI, clarsimp simp: cores_def core_step_def)
  fix a b a' b' :: u64
  assume m: "a AND TINYMT_MASK = a" "a' AND TINYMT_MASK = a'"
    and b: "b AND TINYMT_MASK = b' AND TINYMT_MASK" and x: "xorshift (a XOR b) = xorshift (a' XOR b')"
  from x have x: "a XOR b = a' XOR b'" by (rule xorshift_inj)
  have ia: "bit a i \<Longrightarrow> i < 63" "bit a' i \<Longrightarrow> i < 63" for i
    using arg_cong [OF m(1), of "\<lambda>w. bit w i"] arg_cong [OF m(2), of "\<lambda>w. bit w i"] by (auto simp: bit_and_iff mask_bit)
  have ib: "i < 63 \<Longrightarrow> bit b i = bit b' i" for i
    using arg_cong [OF b, of "\<lambda>w. bit w i"] by (auto simp: bit_and_iff mask_bit)
  have ix: "(bit a i \<noteq> bit b i) = (bit a' i \<noteq> bit b' i)" for i
    using arg_cong [OF x, of "\<lambda>w. bit w i"] by (simp add: bit_xor_iff)
  have "bit a i = bit a' i" "bit b i = bit b' i" for i using ia [of i] ib [of i] ix [of i] by auto
  then show "a = a' \<and> b = b'" by (auto intro: bit_eqI)
qed

interpretation generator: permuted core_step cores
proof unfold_locales
  show "finite cores" by (rule finite_subset [OF subset_UNIV]) simp
  show "core_step s \<in> cores" if "s \<in> cores" for s by (cases s) (simp add: cores_def core_step_def and.assoc)
  show "inj_on core_step cores" by (rule core_step_inj)
qed

section \<open>The rejection loop ends\<close>

definition plain :: "random \<Rightarrow> bool" where
  "plain r \<longleftrightarrow> mat1 r = 0 \<and> mat2 r = 0 \<and> tmat r = 0"

definition core_next :: "u64 \<times> u64 \<Rightarrow> random" where
  "core_next s = (case s of (a, b) \<Rightarrow> zero_random\<lparr>status0 := b, status1 := xorshift (a XOR b)\<rparr>)"

definition accepts :: "u64 \<times> u64 \<Rightarrow> bool" where
  "accepts s \<longleftrightarrow> temper (core_next s) AND (push_bit P_BITS 1 - 1) < P57"

lemma core_in_cores: "core r \<in> cores"
  by (simp add: core_def cores_def and.assoc)

lemma core_next_simps: "plain (core_next s)" "core (core_next s) = core_step s"
  by (cases s; simp add: core_next_def plain_def zero_random_def core_def core_step_def)+

lemma next_state_plain: "plain r \<Longrightarrow> next_state r = core_next (core r)"
  by (cases r) (simp add: next_state_def core_next_def core_def xorshift_def plain_def zero_random_def Let_def)

lemma rand_mod_p_plain:
  assumes "plain r"
  shows "rand_mod_p r = (if accepts (core r)
     then Some (temper (core_next (core r)) AND (push_bit P_BITS 1 - 1), core_next (core r))
     else rand_mod_p (core_next (core r)))"
  by (subst rand_mod_p.simps) (simp add: generate_uint64_def next_state_plain [OF assms] accepts_def Let_def)

lemma rand_mod_p_first:
  assumes "plain r" "accepts (core r)"
  shows "\<exists>v r' j. rand_mod_p r = Some (v, r') \<and> plain r' \<and> core r' = (core_step ^^ j) (core r)"
proof -
  have "core (core_next (core r)) = (core_step ^^ 1) (core r)" by (simp add: core_next_simps)
  with rand_mod_p_plain [OF assms(1)] assms(2) core_next_simps(1) show ?thesis by metis
qed

lemma rand_mod_p_ends:
  assumes "plain r" "accepts ((core_step ^^ k) (core r))"
  shows "\<exists>v r' j. rand_mod_p r = Some (v, r') \<and> plain r' \<and> core r' = (core_step ^^ j) (core r)"
  using assms
proof (induction k arbitrary: r)
  case 0
  then show ?case by (intro rand_mod_p_first) simp_all
next
  case (Suc k)
  show ?case
  proof (cases "accepts (core r)")
    case True
    with Suc.prems(1) show ?thesis by (rule rand_mod_p_first)
  next
    case False
    have "accepts ((core_step ^^ k) (core (core_next (core r))))"
      using Suc.prems(2) by (simp add: core_next_simps funpow_swap1)
    from Suc.IH [OF core_next_simps(1) this] obtain v r' j where
      "rand_mod_p (core_next (core r)) = Some (v, r')" "plain r'" "core r' = (core_step ^^ Suc j) (core r)"
      by (auto simp: core_next_simps funpow_swap1)
    with False rand_mod_p_plain [OF Suc.prems(1)] show ?thesis by (metis (full_types))
  qed
qed

lemma rand_mod_p_accepts:
  assumes "rand_mod_p r = Some x" "plain r"
  shows "\<exists>k. accepts ((core_step ^^ k) (core r))"
proof -
  let ?P = "\<lambda>r (_ :: u64 \<times> random). plain r \<longrightarrow> (\<exists>k. accepts ((core_step ^^ k) (core r)))"
  have "?P r x"
  proof (rule rand_mod_p.raw_induct [of ?P, OF _ assms(1)])
    fix f :: "random \<Rightarrow> (u64 \<times> random) option" and r x
    assume IH: "\<And>r x. f r = Some x \<Longrightarrow> ?P r x" and f: "(let (x, r') = generate_uint64 r; val = x AND (push_bit P_BITS 1 - 1) in
        if val < P57 then Some (val, r') else f r') = Some x"
    show "?P r x"
    proof (cases "accepts (core r)")
      case True
      then show ?thesis by (metis funpow_0)
    next
      case False
      with f have "plain r \<Longrightarrow> f (core_next (core r)) = Some x"
        by (simp add: generate_uint64_def next_state_plain accepts_def Let_def)
      with IH core_next_simps have "plain r \<Longrightarrow> \<exists>k. accepts ((core_step ^^ k) (core_step (core r)))" by metis
      then show ?thesis by (metis funpow_simps_right(2) comp_apply)
    qed
  qed
  with assms(2) show ?thesis by simp
qed

lemma rand_fill_ends:
  assumes "accepts s" "s \<in> cores" "plain r" "core r = (core_step ^^ m) s"
  shows "\<exists>vs. rand_fill n r = Some vs"
  using assms(3,4)
proof (induction n arbitrary: r m)
  case (Suc n)
  obtain k where "(core_step ^^ k) (core r) = s" using generator.returns_later [OF assms(2)] Suc.prems(2) by metis
  with rand_mod_p_ends [OF Suc.prems(1), of k] assms(1) obtain v r' j where
    v: "rand_mod_p r = Some (v, r')" "plain r'" "core r' = (core_step ^^ j) (core r)" by auto
  from Suc.IH [OF v(2), of "j + m"] v(3) Suc.prems(2) obtain vs where "rand_fill n r' = Some vs" by (auto simp: funpow_add)
  with v(1) show ?case by simp
qed simp

lemma init_plain: "plain r \<Longrightarrow> plain (init seed r)"
proof -
  have "plain (fold init_round is r)" if "plain r" for "is" r
    using that by (induction "is" arbitrary: r) (auto simp: init_round_def set_status_def plain_def Let_def)
  then show "plain r \<Longrightarrow> plain (init seed r)"
    by (simp add: init_def period_certification_def plain_def Let_def)
qed

text \<open>A seed that gives one sample gives vectors of every length.\<close>

lemma rand_vector_extends:
  assumes "rand_vector 1 seed = Some v"
  shows "\<exists>vs. rand_vector n seed = Some vs"
proof -
  have p: "plain (init seed zero_random)" by (rule init_plain) (simp add: plain_def zero_random_def)
  from assms obtain x where "rand_mod_p (init seed zero_random) = Some x" by (auto simp: rand_vector_def split: bind_splits)
  from rand_mod_p_accepts [OF this p] obtain k where k: "accepts ((core_step ^^ k) (core (init seed zero_random)))" by blast
  define s where "s = (core_step ^^ k) (core (init seed zero_random))"
  have s: "s \<in> cores" unfolding s_def by (intro generator.iterate_closed core_in_cores)
  obtain m where "(core_step ^^ m) s = core (init seed zero_random)"
    using generator.returns_later [OF core_in_cores [of "init seed zero_random"], of k] by (auto simp: s_def)
  from rand_fill_ends [OF k [folded s_def] s p this [symmetric]] show ?thesis by (simp add: rand_vector_def)
qed

lemma rand_vector_total: "\<exists>u. rand_vector n 2020 = Some u" "\<exists>c. rand_vector n 20 = Some c"
  using rand_vector_extends rand_vector_small [of 1] by simp_all

text \<open>
  C15: The random vectors are always produced: for both seeds of the program, the one of the secrets and the one of the
  challenges, and every length, the rejection loop ends for every entry.
\<close>

theorem rand_vector_returns:
  "(\<exists>u. rand_vector n 2020 = Some u) \<and> (\<exists>c. rand_vector n 20 = Some c)"
  using rand_vector_total by blast

end
