(* ===== verification/Por_Audit.thy ===== *)
theory Por_Audit
  imports Por Rand_Total
begin

text \<open>
  The correctness of the proof of retrievability: what a complete round of client configuration,
  challenge, response and audit computes, that it does not panic, when an honest keeper is accepted,
  that a keeper whose file differs in one chunk is rejected, and how the round fails on inputs
  outside its domain.
\<close>

section \<open>A complete round\<close>

lemma sum_products_2_128:
  fixes v :: "u64 list"
  assumes "rand_vector n s = Some v" "n < 2 ^ 15"
  shows "(\<Sum>i<n. chunk bs (g i) * unat (v ! i)) < 2 ^ 128"
proof (rule sum_products_bound [OF chunk_less _ assms(2)])
  fix i assume "i < n"
  with rand_vector_range [OF assms(1) this] show "unat (v ! i) < 2 ^ 57" by simp
qed

lemma client_from_file_ok:
  assumes "0 < length bs" "length bs \<le> 2 ^ 30" "dims (length bs) = Some (r, m)"
    and "rand_vector m 2020 = Some u"
  shows "\<exists>cc. client_from_file bs = Some cc \<and> cc_rows cc = r \<and> cc_cols cc = m
           \<and> secret_m_vector cc = u \<and> map unat (secret_n_vector cc) = map (secret_spec bs r u) [0..<r]"
proof -
  obtain n where d: "r = 8 * n" "7 * r * (m - 1) \<le> length bs" "m < 2 ^ 15"
    using dims_ok [OF assms(1,2)] assms(3) by (metis option.inject prod.inject)
  have l: "length u = m" using assms(4) by (rule rand_vector_length)
  have "\<exists>ps. foldM (client_row (extend_file (7 * r) bs) r u) [0..<length u] (replicate r 0) = Some ps
           \<and> map (unat \<circ> reduce) ps = map (secret_spec bs r u) [0..<r]"
  proof (rule client_loop_ok [OF d(1)])
    show "(\<Sum>i<length u. chunk bs (r * i + j) * unat (u ! i)) < 2 ^ 128" for j
      unfolding l by (rule sum_products_2_128 [OF assms(4) d(3)])
  qed (use d l in simp)
  then show ?thesis using assms(3,4) l
    by (auto simp: client_from_file_def BYTES_UNDER_P_def)
qed

lemma fulfill_challenge_from_file:
  assumes "0 < length bs" "length bs \<le> 2 ^ 30" "dims (length bs) = Some (r, m)"
    and "rand_vector r 20 = Some c"
  shows "\<exists>sc resp. server_from_file bs = Some sc \<and> fulfill_challenge sc c = Some resp
           \<and> map unat resp = map (response_spec bs r c) [0..<m]"
proof -
  obtain n where d: "r = 8 * n" "7 * r * (m - 1) \<le> length bs" "r < 2 ^ 15"
    using dims_ok [OF assms(1,2)] assms(3) by (metis option.inject prod.inject)
  have "\<exists>resp. fulfill_challenge \<lparr>sc_rows = r, sc_cols = m, sc_file = bs\<rparr> c = Some resp
           \<and> map unat resp = map (response_spec bs r c) [0..<m]"
    by (rule fulfill_challenge_ok [OF d(1,2) rand_vector_length [OF assms(4)]])
       (rule sum_products_2_128 [OF assms(4) d(3)])
  then show ?thesis using assms(3) by (auto simp: server_from_file_def)
qed

text \<open>The two accumulators of an audit of the keeper's file against the client's.\<close>

definition keeper_acc :: "bytes \<Rightarrow> nat \<Rightarrow> u64 list \<Rightarrow> u64 list \<Rightarrow> nat" where
  "keeper_acc bs r u c = audit_acc (\<lambda>i. response_spec bs r c i * unat (u ! i)) (length u)"

definition client_acc :: "bytes \<Rightarrow> nat \<Rightarrow> u64 list \<Rightarrow> u64 list \<Rightarrow> nat" where
  "client_acc bs r u c = audit_acc (\<lambda>j. unat (c ! j) * secret_spec bs r u j) r"

definition bilinear :: "bytes \<Rightarrow> nat \<Rightarrow> u64 list \<Rightarrow> u64 list \<Rightarrow> nat" where
  "bilinear bs r u c = (\<Sum>i<length u. \<Sum>j<r. chunk bs (r * i + j) * unat (c ! j) * unat (u ! i))"

lemma keeper_acc_mod: "keeper_acc bs r u c mod p57 = bilinear bs r u c mod p57"
proof -
  have "keeper_acc bs r u c mod p57 = (\<Sum>i<length u. response_spec bs r c i * unat (u ! i)) mod p57"
    unfolding keeper_acc_def by (rule audit_acc_mod)
  also have "\<dots> = (\<Sum>i<length u. (\<Sum>j<r. chunk bs (r * i + j) * unat (c ! j)) * unat (u ! i)) mod p57"
    unfolding response_spec_def by (subst (1 2) mod_sum_eq [symmetric]) (simp only: mod_mult_left_eq)
  finally show ?thesis by (simp only: bilinear_def sum_distrib_right)
qed

lemma client_acc_mod: "client_acc bs r u c mod p57 = bilinear bs r u c mod p57"
proof -
  have "client_acc bs r u c mod p57 = (\<Sum>j<r. unat (c ! j) * secret_spec bs r u j) mod p57"
    unfolding client_acc_def by (rule audit_acc_mod)
  also have "\<dots> = (\<Sum>i<length u. response_spec bs r c i * unat (u ! i)) mod p57"
    by (rule double_sum [OF refl, symmetric])
  also have "\<dots> = keeper_acc bs r u c mod p57"
    unfolding keeper_acc_def by (rule audit_acc_mod [symmetric])
  finally show ?thesis by (simp only: keeper_acc_mod)
qed

lemma run_audit_value:
  assumes "0 < length bs" "length bs \<le> 2 ^ 30" "dims (length bs) = Some (r, m)"
    and "0 < length bs'" "length bs' \<le> 2 ^ 30" "dims (length bs') = Some (r, m)"
    and u: "rand_vector m 2020 = Some u" and c: "rand_vector r 20 = Some c"
  shows "run_audit bs bs' = Some (keeper_acc bs' r u c = client_acc bs r u c)"
proof -
  obtain cc where cc: "client_from_file bs = Some cc" "cc_rows cc = r" "cc_cols cc = m"
    "secret_m_vector cc = u" "map unat (secret_n_vector cc) = map (secret_spec bs r u) [0..<r]"
    using client_from_file_ok [OF assms(1-3) u] by blast
  obtain sc resp where sc: "server_from_file bs' = Some sc" "fulfill_challenge sc c = Some resp"
    "map unat resp = map (response_spec bs' r c) [0..<m]"
    using fulfill_challenge_from_file [OF assms(4-6) c] by blast
  have l: "length u = m" "length c = r" "length resp = m" "length (secret_n_vector cc) = r"
    using rand_vector_length [OF u] rand_vector_length [OF c] arg_cong [OF sc(3), of length]
      arg_cong [OF cc(5), of length] by simp_all
  have R: "unat (resp ! i) = response_spec bs' r c i" if "i < m" for i
    using arg_cong [OF sc(3), of "\<lambda>xs. xs ! i"] that l by simp
  have S: "unat (secret_n_vector cc ! j) = secret_spec bs r u j" if "j < r" for j
    using arg_cong [OF cc(5), of "\<lambda>xs. xs ! j"] that l by simp
  have "audit cc c resp = Some (keeper_acc bs' r u c = client_acc bs r u c)"
    using audit_ok [of resp cc c] cc l R S
    by (simp add: keeper_acc_def client_acc_def cong: audit_acc_cong)
  then show ?thesis using cc sc c by (simp add: run_audit_def make_challenge_vector_def)
qed

section \<open>Small files\<close>

text \<open>
  Up to 21952 bytes the grid has 56 rows and at most 56 columns, so the vectors are prefixes of the
  56 samples computed in \<open>Por_Random\<close>.
\<close>

lemma dims_small:
  assumes "0 < len" "len \<le> 21952"
  shows "dims len = Some (56, 1 + (len - 1) div 392)" and "1 + (len - 1) div 392 \<le> 56"
proof -
  define N where "N = 1 + (len - 1) div 7"
  have N: "0 < N" "N \<le> 3136" using assms(2) by (simp_all add: N_def)
  obtain c where c: "grid_rows N = 56 * c" "sqrt_ceil56 N c" using grid_rows_exact [of N] N by auto
  have "c - 1 = 0" using c(2) N(2) by (cases "c - 1") (auto simp: sqrt_ceil56_def)
  then have "c = 1" using c(2) by (simp add: sqrt_ceil56_def)
  then show "dims len = Some (56, 1 + (len - 1) div 392)" using assms c(1)
    by (simp add: dims_def checked_sub_def checked_div_def BYTES_UNDER_P_def Let_def N_def flip: div_mult2_eq)
  show "1 + (len - 1) div 392 \<le> 56" using assms by simp
qed

primrec prod_mod :: "int \<Rightarrow> int \<Rightarrow> int list \<Rightarrow> int" where
  "prod_mod p acc [] = acc"
| "prod_mod p acc (x # xs) = prod_mod p (acc * x mod p) xs"

lemma coprime_prod_mod:
  "coprime (prod_mod p acc xs) p \<Longrightarrow> p \<noteq> 0 \<Longrightarrow> coprime acc p \<and> (\<forall>x \<in> set xs. coprime x p)"
proof (induction xs arbitrary: acc)
  case (Cons x xs)
  from Cons.IH [of "acc * x mod p"] Cons.prems
  have "coprime (acc * x mod p) p" "\<forall>x \<in> set xs. coprime x p" by auto
  with Cons.prems(2) show ?case by auto
qed simp

lemma coprime_of_inverse:
  assumes "prod_mod p y xs = 1" "p \<noteq> 0" "x \<in> set xs"
  shows "coprime x p"
  using coprime_prod_mod [of p y xs] assms by simp

lemma samples_inverse:
  "prod_mod 144115188075855859 43869560697184289 samples_2020 = 1"
  "prod_mod 144115188075855859 139431250351626851 samples_20 = 1"
  by code_simp+

lemma samples_range:
  "\<forall>x \<in> set samples_2020. 0 \<le> x \<and> x < 18446744073709551616"
  "\<forall>x \<in> set samples_20. 0 \<le> x \<and> x < 18446744073709551616"
  by (simp_all add: samples_2020_def samples_20_def)

text \<open>What the two vectors of a small file are known to satisfy.\<close>

lemma coprime_sample:
  fixes vs :: "u64 list"
  assumes "prod_mod 144115188075855859 y xs = 1" "\<forall>x \<in> set xs. 0 \<le> x \<and> x < 18446744073709551616"
    and "vs = map word_of_int (take n xs)" "i < length vs"
  shows "coprime (int (unat (vs ! i))) 144115188075855859"
proof -
  define x where "x = xs ! i"
  have i: "i < length xs" "i < n" using assms(3,4) by simp_all
  then have "x \<in> set xs" by (simp add: x_def)
  have "int (unat (vs ! i)) = uint (word_of_int x :: u64)" using i assms(3) by (simp add: x_def)
  also have "\<dots> = x" using assms(2) \<open>x \<in> set xs\<close> by (simp add: uint_word_of_int)
  finally show ?thesis using coprime_of_inverse [OF assms(1) _ \<open>x \<in> set xs\<close>] by (simp only: zero_neq_numeral [symmetric] not_False_eq_True)
qed

lemma small_vectors:
  assumes "0 < len" "len \<le> 21952"
  obtains m u c where "dims len = Some (56, m)" and "rand_vector m 2020 = Some u"
    and "rand_vector 56 20 = Some c" and "length u = m" and "length c = 56"
    and "\<And>i. i < m \<Longrightarrow> coprime (int (unat (u ! i))) 144115188075855859"
    and "\<And>j. j < 56 \<Longrightarrow> coprime (int (unat (c ! j))) 144115188075855859"
proof -
  obtain m where m: "dims len = Some (56, m)" "m \<le> 56" using dims_small [OF assms] by blast
  define u :: "u64 list" where "u = map word_of_int (take m samples_2020)"
  define c :: "u64 list" where "c = map word_of_int (take 56 samples_20)"
  have u: "rand_vector m 2020 = Some u" using rand_vector_small(1) [OF m(2)] by (simp add: u_def)
  have c: "rand_vector 56 20 = Some c" using rand_vector_small(2) [of 56] by (simp add: c_def)
  note l = rand_vector_length [OF u] rand_vector_length [OF c]
  show thesis
    using coprime_sample [OF samples_inverse(1) samples_range(1) u_def] l
      coprime_sample [OF samples_inverse(2) samples_range(2) c_def]
    by (intro that [OF m(1) u c]) simp_all
qed

text \<open>A round with any two files of the same grid ends with a verdict.\<close>

lemma run_audit_returns:
  assumes "0 < length bs" "length bs \<le> 2 ^ 30" "0 < length bs'" "length bs' \<le> 2 ^ 30" "dims (length bs') = dims (length bs)"
  shows "\<exists>b. run_audit bs bs' = Some b"
proof -
  obtain r m where d: "dims (length bs) = Some (r, m)" using dims_ok [OF assms(1,2)] by blast
  obtain u c where "rand_vector m 2020 = Some u" "rand_vector r 20 = Some c" using rand_vector_total by blast
  from run_audit_value [OF assms(1,2) d assms(3,4) _ this] d assms(5) show ?thesis by auto
qed

section \<open>An honest keeper\<close>

lemma honest_cases:
  "keeper_acc bs r u c = client_acc bs r u c \<or> {keeper_acc bs r u c, client_acc bs r u c} = {0, p57}"
proof -
  have "keeper_acc bs r u c mod p57 = client_acc bs r u c mod p57"
    by (simp only: keeper_acc_mod client_acc_mod)
  then show ?thesis unfolding keeper_acc_def client_acc_def by (rule audit_acc_eq_cases)
qed

lemma honest_run_audit:
  assumes "0 < length bs" "length bs \<le> 2 ^ 30" "dims (length bs) = Some (r, m)"
    and "rand_vector m 2020 = Some u" "rand_vector r 20 = Some c"
  shows "\<exists>b. run_audit bs bs = Some b \<and> (bilinear bs r u c mod p57 \<noteq> 0 \<longrightarrow> b)"
proof -
  have "keeper_acc bs r u c = client_acc bs r u c" if "bilinear bs r u c mod p57 \<noteq> 0"
    using honest_cases [of bs r u c] that keeper_acc_mod [of bs r u c] client_acc_mod [of bs r u c]
    by (auto simp: doubleton_eq_iff)
  then show ?thesis using run_audit_value [OF assms(1-3) assms(1-5)] by blast
qed

text \<open>
  C1: An audit of an honest keeper always ends with a verdict, for every file of one byte up to one gigabyte: the grid and both random vectors are
  produced, no loop runs forever and nothing panics. It accepts unless the bilinear product of the file with the two
  vectors is divisible by \<open>P57\<close>.
\<close>

theorem honest_keeper_accepted:
  assumes "0 < length bs" "length bs \<le> 2 ^ 30"
  shows "\<exists>r m u c b. dims (length bs) = Some (r, m) \<and> rand_vector m 2020 = Some u \<and> rand_vector r 20 = Some c
    \<and> run_audit bs bs = Some b \<and> (bilinear bs r u c mod p57 \<noteq> 0 \<longrightarrow> b)"
proof -
  obtain r m where d: "dims (length bs) = Some (r, m)" using dims_ok [OF assms] by blast
  obtain u c where "rand_vector m 2020 = Some u" "rand_vector r 20 = Some c" using rand_vector_total by blast
  with honest_run_audit [OF assms d this] d show ?thesis by blast
qed

lemma bilinear_head:
  assumes "length bs \<le> 7" "0 < r" "length u = 1"
  shows "bilinear bs r u c = chunk bs 0 * unat (c ! 0) * unat (u ! 0)"
proof -
  have "(\<Sum>j<r. chunk bs j * unat (c ! j) * unat (u ! 0)) = (\<Sum>j<1. chunk bs j * unat (c ! j) * unat (u ! 0))"
    using assms by (intro sum.mono_neutral_right) (auto simp: chunk_def)
  then show ?thesis using assms(3) by (simp add: bilinear_def)
qed

lemma vectors_1:
  "rand_vector 1 2020 = Some (map word_of_int (take 1 samples_2020))"
  "rand_vector 56 20 = Some (map word_of_int (take 56 samples_20))"
  by (simp_all only: rand_vector_small [of 1] rand_vector_small [of 56])

theorem honest_keeper_accepted_witness: "run_audit [97, 98, 99] [97, 98, 99] = Some True"
proof -
  have "length ([97, 98, 99] :: bytes) \<le> 2 ^ 30" and d: "dims (length ([97, 98, 99] :: bytes)) = Some (56, 1)"
    using dims_small(1) [of "length ([97, 98, 99] :: bytes)"] by simp_all
  with honest_keeper_accepted [of "[97, 98, 99]"] vectors_1
  obtain b where b: "run_audit [97, 98, 99] [97, 98, 99] = Some b" and
    "bilinear [97, 98, 99] 56 (map word_of_int (take 1 samples_2020)) (map word_of_int (take 56 samples_20)) mod p57 \<noteq> 0 \<longrightarrow> b"
    by auto
  then have b by (subst (asm) bilinear_head) (simp_all add: chunk_def samples_2020_def samples_20_def)
  with b show ?thesis by simp
qed

section \<open>A keeper that lost part of the file\<close>

lemma bilinear_one_chunk:
  assumes "i0 < length u" "j0 < r" and same: "\<And>k. k \<noteq> r * i0 + j0 \<Longrightarrow> chunk bs' k = chunk bs k"
  shows "int (bilinear bs' r u c) - int (bilinear bs r u c) =
    (int (chunk bs' (r * i0 + j0)) - int (chunk bs (r * i0 + j0))) * (int (unat (c ! j0)) * int (unat (u ! i0)))"
    (is "_ = ?d")
proof -
  have idx: "r * i + j = r * i0 + j0 \<longleftrightarrow> i = i0 \<and> j = j0" if "j < r" for i j
    using that assms(2) by (metis div_mult_self4 div_less mod_mult_self4 mod_less add_cancel_left_left
        add.commute mult.commute bot_nat_0.extremum_strict)
  have "int (bilinear bs' r u c) - int (bilinear bs r u c) = (\<Sum>i<length u. \<Sum>j<r.
      (int (chunk bs' (r * i + j)) - int (chunk bs (r * i + j))) * (int (unat (c ! j)) * int (unat (u ! i))))"
    by (simp add: bilinear_def sum_subtractf algebra_simps)
  also have "\<dots> = (\<Sum>i<length u. \<Sum>j<r. if i = i0 then if j = j0 then ?d else 0 else 0)"
    by (intro sum.cong refl) (auto simp: same idx)
  also have "\<dots> = (\<Sum>i<length u. if i = i0 then ?d else 0)"
    using assms(2) by (intro sum.cong refl) simp
  also have "\<dots> = ?d" using assms(1) by simp
  finally show ?thesis .
qed

lemma chunk_outside: "length bs \<le> 7 * k \<Longrightarrow> chunk bs k = 0"
  by (simp add: chunk_def)

lemma one_chunk_changes_bilinear:
  assumes "i0 < length u" "j0 < r" and same: "\<And>k. k \<noteq> r * i0 + j0 \<Longrightarrow> chunk bs' k = chunk bs k"
    and diff: "chunk bs' (r * i0 + j0) \<noteq> chunk bs (r * i0 + j0)"
    and u: "coprime (int (unat (u ! i0))) (int p)" and c: "coprime (int (unat (c ! j0))) (int p)"
    and p: "2 ^ 56 \<le> p"
  shows "bilinear bs' r u c mod p \<noteq> bilinear bs r u c mod p"
proof
  let ?d = "int (chunk bs' (r * i0 + j0)) - int (chunk bs (r * i0 + j0))"
  assume "bilinear bs' r u c mod p = bilinear bs r u c mod p"
  then have "int p dvd int (bilinear bs' r u c) - int (bilinear bs r u c)"
    by (metis mod_eq_dvd_iff zmod_int)
  then have "int p dvd ?d * (int (unat (c ! j0)) * int (unat (u ! i0)))"
    using bilinear_one_chunk [OF assms(1,2), of bs' bs c] same by simp
  moreover have "coprime (int p) (int (unat (c ! j0)) * int (unat (u ! i0)))"
    using u c by (simp add: coprime_commute)
  ultimately have "int p dvd ?d" by (simp only: coprime_dvd_mult_left_iff)
  moreover have "\<bar>?d\<bar> < int p"
    using chunk_less [of bs "r * i0 + j0"] chunk_less [of bs' "r * i0 + j0"] p by linarith
  ultimately have "?d = 0" using dvd_imp_le_int [of ?d "int p"] by linarith
  with diff show False by simp
qed

lemma chunk_eq_iff:
  assumes "length bs' = length bs"
  shows "chunk bs' k = chunk bs k \<longleftrightarrow> (\<forall>n<length bs. n div 7 = k \<longrightarrow> bs' ! n = bs ! n)"
proof -
  have "chunk bs' k = chunk bs k \<longleftrightarrow> take 7 (drop (7 * k) bs') = take 7 (drop (7 * k) bs)"
    using assms by (auto simp: chunk_def intro: le_nat_inject)
  also have "\<dots> \<longleftrightarrow> (\<forall>i<7. 7 * k + i < length bs \<longrightarrow> bs' ! (7 * k + i) = bs ! (7 * k + i))"
    using assms by (auto simp: list_eq_iff_nth_eq)
  also have "\<dots> \<longleftrightarrow> (\<forall>n<length bs. n div 7 = k \<longrightarrow> bs' ! n = bs ! n)"
  proof (intro iffI allI impI)
    fix n assume *: "\<forall>i<7. 7 * k + i < length bs \<longrightarrow> bs' ! (7 * k + i) = bs ! (7 * k + i)"
      and "n < length bs" "n div 7 = k"
    moreover from this have "n mod 7 < 7" "7 * k + n mod 7 = n" by auto
    ultimately show "bs' ! n = bs ! n" by metis
  qed simp
  finally show ?thesis .
qed

text \<open>The chunk in column \<open>k div r\<close> and row \<open>k mod r\<close> of the grid: damage is detected when both entries of the vectors there are units.\<close>

lemma damaged_chunk_at:
  assumes len: "0 < length bs" "length bs \<le> 2 ^ 30" "dims (length bs) = Some (r, m)"
    and v: "rand_vector m 2020 = Some u" "rand_vector r 20 = Some c"
    and damage: "length bs' = length bs" "bs' \<noteq> bs" "\<forall>n<length bs. bs' ! n \<noteq> bs ! n \<longrightarrow> n div 7 = k"
    and units: "coprime (int (unat (u ! (k div r)))) (int p57)" "coprime (int (unat (c ! (k mod r)))) (int p57)"
  shows "run_audit bs bs' = Some False"
proof -
  have r: "0 < r" "length bs \<le> 7 * r * m" using dims_ok [OF len(1,2)] len(3) by (metis option.inject prod.inject)+
  have same: "chunk bs' j = chunk bs j" if "j \<noteq> k" for j
    using damage(3) that by (auto simp: chunk_eq_iff [OF damage(1)])
  obtain n where n: "n < length bs" "n div 7 = k" "bs' ! n \<noteq> bs ! n"
    using damage by (auto simp: list_eq_iff_nth_eq)
  then have diff: "chunk bs' k \<noteq> chunk bs k" by (auto simp: chunk_eq_iff [OF damage(1)])
  have "k < r * m" using n(1,2) r(2) by (auto simp: less_mult_imp_div_less mult.assoc mult.commute [of 7])
  then have k: "k div r < m" "k mod r < r" "r * (k div r) + k mod r = k"
    using r(1) by (simp_all add: less_mult_imp_div_less mult.commute)
  have "bilinear bs' r u c mod p57 \<noteq> bilinear bs r u c mod p57"
    by (rule one_chunk_changes_bilinear [of "k div r" _ "k mod r"])
       (use k same diff units rand_vector_length [OF v(1)] in simp_all)
  then have "keeper_acc bs' r u c \<noteq> client_acc bs r u c"
    using keeper_acc_mod [of bs' r u c] client_acc_mod [of bs r u c] by metis
  then show ?thesis using run_audit_value [OF len _ _ _ v, of bs'] len damage(1) by simp
qed

text \<open>
  C2: Damage inside one group of seven bytes is always detected: for files up to 21952 bytes, an
  audit of a keeper that stores a file of the same length, different from the original in bytes of
  one group only, fails.
\<close>

theorem damaged_chunk_rejected:
  assumes "0 < length bs" "length bs \<le> 21952" "length bs' = length bs" "bs' \<noteq> bs"
    and "\<forall>n<length bs. bs' ! n \<noteq> bs ! n \<longrightarrow> n div 7 = k"
  shows "run_audit bs bs' = Some False"
proof -
  obtain m u c where v: "dims (length bs) = Some (56, m)" "rand_vector m 2020 = Some u"
    "rand_vector 56 20 = Some c" "length u = m" "length c = 56"
    "\<And>i. i < m \<Longrightarrow> coprime (int (unat (u ! i))) 144115188075855859"
    "\<And>j. j < 56 \<Longrightarrow> coprime (int (unat (c ! j))) 144115188075855859"
    using small_vectors [OF assms(1,2)] by blast
  have len: "length bs \<le> 2 ^ 30" using assms(2) by simp
  obtain n where n: "n < length bs" "n div 7 = k" using assms(3-5) by (auto simp: list_eq_iff_nth_eq)
  have m: "m = 1 + (length bs - 1) div 392" using v(1) dims_small [OF assms(1,2)] by simp
  have "k div 56 \<le> (length bs - 1) div 392"
    using n div_le_mono [of n "length bs - 1" 392] by (simp flip: div_mult2_eq)
  with m have "k div 56 < m" by simp
  from damaged_chunk_at [OF assms(1) len v(1-3) assms(3-5)] v(6) [OF this] v(7) show ?thesis by simp
qed

theorem damaged_chunk_rejected_witness:
  "run_audit [97, 98, 99] [97, 98, 100] = Some False"
  by (rule damaged_chunk_rejected [where k = 0]) (auto simp: less_Suc_eq_0_disj)

section \<open>The boundary of the reduction\<close>

text \<open>Chunks that are zero from some position of the first row on.\<close>

lemma audit_acc_tail: "(\<And>i. n \<le> i \<Longrightarrow> f i = 0) \<Longrightarrow> n \<le> m \<Longrightarrow> audit_acc f m = audit_acc f n"
proof (induction m)
  case (Suc m)
  have "\<not> p57 < audit_acc f m" using audit_acc_le [of f m] by (simp only: not_less)
  then show ?case using Suc by (cases "n = Suc m") (simp_all add: Let_def)
qed simp

lemma response_spec_head:
  assumes "length bs \<le> 7 * n" "n \<le> r"
  shows "response_spec bs r c 0 = (\<Sum>j<n. chunk bs j * unat (c ! j)) mod p57"
proof -
  have "(\<Sum>j<r. chunk bs j * unat (c ! j)) = (\<Sum>j<n. chunk bs j * unat (c ! j))"
    using assms by (intro sum.mono_neutral_right) (auto simp: chunk_outside)
  then show ?thesis by (simp add: response_spec_def)
qed

lemma keeper_acc_head:
  assumes "length bs \<le> 7 * n" "n \<le> r" "length u = 1"
  shows "keeper_acc bs r u c = audit_acc (\<lambda>_. ((\<Sum>j<n. chunk bs j * unat (c ! j)) mod p57) * unat (u ! 0)) 1"
  using response_spec_head [OF assms(1,2)] assms(3) by (simp add: keeper_acc_def)

lemma client_acc_head:
  assumes "length bs \<le> 7 * n" "n \<le> r" "length u = 1"
  shows "client_acc bs r u c = audit_acc (\<lambda>j. unat (c ! j) * (chunk bs j * unat (u ! 0) mod p57)) n"
proof -
  have *: "secret_spec bs r u j = chunk bs j * unat (u ! 0) mod p57" for j
    using assms(3) by (simp add: secret_spec_def)
  have "chunk bs i = 0" if "n \<le> i" for i using assms(1) that by (simp add: chunk_outside)
  then have "audit_acc (\<lambda>j. unat (c ! j) * secret_spec bs r u j) r
           = audit_acc (\<lambda>j. unat (c ! j) * secret_spec bs r u j) n"
    by (intro audit_acc_tail assms(2)) (simp add: *)
  then show ?thesis by (simp add: client_acc_def *)
qed

definition rejected_file :: bytes where
  "rejected_file =
     [0, 0, 0, 0, 0, 0, 0, 0x25, 0xbe, 0xe1, 0x5b, 0x1c, 0x5c, 0x1b] @ replicate 35 0 @
     [0xd7, 0xbf, 0xcc, 0x95, 0xe4, 0xe2, 0xf1]"

lemma rejected_file_chunks:
  "length rejected_file = 56" "chunk rejected_file 0 = 0"
  "chunk rejected_file 1 = 7701101241548325" "chunk rejected_file 2 = 0" "chunk rejected_file 3 = 0"
  "chunk rejected_file 4 = 0" "chunk rejected_file 5 = 0" "chunk rejected_file 6 = 0"
  "chunk rejected_file 7 = 68084940780912599"
  by (simp_all add: rejected_file_def chunk_def)

lemma audit_acc_numeral:
  "audit_acc f (numeral k) = (let s = audit_acc f (pred_numeral k) + f (pred_numeral k)
     in if p57 < s then s mod p57 else s)"
  by (simp only: numeral_eq_Suc audit_acc.simps)

text \<open>
  C33: The audit reduces an accumulator only above \<open>P57\<close>, so it can stop at \<open>P57\<close> on one side and
  at 0 on the other: there is a file of 56 bytes whose honest keeper is rejected.
\<close>

theorem honest_keeper_rejected: "run_audit rejected_file rejected_file = Some False"
proof -
  note l = rejected_file_chunks(1)
  have d: "dims (length rejected_file) = Some (56, 1)" using dims_small(1) [of 56] by (simp add: l)
  define u :: "u64 list" where "u = map word_of_int (take 1 samples_2020)"
  define c :: "u64 list" where "c = map word_of_int (take 56 samples_20)"
  have u: "rand_vector 1 2020 = Some u" "length u = 1" "unat (u ! 0) = 57829946736570845"
    using rand_vector_small(1) [of 1] by (simp_all add: u_def samples_2020_def)
  have c: "rand_vector 56 20 = Some c" "unat (c ! 1) = 45123648461735385" "unat (c ! 7) = 30506379899125528"
    using rand_vector_small(2) [of 56] by (simp_all add: c_def samples_20_def)
  have "keeper_acc rejected_file 56 u c = 0"
    by (subst keeper_acc_head [where n = 8])
       (use u c in \<open>simp_all add: rejected_file_chunks [simplified] lessThan_nat_numeral lessThan_Suc Let_def\<close>)
  moreover have "client_acc rejected_file 56 u c = p57"
    by (subst client_acc_head [where n = 8])
       (use u c in \<open>simp_all add: rejected_file_chunks [simplified] audit_acc_numeral Let_def\<close>)
  ultimately show ?thesis using run_audit_value [OF _ _ d _ _ d u(1) c(1)] by (simp add: l)
qed

section \<open>Failures\<close>

text \<open>
  C27: The audit answers without panicking on every challenge and response of any length, and
  compares the two accumulators, unless a vector of the configuration is shorter than the declared
  dimensions: then, and only then, it indexes out of bounds.
\<close>

theorem audit_panics_iff:
  "audit cc challenge response = None \<longleftrightarrow>
     length response = cc_cols cc \<and> length challenge = cc_rows cc \<and>
     \<not> (cc_cols cc \<le> length (secret_m_vector cc) \<and> cc_rows cc \<le> length (secret_n_vector cc))"
proof (cases "length response = cc_cols cc \<and> length challenge = cc_rows cc")
  case True
  show ?thesis
  proof (cases "cc_cols cc \<le> length (secret_m_vector cc) \<and> cc_rows cc \<le> length (secret_n_vector cc)")
    case cfg: True
    with True audit_ok [of response cc challenge] show ?thesis by auto
  next
    case False
    have short: "foldM (audit_step xs ys) [0..<n] 0 = None" if "length ys < n" for xs ys n
    proof (cases "foldM (audit_step xs ys) [0..<n] 0")
      case (Some a)
      from foldM_Some_member [OF this, of "length ys"] that show ?thesis
        by (auto simp: audit_step_def split: bind_splits)
    qed simp
    with True False show ?thesis
      by (cases "cc_cols cc \<le> length (secret_m_vector cc)") (auto simp: audit_def split: bind_splits)
  qed
qed (auto simp: audit_def)

text \<open>
  A keeper panics on every challenge that is shorter than the rows of its own file, for example
  one made for a different file.
\<close>

lemma short_challenge_panics:
  assumes "server_from_file bs = Some sc" "length bs \<le> 2 ^ 30" "length challenge < sc_rows sc"
  shows "fulfill_challenge sc challenge = None"
proof -
  have "bs \<noteq> []" using assms(1) by (auto simp: server_from_file_def dims_def checked_sub_def split: if_splits)
  then have "0 < length bs" by simp
  from dims_ok [OF this assms(2)] obtain r m n where d: "dims (length bs) = Some (r, m)" "r = 8 * n" "0 < m"
    by metis
  then have sc: "sc = \<lparr>sc_rows = r, sc_cols = m, sc_file = bs\<rparr>"
    using assms(1) by (simp add: server_from_file_def)
  let ?l = "length challenge"
  have mem: "?l - ?l mod 8 \<in> set (step_by r 8)" "?l mod 8 \<in> set [0..<8]" "?l - ?l mod 8 + ?l mod 8 = ?l"
    using assms(3) d(2) sc by (auto simp: step_by_mult minus_mod_eq_mult_div image_iff intro!: bexI [of _ "?l div 8"])
  have row: "server_row ext r challenge 0 ds = None" for ext ds
  proof (cases "server_row ext r challenge 0 ds")
    case (Some ds')
    then obtain raw st st' where "foldM (server_block raw challenge 0) (step_by r 8) st = Some st'"
      by (auto simp: server_row_def split: bind_splits)
    from foldM_Some_member [OF this mem(1)] obtain raw_ind ds ds'
      where "foldM (server_cell raw challenge 0 (?l - ?l mod 8) raw_ind) [0..<8] ds = Some ds'"
      by (auto simp: server_block_def split: prod.splits bind_splits)
    from foldM_Some_member [OF this mem(2)] show ?thesis
      by (auto simp: server_cell_def mem(3) split: bind_splits)
  qed simp
  have "[0..<m] = 0 # [1..<m]" using d(3) by (simp add: upt_rec)
  then show ?thesis by (simp add: sc fulfill_challenge_def row)
qed

text \<open>
  An empty file panics on both sides: the number of chunks is computed from the length minus one.
\<close>

lemma empty_file_panics: "client_from_file [] = None \<and> server_from_file [] = None"
  by (simp add: client_from_file_def server_from_file_def dims_def checked_sub_def)

section \<open>What the audit does not see\<close>

lemma chunk_zero_tail: "chunk (bs @ replicate n 0) k = chunk bs k"
proof -
  have "le_nat (xs @ replicate n 0) = le_nat xs" for xs and n by (simp add: le_nat_append)
  then show ?thesis by (simp add: chunk_def drop_append take_append min_def)
qed

text \<open>
  Zero bytes at the end of the file need not be stored: a keeper that drops them, within the
  same grid, gets exactly the verdict of one that keeps the whole file.
\<close>

lemma zero_tail_not_audited:
  assumes "0 < length bs" "length bs + n \<le> 2 ^ 30" "dims (length bs + n) = dims (length bs)"
  shows "run_audit (bs @ replicate n 0) bs = run_audit (bs @ replicate n 0) (bs @ replicate n 0)"
proof -
  have "length bs \<le> 2 ^ 30" using assms(2) by simp
  with assms(1) obtain r m where d: "dims (length bs) = Some (r, m)" using dims_ok by blast
  obtain u c where v: "rand_vector m 2020 = Some u" "rand_vector r 20 = Some c" using rand_vector_total by blast
  have "keeper_acc (bs @ replicate n 0) r u c = keeper_acc bs r u c"
    by (simp add: keeper_acc_def response_spec_def chunk_zero_tail)
  moreover have l: "0 < length (bs @ replicate n 0)" "length (bs @ replicate n 0) \<le> 2 ^ 30"
    "dims (length (bs @ replicate n 0)) = Some (r, m)" "length bs \<le> 2 ^ 30"
    using assms d by simp_all
  ultimately show ?thesis
    using run_audit_value [OF l(1-3) assms(1) l(4) d v]
      run_audit_value [OF l(1-3) l(1-3) v] by simp
qed

section \<open>Configurations and contracts\<close>

lemma bytes_to_u64_to_bytes: "bytes_to_u64 (u64_to_bytes xs) = xs"
  by (simp add: bytes_to_u64_def u64_to_bytes_def chunks_exact_concat from_to_le_bytes comp_def)

text \<open>
  A configuration survives the contract it is stored in: reading back the fields written by
  \<open>to_contract\<close> gives the same rows, columns and secret vectors.
\<close>

lemma contract_roundtrip:
  assumes "cc_rows cc < 2 ^ 64" "cc_cols cc < 2 ^ 64"
  shows "case to_contract cc of (secret_n, secret_m, rows, cols) \<Rightarrow>
    from_contract_fields secret_n secret_m rows cols = cc \<and>
    from_contract (ct\<lparr>c_secret_n := secret_n, c_secret_m := secret_m, c_rows := rows, c_cols := cols\<rparr>) = cc"
  using i64_usize_roundtrip [OF assms(1)] i64_usize_roundtrip [OF assms(2)]
  by (simp add: to_contract_def from_contract_fields_def from_contract_def bytes_to_u64_to_bytes)

text \<open>The alphabet, the file of the tests.\<close>

definition alphabet :: bytes where
  "alphabet = map of_nat [97..<123]"

lemma alphabet_length: "length alphabet = 26"
  by (simp add: alphabet_def)

lemma alphabet_dims: "dims (length alphabet) = Some (56, 1)"
  unfolding alphabet_length using dims_small(1) [of 26] by simp

lemma alphabet_chunks:
  "map (chunk alphabet) [0..<4] = [29104508263162465, 31082559864203624, 33060611465244783, 526023948150]"
  "4 \<le> j \<Longrightarrow> chunk alphabet j = 0"
  by (simp_all add: chunk_outside alphabet_length) (simp add: chunk_def alphabet_def upt_rec)

lemma alphabet_secret:
  "map (secret_spec alphabet 56 (map word_of_int (take 1 samples_2020))) [0..<56] =
     [120891374367124132, 131035456404565768, 141179538442007404, 22254200296736808] @ replicate 52 0"
    (is "map ?s _ = _")
proof -
  have "?s j = 0" if "4 \<le> j" for j
    using that by (simp add: secret_spec_def alphabet_chunks samples_2020_def)
  then have "map ?s [4..<56] = replicate 52 0" by (simp add: numeral_eq_Suc)
  moreover have "[0..<56] = [0..<4] @ [4..<56]" by (simp add: upt_add_eq_append [of 0 4 52, simplified])
  moreover have "map ?s [0..<4] =
      [120891374367124132, 131035456404565768, 141179538442007404, 22254200296736808]"
    using alphabet_chunks(1) by (simp add: secret_spec_def samples_2020_def upt_rec)
  ultimately show ?thesis by (simp only: map_append)
qed

text \<open>
  C14: The configuration that the client derives from a file up to one gigabyte: the grid and the
  vector \<open>u\<close>, and as its other secret the product of the matrix of seven byte chunks with \<open>u\<close>,
  computed by unpacking 64 bit words without any overflow of the 128 bit accumulators.
\<close>

theorem client_secret_is_matrix_product:
  assumes "0 < length bs" "length bs \<le> 2 ^ 30"
  shows "\<exists>cc u r m. client_from_file bs = Some cc \<and> dims (length bs) = Some (r, m) \<and> rand_vector m 2020 = Some u
    \<and> cc_rows cc = r \<and> cc_cols cc = m \<and> secret_m_vector cc = u
    \<and> map unat (secret_n_vector cc) = map (secret_spec bs r u) [0..<r]"
proof -
  obtain r m where d: "dims (length bs) = Some (r, m)" using dims_ok [OF assms] by blast
  obtain u where u: "rand_vector m 2020 = Some u" using rand_vector_total by blast
  from client_from_file_ok [OF assms d u] d u show ?thesis by blast
qed

theorem client_secret_is_matrix_product_witness:
  "\<exists>cc. client_from_file alphabet = Some cc \<and>
     map unat (secret_n_vector cc) =
       [120891374367124132, 131035456404565768, 141179538442007404, 22254200296736808] @ replicate 52 0"
  using client_secret_is_matrix_product [of alphabet] alphabet_secret vectors_1(1) alphabet_dims
  unfolding alphabet_length by auto

end
