(* ===== verification/Prime_Field.thy ===== *)
theory Prime_Field
  imports Kiss_Prelude
begin

text \<open>
  Arithmetic modulo a prime, as far as the soundness of the audits needs it, and the primality of
  the modulus \<open>P57\<close> of \<^verbatim>\<open>src/verifier/por.rs\<close>. The number theory of the distribution is not part
  of the library theories used here, so the few facts are proved from scratch: Fermat's little
  theorem by the binomial theorem, and Pocklington's criterion, which reduces the primality of a
  number to that of a large factor of its predecessor. The chain for \<open>P57\<close> has three links and ends
  in the primes 1613, 2731 and 8191, which are checked by trial division.
\<close>

section \<open>Primes\<close>

definition is_prime :: "nat \<Rightarrow> bool" where
  "is_prime p \<longleftrightarrow> 1 < p \<and> (\<forall>d. d dvd p \<longrightarrow> d = 1 \<or> d = p)"

lemma is_primeD: "is_prime p \<Longrightarrow> 1 < p" "is_prime p \<Longrightarrow> d dvd p \<Longrightarrow> d = 1 \<or> d = p"
  by (simp_all add: is_prime_def)

lemma prime_coprime: "is_prime p \<Longrightarrow> \<not> p dvd a \<Longrightarrow> coprime a p"
  by (metis coprime_iff_gcd_eq_1 gcd_dvd1 gcd_dvd2 is_primeD(2))

lemma prime_dvd_mult: "is_prime p \<Longrightarrow> p dvd a * b \<Longrightarrow> p dvd a \<or> p dvd b"
  by (meson coprime_commute coprime_dvd_mult_right_iff prime_coprime)

lemma prime_dvd_int_mult:
  assumes "is_prime p" "int p dvd x * y"
  shows "int p dvd x \<or> int p dvd y"
  using prime_dvd_mult [OF assms(1), of "nat \<bar>x\<bar>" "nat \<bar>y\<bar>"] assms(2)
  by (simp add: int_dvd_int_iff [symmetric] abs_mult [symmetric] del: abs_mult flip: of_nat_mult nat_mult_distrib)

lemma prime_factor: "1 < n \<Longrightarrow> \<exists>p. is_prime p \<and> p dvd n"
proof (induction n rule: less_induct)
  case (less n)
  show ?case
  proof (cases "is_prime n")
    case False
    then obtain d where d: "d dvd n" "d \<noteq> 1" "d \<noteq> n" using less.prems by (auto simp: is_prime_def)
    then have "1 < d" "d < n" using less.prems dvd_imp_le [of d n] by (auto intro: Nat.gr0I simp: le_less nat_neq_iff)
    with less.IH d(1) show ?thesis by (meson dvd_trans)
  qed auto
qed

text \<open>A number without a prime factor up to its square root is prime.\<close>

lemma is_primeI_large_factors:
  assumes "1 < n" and large: "\<And>p. is_prime p \<Longrightarrow> p dvd n \<Longrightarrow> n < p * p"
  shows "is_prime n"
proof -
  obtain p where p: "is_prime p" "p dvd n" using prime_factor [OF assms(1)] by blast
  then obtain k where k: "n = p * k" by blast
  have "k = 1"
  proof (rule ccontr)
    assume "k \<noteq> 1"
    then have "1 < k" using k assms(1) by (cases k) auto
    then obtain q where q: "is_prime q" "q dvd k" using prime_factor by blast
    then have "q \<le> k" using \<open>1 < k\<close> by (auto dest: dvd_imp_le)
    moreover have "n < q * q" using large [OF q(1)] q(2) k by simp
    moreover have "n < p * p" by (rule large [OF p])
    ultimately have "p * k < k * k" "p * k < p * p"
      using k mult_le_mono [of q k q k] by (linarith, simp)
    then show False by (simp add: mult_less_cancel1 mult_less_cancel2)
  qed
  with k p(1) show ?thesis by simp
qed

fun no_factor :: "nat \<Rightarrow> nat \<Rightarrow> bool" where
  "no_factor n 0 = True"
| "no_factor n (Suc d) = ((d < 2 \<or> n mod d \<noteq> 0) \<and> no_factor n d)"

lemma no_factor_numeral:
  "no_factor n (numeral k) =
     ((pred_numeral k < 2 \<or> n mod pred_numeral k \<noteq> 0) \<and> no_factor n (pred_numeral k))"
  by (simp only: numeral_eq_Suc no_factor.simps)

lemma no_factorD: "no_factor n k \<Longrightarrow> 2 \<le> d \<Longrightarrow> d < k \<Longrightarrow> \<not> d dvd n"
  by (induction k) (auto simp: less_Suc_eq dvd_eq_mod_eq_0)

lemma is_prime_trial:
  assumes "1 < n" "n < k * k" "no_factor n k"
  shows "is_prime n"
proof (rule is_primeI_large_factors [OF assms(1)])
  fix p assume "is_prime p" "p dvd n"
  then have "k \<le> p" using no_factorD [OF assms(3), of p] is_primeD(1) [of p] by (force simp: not_less)
  then show "n < p * p" using assms(2) by (meson mult_le_mono order.strict_trans2)
qed

section \<open>Fermat's little theorem\<close>

lemma prime_dvd_binomial:
  assumes "is_prime p" "0 < k" "k < p"
  shows "p dvd p choose k"
proof -
  have "k * (p choose k) = p * (p - 1 choose (k - 1))"
    using assms(2,3) Suc_times_binomial [of "k - 1" "p - 1"] by simp
  then have "p dvd k * (p choose k)" by simp
  moreover have "\<not> p dvd k" using assms(2,3) by (auto dest: dvd_imp_le)
  ultimately show ?thesis using prime_dvd_mult [OF assms(1)] by blast
qed

lemma fermat_little: "is_prime p \<Longrightarrow> x ^ p mod p = x mod (p :: nat)"
proof (induction x)
  case 0
  then show ?case using is_primeD(1) [of p] by (simp add: zero_power)
next
  case (Suc x)
  have split: "{..p} = insert 0 (insert p {0<..<p})" using is_primeD(1) [OF Suc.prems] by auto
  have inner: "p dvd (\<Sum>k\<in>{0<..<p}. (p choose k) * x ^ k)"
    by (rule dvd_sum) (use prime_dvd_binomial [OF Suc.prems] in auto)
  have "Suc x ^ p = (x + 1) ^ p" by simp
  also have "\<dots> = (\<Sum>k\<le>p. (p choose k) * x ^ k)" by (subst binomial) simp
  also have "\<dots> = 1 + (x ^ p + (\<Sum>k\<in>{0<..<p}. (p choose k) * x ^ k))"
    unfolding split using is_primeD(1) [OF Suc.prems] by simp
  also have "\<dots> mod p = (1 + x ^ p) mod p"
    using inner by (auto simp: dvd_def mod_simps)
  also have "\<dots> = (1 + x) mod p" using Suc by (metis mod_add_right_eq)
  finally show ?case by simp
qed

lemma fermat_theorem:
  assumes "is_prime p" "\<not> p dvd x"
  shows "x ^ (p - 1) mod p = 1"
proof -
  have p: "p = Suc (p - 1)" using is_primeD(1) [OF assms(1)] by simp
  have pos: "1 \<le> x ^ (p - 1)" using assms(2) by (cases x) simp_all
  have "x * x ^ (p - 1) mod p = x * 1 mod p"
    using fermat_little [OF assms(1), of x] p by (metis mult.right_neutral power_Suc)
  moreover have "x * 1 \<le> x * x ^ (p - 1)" using pos by (intro mult_le_mono) simp_all
  ultimately have "p dvd x * x ^ (p - 1) - x * 1" by (simp only: mod_eq_dvd_iff_nat)
  then have "p dvd x * (x ^ (p - 1) - 1)" by (simp only: diff_mult_distrib2)
  then have "p dvd x ^ (p - 1) - 1" using prime_dvd_mult [OF assms(1)] assms(2) by blast
  moreover have "1 \<le> x ^ (p - 1)" using pos .
  ultimately show ?thesis
    using is_primeD(1) [OF assms(1)] by (metis mod_eq_dvd_iff_nat mod_less)
qed

section \<open>Pocklington's criterion\<close>

lemma power_mod_one_gcd:
  assumes "d ^ a mod p = 1" "d ^ b mod p = (1 :: nat)" "coprime a b" "a \<noteq> 0"
  shows "d mod p = 1"
proof -
  have one: "d ^ (m * x) mod p = 1" if "d ^ m mod p = 1" for m x
  proof -
    have "d ^ (m * x) mod p = (d ^ m mod p) ^ x mod p" by (simp add: power_mult power_mod)
    then show ?thesis using that by (metis mod_mod_trivial power_one)
  qed
  obtain x y where xy: "a * x = b * y + 1"
    using bezout_nat [OF assms(4), of b] assms(3) by (auto simp: coprime_iff_gcd_eq_1)
  have "1 = d ^ (b * y + 1) mod p" using one [OF assms(1), of x] xy by simp
  also have "\<dots> = (d ^ (b * y) mod p) * d mod p" by (metis mod_mult_left_eq power_add power_one_right)
  also have "\<dots> = d mod p" using one [OF assms(2), of y] by simp
  finally show ?thesis by simp
qed

lemma pocklington:
  assumes q: "is_prime q" and n: "n = q * f + 1" and a: "a ^ (n - 1) mod n = 1"
    and w: "coprime (a ^ f - 1) n" and p: "is_prime p" "p dvd n"
  shows "q dvd p - 1"
proof (rule ccontr)
  assume nq: "\<not> q dvd p - 1"
  have p1: "1 < p" by (rule is_primeD(1) [OF p(1)])
  have "a ^ (n - 1) mod p = a ^ (n - 1) mod n mod p" using p(2) by (simp add: mod_mod_cancel)
  then have one: "(a ^ f) ^ q mod p = 1" using a n p1 by (simp add: mult.commute flip: power_mult)
  then have "\<not> p dvd a ^ f"
    using is_primeD(1) [OF q] p1 by (metis dvd_eq_mod_eq_0 dvd_power dvd_trans less_imp_le not_one_less_zero zero_less_one zero_neq_one less_trans)
  from fermat_theorem [OF p(1) this]
  have "a ^ f mod p = 1"
    by (rule power_mod_one_gcd [OF _ one]) (use prime_coprime [OF q nq] p1 in auto)
  moreover have "1 \<le> a ^ f" using \<open>\<not> p dvd a ^ f\<close> by (cases "a ^ f") auto
  ultimately have "p dvd a ^ f - 1" using p1 by (metis mod_eq_dvd_iff_nat mod_less)
  with p(2) w have "p dvd 1" by (metis coprime_common_divisor_nat coprime_def nat_dvd_1_iff_1)
  then show False using p1 by simp
qed

section \<open>Powers by squaring\<close>

text \<open>The power modulo \<open>n\<close> for an exponent of at most \<open>k\<close> binary digits, on integers so that the
  evaluation computes with binary numerals.\<close>

fun pow_mod :: "nat \<Rightarrow> int \<Rightarrow> int \<Rightarrow> int \<Rightarrow> int" where
  "pow_mod 0 a e n = 1 mod n"
| "pow_mod (Suc k) a e n =
     (let r = pow_mod k a (e div 2) n; s = r * r mod n in if e mod 2 = 1 then s * a mod n else s)"

lemma pow_mod_correct: "0 \<le> e \<Longrightarrow> e < 2 ^ k \<Longrightarrow> pow_mod k a e n = a ^ nat e mod n"
proof (induction k arbitrary: e)
  case (Suc k)
  define h where "h = e div 2"
  have h: "0 \<le> h" "h < 2 ^ k" using Suc.prems by (simp_all add: h_def)
  have sq: "pow_mod k a h n * pow_mod k a h n mod n = a ^ (2 * nat h) mod n"
    using Suc.IH [OF h] by (simp add: mod_mult_eq mult_2 power_add)
  then have odd: "pow_mod k a h n * pow_mod k a h n mod n * a mod n = a ^ (2 * nat h + 1) mod n"
    by (simp only: mod_mult_left_eq power_add power_one_right)
  show ?case
  proof (cases "e mod 2 = 1")
    case True
    then have "nat e = 2 * nat h + 1" using h(1) by (simp add: h_def nat_eq_iff) presburger
    with True odd show ?thesis by (simp add: h_def)
  next
    case False
    then have "nat e = 2 * nat h" using Suc.prems(1) by (simp add: h_def nat_eq_iff) presburger
    with False sq show ?thesis by (simp add: h_def)
  qed
qed simp

lemma power_mod_eval:
  assumes "pow_mod 64 (int a) (int e) (int n) = int r" "e < 2 ^ 64"
  shows "a ^ e mod n = r"
proof -
  have "int e < int (2 ^ 64)" using assms(2) by (simp only: of_nat_less_iff)
  then have "pow_mod 64 (int a) (int e) (int n) = int a ^ nat (int e) mod int n"
    by (intro pow_mod_correct) simp_all
  then have "int (a ^ e mod n) = int r" using assms(1) by (simp add: zmod_int)
  then show ?thesis by (simp only: of_nat_eq_iff)
qed

text \<open>A link of the chain: the criterion with its hypotheses as evaluations; \<open>v\<close> is the inverse that
  shows two numbers coprime.\<close>

lemma coprime_by_inverse:
  assumes "x * v mod n = (1 :: nat)"
  shows "coprime x n"
proof (rule coprimeI)
  fix c assume "c dvd x" "c dvd n"
  then have "c dvd x * v mod n" by (simp add: dvd_mod)
  then show "is_unit c" using assms by simp
qed

lemma pocklington_eval:
  assumes "is_prime q" "n = q * f + 1" "n < 2 ^ 64"
    and "pow_mod 64 (int a) (int (q * f)) (int n) = 1" "pow_mod 64 (int a) (int f) (int n) = int (Suc r)"
    and "r * v mod n = 1" and p: "is_prime p" "p dvd n"
  shows "q dvd p - 1"
proof (rule pocklington [OF assms(1,2) _ _ p])
  have "0 < q" using is_primeD(1) [OF assms(1)] by simp
  then have f: "q * f < 2 ^ 64" "f < 2 ^ 64" using assms(2,3) by (auto intro: le_less_trans [of f "q * f"])
  show "a ^ (n - 1) mod n = 1" using power_mod_eval [OF _ f(1)] assms(2,4) by simp
  have "a ^ f mod n = Suc r" using assms(5) f(2) by (rule power_mod_eval)
  then have "a ^ f = n * (a ^ f div n) + Suc r" by (metis mult_div_mod_eq)
  then have "(a ^ f - 1) mod n = r mod n" by (metis diff_Suc_1 add_Suc_right mod_mult_self4)
  moreover have "coprime r n" using assms(6) by (rule coprime_by_inverse)
  ultimately show "coprime (a ^ f - 1) n" by (metis coprime_mod_left_iff assms(2) add_is_0 zero_neq_one)
qed

section \<open>The modulus of the audits\<close>

text \<open>Powers of two for the three links of the chain: \<open>P57 = 6 q + 1\<close>, \<open>q = 2 q' + 1\<close>, \<open>q' - 1 = 1613 \<sqdot> 2731 \<sqdot> 8191 \<sqdot> 332840\<close>.\<close>

lemma pow_mod_q2:
  "pow_mod 64 2 12009599006321320 12009599006321321 = 1"
  "pow_mod 64 2 1466194482520 12009599006321321 = 9286660918311820"
  "pow_mod 64 2 4397509705720 12009599006321321 = 3950234570615210"
  "pow_mod 64 2 7445504653640 12009599006321321 = 3128291245644619"
  by code_simp+

lemma pow_mod_q1:
  "pow_mod 64 2 24019198012642642 24019198012642643 = 1"
  "pow_mod 64 2 2 24019198012642643 = 4"
  by code_simp+

lemma pow_mod_p57:
  "pow_mod 64 2 144115188075855858 144115188075855859 = 1"
  "pow_mod 64 2 6 144115188075855859 = 64"
  by code_simp+

lemma small_primes: "is_prime 1613" "is_prime 2731" "is_prime 8191"
  by (rule is_prime_trial [where k = 91], simp, simp, simp add: no_factor_numeral)+

lemma factor_q2_8191:
  assumes "is_prime p" "p dvd 12009599006321321"
  shows "8191 dvd p - 1"
  by (rule pocklington_eval [where n = 12009599006321321 and f = 1466194482520 and a = 2
        and r = 9286660918311819 and v = 545644137929862])
     (use assms small_primes pow_mod_q2(1) pow_mod_q2(2) in simp_all)

lemma factor_q2_2731:
  assumes "is_prime p" "p dvd 12009599006321321"
  shows "2731 dvd p - 1"
  by (rule pocklington_eval [where n = 12009599006321321 and f = 4397509705720 and a = 2
        and r = 3950234570615209 and v = 9693380198341322])
     (use assms small_primes pow_mod_q2(1) pow_mod_q2(3) in simp_all)

lemma factor_q2_1613:
  assumes "is_prime p" "p dvd 12009599006321321"
  shows "1613 dvd p - 1"
  by (rule pocklington_eval [where n = 12009599006321321 and f = 7445504653640 and a = 2
        and r = 3128291245644618 and v = 5449270466633306])
     (use assms small_primes pow_mod_q2(1) pow_mod_q2(4) in simp_all)

lemma prime_q2: "is_prime 12009599006321321"
proof (rule is_primeI_large_factors)
  fix p assume p: "is_prime p" "p dvd 12009599006321321"
  have "coprime 1613 (2731 :: nat)" "coprime (1613 * 2731) (8191 :: nat)"
    by (rule coprime_by_inverse [where v = 320], simp)
       (rule coprime_by_inverse [where v = 4583], simp)
  then have "1613 * 2731 * 8191 dvd p - 1"
    using factor_q2_1613 [OF p] factor_q2_2731 [OF p] factor_q2_8191 [OF p] by (intro divides_mult)
  then have "1613 * 2731 * 8191 \<le> p - 1" using is_primeD(1) [OF p(1)] by (intro dvd_imp_le) simp_all
  then have "1613 * 2731 * 8191 \<le> p" by simp
  from mult_le_mono [OF this this] show "12009599006321321 < p * p" by simp
qed simp

lemma factor_q1:
  assumes "is_prime p" "p dvd 24019198012642643"
  shows "12009599006321321 dvd p - 1"
  by (rule pocklington_eval [where n = 24019198012642643 and f = 2 and a = 2
        and r = 3 and v = 8006399337547548])
     (use assms prime_q2 pow_mod_q1(1) pow_mod_q1(2) in simp_all)

lemma prime_q1: "is_prime 24019198012642643"
proof (rule is_primeI_large_factors)
  fix p assume p: "is_prime p" "p dvd 24019198012642643"
  have "12009599006321321 \<le> p"
    using dvd_imp_le [OF factor_q1 [OF p]] is_primeD(1) [OF p(1)] by simp
  from mult_le_mono [OF this this] show "24019198012642643 < p * p" by simp
qed simp

lemma factor_p57:
  assumes "is_prime p" "p dvd 144115188075855859"
  shows "24019198012642643 dvd p - 1"
  by (rule pocklington_eval [where n = 144115188075855859 and f = 6 and a = 2
        and r = 63 and v = 86926621379087661])
     (use assms prime_q1 pow_mod_p57(1) pow_mod_p57(2) in simp_all)

theorem prime_p57: "is_prime 144115188075855859"
proof (rule is_primeI_large_factors)
  fix p assume p: "is_prime p" "p dvd 144115188075855859"
  have "24019198012642643 \<le> p"
    using dvd_imp_le [OF factor_p57 [OF p]] is_primeD(1) [OF p(1)] by simp
  from mult_le_mono [OF this this] show "144115188075855859 < p * p" by simp
qed simp

end
