(* ===== verification/Por_Soundness.thy ===== *)
theory Por_Soundness
  imports Por_Audit Prime_Field
begin

text \<open>
  Soundness of the proof of retrievability as a proof system over all challenges: a keeper that
  answers from a file with another secret product is accepted on at most one in \<open>P57\<close> of the possible
  challenges. \<open>P57\<close> is prime (theory \<open>Prime_Field\<close>), so a nonzero linear form has few zeros. The
  soundness does not extend to a keeper that knows the secrets: from the fields of the contract it
  can compute an accepted response without any file.
\<close>

section \<open>Zeros of a linear form\<close>

text \<open>Vectors that differ only at \<open>k\<close> are told apart by a linear form whose \<open>k\<close>-th coefficient is not
  divisible by the prime.\<close>

lemma linear_form_injective:
  fixes a b :: "nat \<Rightarrow> nat"
  assumes p: "is_prime p" and k: "k < r" and ab: "a k mod p \<noteq> b k mod p"
    and same: "\<And>j. j < r \<Longrightarrow> j \<noteq> k \<Longrightarrow> c j = (c' :: nat \<Rightarrow> nat) j" and "c k < p" "c' k < p"
    and c: "(\<Sum>j<r. c j * a j) mod p = (\<Sum>j<r. c j * b j) mod p"
    and c': "(\<Sum>j<r. c' j * a j) mod p = (\<Sum>j<r. c' j * b j) mod p"
  shows "c k = c' k"
proof -
  let ?L = "\<lambda>x. \<Sum>j<r. int (x j) * (int (a j) - int (b j))"
  have dvd: "int p dvd ?L x" if "(\<Sum>j<r. x j * a j) mod p = (\<Sum>j<r. x j * b j) mod p" for x
  proof -
    have "int (\<Sum>j<r. x j * a j) mod int p = int (\<Sum>j<r. x j * b j) mod int p"
      using that by (simp only: flip: zmod_int)
    then have "int p dvd int (\<Sum>j<r. x j * a j) - int (\<Sum>j<r. x j * b j)" by (simp only: mod_eq_dvd_iff)
    then show ?thesis by (simp add: sum_subtractf right_diff_distrib)
  qed
  have "?L c - ?L c' = (\<Sum>j<r. if j = k then (int (c k) - int (c' k)) * (int (a k) - int (b k)) else 0)"
    unfolding sum_subtractf [symmetric] by (intro sum.cong refl) (auto simp: same left_diff_distrib)
  also have "\<dots> = (int (c k) - int (c' k)) * (int (a k) - int (b k))" using k by simp
  finally have "int p dvd (int (c k) - int (c' k)) * (int (a k) - int (b k))"
    using dvd_diff [OF dvd [OF c] dvd [OF c']] by simp
  moreover have "\<not> int p dvd int (a k) - int (b k)"
    using ab by (metis mod_eq_dvd_iff of_nat_eq_iff zmod_int)
  ultimately have "int p dvd int (c k) - int (c' k)" using prime_dvd_int_mult [OF p] by blast
  then have "int (c k) mod int p = int (c' k) mod int p" by (simp only: mod_eq_dvd_iff)
  then show ?thesis using assms(5,6) by simp
qed

text \<open>The challenges: as many field elements as the grid has rows.\<close>

definition challenge_space :: "nat \<Rightarrow> u64 list set" where
  "challenge_space r = {c. set c \<subseteq> {x. x < P57} \<and> length c = r}"

lemma card_below_P57: "card {x :: u64. x < P57} = p57" "finite {x :: u64. x < P57}"
proof -
  have "{x :: u64. x < P57} = word_of_nat ` {..<p57}"
  proof (intro equalityI subsetI)
    fix x :: u64 assume "x \<in> {x. x < P57}"
    then have "unat x < p57" by (simp add: P57_def word_less_nat_alt)
    then show "x \<in> word_of_nat ` {..<p57}" by (intro image_eqI [of _ _ "unat x"]) simp_all
  qed (auto simp: P57_def word_less_nat_alt unat_of_nat)
  moreover have "inj_on (word_of_nat :: nat \<Rightarrow> u64) {..<p57}"
    by (rule inj_onI) (simp add: word_unat_eq_iff unat_of_nat)
  ultimately show "card {x :: u64. x < P57} = p57" "finite {x :: u64. x < P57}"
    by (simp_all add: card_image)
qed

lemma card_challenge_space: "card (challenge_space r) = p57 ^ r" "finite (challenge_space r)"
  unfolding challenge_space_def using card_below_P57
  by (simp_all add: card_lists_length_eq finite_lists_length_eq)

lemma challenge_spaceD:
  assumes "c \<in> challenge_space r"
  shows "length c = r" "j < r \<Longrightarrow> unat (c ! j) < p57"
  using assms nth_mem [of j c] by (auto simp: challenge_space_def P57_def word_less_nat_alt simp del: nth_mem)

lemma linear_form_zeros:
  fixes a b :: "nat \<Rightarrow> nat"
  assumes "k < r" "a k mod p57 \<noteq> b k mod p57"
  shows "card {c \<in> challenge_space r. (\<Sum>j<r. unat (c ! j) * a j) mod p57 = (\<Sum>j<r. unat (c ! j) * b j) mod p57}
           \<le> p57 ^ (r - 1)" (is "card ?Z \<le> _")
proof -
  let ?f = "\<lambda>c :: u64 list. take k c @ drop (Suc k) c"
  have "inj_on ?f ?Z"
  proof (rule inj_onI)
    fix c c' assume z: "c \<in> ?Z" "c' \<in> ?Z" and eq: "?f c = ?f c'"
    then have l: "length c = r" "length c' = r" "unat (c ! k) < p57" "unat (c' ! k) < p57"
      using assms(1) by (auto dest: challenge_spaceD)
    have td: "take k c = take k c'" "drop (Suc k) c = drop (Suc k) c'" using eq l assms(1) by simp_all
    have same: "c ! j = c' ! j" if "j < r" "j \<noteq> k" for j
    proof (cases "j < k")
      case True
      then show ?thesis using arg_cong [OF td(1), of "\<lambda>xs. xs ! j"] by simp
    next
      case False
      with that have "Suc k + (j - Suc k) = j" "Suc k \<le> r" by simp_all
      then show ?thesis using arg_cong [OF td(2), of "\<lambda>xs. xs ! (j - Suc k)"] l by simp
    qed
    have "unat (c ! k) = unat (c' ! k)"
      using linear_form_injective [OF prime_p57 assms(1), of a b "\<lambda>j. unat (c ! j)" "\<lambda>j. unat (c' ! j)"]
        assms(2) same l z by simp
    then show "c = c'" using same l by (intro nth_equalityI) (auto simp: word_unat_eq_iff)
  qed
  moreover have "?f ` ?Z \<subseteq> challenge_space (r - 1)"
    using assms(1) by (auto simp: challenge_space_def subset_eq dest: in_set_takeD in_set_dropD)
  ultimately have "card ?Z \<le> card (challenge_space (r - 1))"
    using card_challenge_space(2) by (rule card_inj_on_le)
  then show ?thesis by (simp only: card_challenge_space)
qed

section \<open>Soundness\<close>

text \<open>One exchange: the keeper's response to the challenge and the verdict on it.\<close>

definition exchange :: "client_config \<Rightarrow> server_config \<Rightarrow> u64 list \<Rightarrow> bool option" where
  "exchange cc sc c = Option.bind (fulfill_challenge sc c) (audit cc c)"

lemma exchange_value:
  assumes bs: "0 < length bs" "length bs \<le> 2 ^ 30" "dims (length bs) = Some (r, m)"
    and bs': "0 < length bs'" "length bs' \<le> 2 ^ 30" "dims (length bs') = Some (r, m)"
    and u: "rand_vector m 2020 = Some u" and cc: "client_from_file bs = Some cc"
    and sc: "server_from_file bs' = Some sc" and c: "c \<in> challenge_space r"
  shows "exchange cc sc c = Some (keeper_acc bs' r u c = client_acc bs r u c)"
proof -
  obtain n where d: "r = 8 * n" "7 * r * (m - 1) \<le> length bs'" "r < 2 ^ 15"
    using dims_ok [OF bs'(1,2)] bs'(3) by (metis option.inject prod.inject)
  have cc': "cc_rows cc = r" "cc_cols cc = m" "secret_m_vector cc = u"
    "map unat (secret_n_vector cc) = map (secret_spec bs r u) [0..<r]"
    using client_from_file_ok [OF bs u] cc by auto
  have sc': "sc = \<lparr>sc_rows = r, sc_cols = m, sc_file = bs'\<rparr>"
    using sc bs'(3) by (simp add: server_from_file_def)
  note cl = challenge_spaceD [OF c]
  have "\<exists>resp. fulfill_challenge sc c = Some resp \<and> map unat resp = map (response_spec bs' r c) [0..<m]"
    unfolding sc'
  proof (rule fulfill_challenge_ok [OF d(1,2) cl(1)], rule sum_products_bound [OF chunk_less _ d(3)])
    show "unat (c ! j) < 2 ^ 57" if "j < r" for j using cl(2) [OF that] by simp
  qed
  then obtain resp where resp: "fulfill_challenge sc c = Some resp"
    "map unat resp = map (response_spec bs' r c) [0..<m]" by blast
  have l: "length u = m" "length resp = m" "length (secret_n_vector cc) = r"
    using rand_vector_length [OF u] arg_cong [OF resp(2), of length] arg_cong [OF cc'(4), of length] by simp_all
  have R: "unat (resp ! i) = response_spec bs' r c i" if "i < m" for i
    using arg_cong [OF resp(2), of "\<lambda>xs. xs ! i"] that l by simp
  have S: "unat (secret_n_vector cc ! j) = secret_spec bs r u j" if "j < r" for j
    using arg_cong [OF cc'(4), of "\<lambda>xs. xs ! j"] that l by simp
  show ?thesis
    using audit_ok [of resp cc c] cc' l R S cl(1) resp(1)
    by (simp add: exchange_def keeper_acc_def client_acc_def cong: audit_acc_cong)
qed

text \<open>
  C3: Soundness of the proof of retrievability. Let a keeper answer from a file of the same grid as the
  original one, whose product with the secret vector differs. Then every exchange ends without a panic,
  and at most one in \<open>P57\<close> of all challenge vectors is accepted.
\<close>

theorem audit_soundness:
  assumes bs: "0 < length bs" "length bs \<le> 2 ^ 30" "dims (length bs) = Some (r, m)"
    and bs': "0 < length bs'" "length bs' \<le> 2 ^ 30" "dims (length bs') = Some (r, m)"
    and cc: "client_from_file bs = Some cc" and cc': "client_from_file bs' = Some cc'"
    and sc: "server_from_file bs' = Some sc" and diff: "secret_n_vector cc' \<noteq> secret_n_vector cc"
  shows "(\<forall>c \<in> challenge_space r. exchange cc sc c \<noteq> None) \<and>
    p57 * card {c \<in> challenge_space r. exchange cc sc c = Some True} \<le> card (challenge_space r)"
proof
  obtain u where u: "rand_vector m 2020 = Some u" using rand_vector_total by blast
  note val = exchange_value [OF bs bs' u cc sc]
  show "\<forall>c \<in> challenge_space r. exchange cc sc c \<noteq> None" using val by simp
  have s: "map unat (secret_n_vector cc) = map (secret_spec bs r u) [0..<r]"
    "map unat (secret_n_vector cc') = map (secret_spec bs' r u) [0..<r]"
    using client_from_file_ok [OF bs u] client_from_file_ok [OF bs' u] cc cc' by auto
  have "map unat (secret_n_vector cc') \<noteq> map unat (secret_n_vector cc)"
    using diff by (simp add: inj_map_eq_map [OF inj_unsigned])
  then obtain k where k: "k < r" "secret_spec bs' r u k \<noteq> secret_spec bs r u k"
    unfolding s by (auto simp: list_eq_iff_nth_eq)
  then have k': "secret_spec bs' r u k mod p57 \<noteq> secret_spec bs r u k mod p57" by (simp add: secret_spec_def)
  have "(\<Sum>j<r. unat (c ! j) * secret_spec bs' r u j) mod p57 = (\<Sum>j<r. unat (c ! j) * secret_spec bs r u j) mod p57"
    if "c \<in> challenge_space r" "exchange cc sc c = Some True" for c
  proof -
    have "keeper_acc bs' r u c = client_acc bs r u c" using val [OF that(1)] that(2) by simp
    then have "client_acc bs' r u c mod p57 = client_acc bs r u c mod p57"
      by (simp only: client_acc_mod keeper_acc_mod [symmetric])
    then show ?thesis unfolding client_acc_def by (simp only: audit_acc_mod)
  qed
  then have "card {c \<in> challenge_space r. exchange cc sc c = Some True} \<le> card {c \<in> challenge_space r.
      (\<Sum>j<r. unat (c ! j) * secret_spec bs' r u j) mod p57 = (\<Sum>j<r. unat (c ! j) * secret_spec bs r u j) mod p57}"
    by (intro card_mono) (auto simp: card_challenge_space)
  also have "\<dots> \<le> p57 ^ (r - 1)" using k(1) k' by (rule linear_form_zeros)
  finally have "p57 * card {c \<in> challenge_space r. exchange cc sc c = Some True} \<le> p57 * p57 ^ (r - 1)"
    by (rule mult_le_mono2)
  also have "\<dots> = card (challenge_space r)"
    using k(1) by (simp only: card_challenge_space power_minus_mult flip: power_Suc) simp
  finally show "p57 * card {c \<in> challenge_space r. exchange cc sc c = Some True} \<le> card (challenge_space r)" .
qed


lemma small_files:
  "length ([97, 98, 99] :: bytes) \<le> 2 ^ 30" "dims (length ([97, 98, 99] :: bytes)) = Some (56, 1)"
  "length ([97, 98, 100] :: bytes) \<le> 2 ^ 30" "dims (length ([97, 98, 100] :: bytes)) = Some (56, 1)"
  using dims_small(1) [of "Suc (Suc (Suc 0))"] by simp_all

theorem audit_soundness_witness:
  "\<exists>cc sc. client_from_file [97, 98, 99] = Some cc \<and> server_from_file [97, 98, 100] = Some sc \<and>
     p57 * card {c \<in> challenge_space 56. exchange cc sc c = Some True} \<le> card (challenge_space 56)"
proof -
  let ?u = "map word_of_int (take 1 samples_2020) :: u64 list"
  obtain cc where cc: "client_from_file [97, 98, 99] = Some cc"
    "map unat (secret_n_vector cc) = map (secret_spec [97, 98, 99] 56 ?u) [0..<56]"
    using client_from_file_ok [OF _ small_files(1,2) vectors_1(1)] by auto
  obtain cc' where cc': "client_from_file [97, 98, 100] = Some cc'"
    "map unat (secret_n_vector cc') = map (secret_spec [97, 98, 100] 56 ?u) [0..<56]"
    using client_from_file_ok [OF _ small_files(3,4) vectors_1(1)] by auto
  have "secret_spec [97, 98, 100] 56 ?u 0 \<noteq> secret_spec [97, 98, 99] 56 ?u 0"
    by (simp add: secret_spec_def chunk_def samples_2020_def)
  then have "secret_n_vector cc' \<noteq> secret_n_vector cc"
    using arg_cong [OF cc(2), of hd] arg_cong [OF cc'(2), of hd] by (auto simp: hd_map upt_rec)
  moreover obtain sc where sc: "server_from_file [97, 98, 100] = Some sc"
    using small_files(4) by (simp add: server_from_file_def)
  ultimately show ?thesis
    using audit_soundness [OF _ small_files(1,2) _ small_files(3,4) cc(1) cc'(1) sc] cc(1) sc by auto
qed

text \<open>
  Damage inside one group of seven bytes of a file of any size up to one gigabyte is detected unless the entry of one of the
  vectors at its place in the grid is zero; since \<open>P57\<close> is prime, nothing else can hide it.
\<close>

lemma damaged_chunk_rejected_unless_zero:
  assumes len: "0 < length bs" "length bs \<le> 2 ^ 30" "dims (length bs) = Some (r, m)"
    and v: "rand_vector m 2020 = Some u" "rand_vector r 20 = Some c"
    and damage: "length bs' = length bs" "bs' \<noteq> bs" "\<forall>n<length bs. bs' ! n \<noteq> bs ! n \<longrightarrow> n div 7 = k"
    and nonzero: "u ! (k div r) \<noteq> 0" "c ! (k mod r) \<noteq> 0"
  shows "run_audit bs bs' = Some False"
proof -
  have r: "0 < r" "length bs \<le> 7 * r * m" using dims_ok [OF len(1,2)] len(3) by (metis option.inject prod.inject)+
  obtain n where n: "n < length bs" "n div 7 = k" using damage by (auto simp: list_eq_iff_nth_eq)
  then have "k < r * m" using r(2) by (auto simp: less_mult_imp_div_less mult.assoc mult.commute [of 7])
  then have k: "k div r < m" "k mod r < r" using r(1) by (simp_all add: less_mult_imp_div_less mult.commute)
  have unit: "coprime (int (unat x)) (int p57)" if "x \<noteq> 0" "unat x < p57" for x :: u64
  proof -
    have "\<not> p57 dvd unat x" using that by (auto dest: dvd_imp_le simp: unat_gt_0)
    with prime_coprime [OF prime_p57] show ?thesis by (simp only: coprime_int_iff)
  qed
  show ?thesis
    using unit [OF nonzero(1)] unit [OF nonzero(2)] rand_vector_range [OF v(1) k(1)] rand_vector_range [OF v(2) k(2)]
    by (intro damaged_chunk_at [OF len v damage]) simp_all
qed

section \<open>Forged responses\<close>

text \<open>
  A response computed from the two secret vectors and the challenge alone: the expected product, divided by the
  first entry of the secret vector, in the first column, and zeros in the others.
\<close>

definition forged_response :: "client_config \<Rightarrow> u64 list \<Rightarrow> u64 list" where
  "forged_response cc c =
     (let t = (\<Sum>j<cc_rows cc. unat (c ! j) * unat (secret_n_vector cc ! j)) mod p57;
          v = nat (pow_mod 64 (int (unat (secret_m_vector cc ! 0))) 144115188075855857 144115188075855859)
      in word_of_nat (t * v mod p57) # replicate (cc_cols cc - 1) 0)"

lemma inverse_mod_p57:
  assumes "0 < x" "x < p57"
  shows "nat (pow_mod 64 (int x) 144115188075855857 144115188075855859) * x mod p57 = 1"
proof -
  have "pow_mod 64 (int x) 144115188075855857 144115188075855859 = int x ^ 144115188075855857 mod 144115188075855859"
    by (subst pow_mod_correct) (simp_all add: nat_numeral del: power_numeral_even power_numeral_odd)
  also have "\<dots> = int (x ^ 144115188075855857 mod p57)" by (simp only: of_nat_power zmod_int of_nat_numeral)
  finally have "nat (pow_mod 64 (int x) 144115188075855857 144115188075855859) * x mod p57
      = x ^ 144115188075855857 mod p57 * x mod p57" by (simp only: nat_int)
  also have "\<dots> = x ^ 144115188075855857 * x ^ 1 mod p57" by (simp only: mod_mult_left_eq power_one_right)
  also have "\<dots> = x ^ (p57 - 1) mod p57" by (simp only: flip: power_add) simp
  also have "\<dots> = 1" using assms by (intro fermat_theorem prime_p57) (auto dest: dvd_imp_le)
  finally show ?thesis .
qed

lemma audit_acc_nonzero:
  assumes "(\<Sum>i<n. f i) mod p57 = t" "t \<noteq> 0"
  shows "audit_acc f n = t"
  using audit_acc_mod [of f n] audit_acc_le [of f n] assms by (cases "audit_acc f n = p57") auto

lemma le_mod_cases: "(x :: nat) \<le> p \<Longrightarrow> x mod p = t \<Longrightarrow> x = t \<or> t = 0 \<and> x = p"
  by (cases "x = p") auto

lemma forged_audit:
  assumes "0 < cc_cols cc" "cc_cols cc \<le> length (secret_m_vector cc)" "cc_rows cc \<le> length (secret_n_vector cc)"
    and "length c = cc_rows cc" "0 < secret_m_vector cc ! 0" "secret_m_vector cc ! 0 < P57"
  shows "audit cc c (forged_response cc c) =
    Some (audit_acc (\<lambda>j. unat (c ! j) * unat (secret_n_vector cc ! j)) (cc_rows cc) \<noteq> p57)"
proof -
  define u where "u = unat (secret_m_vector cc ! 0)"
  define v where "v = nat (pow_mod 64 (int u) 144115188075855857 144115188075855859)"
  define t where "t = (\<Sum>j<cc_rows cc. unat (c ! j) * unat (secret_n_vector cc ! j)) mod p57"
  let ?f = "\<lambda>i. unat (forged_response cc c ! i) * unat (secret_m_vector cc ! i)"
  let ?g = "\<lambda>j. unat (c ! j) * unat (secret_n_vector cc ! j)"
  have forged: "forged_response cc c = word_of_nat (t * v mod p57) # replicate (cc_cols cc - 1) 0"
    by (simp add: forged_response_def t_def v_def u_def Let_def)
  have u: "0 < u" "u < p57" using assms(5,6) by (simp_all add: u_def P57_def word_less_nat_alt)
  have x: "unat (word_of_nat (t * v mod p57) :: u64) = t * v mod p57"
  proof -
    have "t * v mod p57 < p57" by simp
    then have "t * v mod p57 < 2 ^ 64" by (rule less_trans) simp
    then show ?thesis by (simp add: unat_of_nat)
  qed
  have "(\<Sum>i<cc_cols cc. ?f i) = (\<Sum>i<1. ?f i)"
    using assms(1) by (intro sum.mono_neutral_right) (auto simp: forged nth_Cons')
  also have "\<dots> = (t * v mod p57) * u" by (simp add: forged x u_def)
  also have "\<dots> mod p57 = t * (v * u mod p57) mod p57"
    by (simp only: mod_mult_left_eq mod_mult_right_eq mult.assoc)
  also have "\<dots> = t" using inverse_mod_p57 [OF u] by (simp add: v_def t_def)
  finally have sum: "(\<Sum>i<cc_cols cc. ?f i) mod p57 = t" .
  have zero: "?f i = 0" if "t = 0" "i < cc_cols cc" for i using that by (cases i) (simp_all add: forged)
  have "audit_acc ?f (cc_cols cc) = t"
  proof (cases "t = 0")
    case True
    then have "audit_acc ?f (cc_cols cc) = audit_acc (\<lambda>_. 0) (cc_cols cc)" by (intro audit_acc_cong) (simp_all add: zero)
    also have "\<dots> = 0" using audit_acc_tail [of 0 "\<lambda>_. 0" "cc_cols cc"] by simp
    finally show ?thesis using True by simp
  qed (use sum in \<open>rule audit_acc_nonzero\<close>)
  moreover have "audit_acc ?g (cc_rows cc) mod p57 = t" by (simp only: audit_acc_mod t_def)
  then have "audit_acc ?g (cc_rows cc) = t \<or> t = 0 \<and> audit_acc ?g (cc_rows cc) = p57"
    by (rule le_mod_cases [OF audit_acc_le])
  moreover have "t < p57" by (simp add: t_def)
  moreover have "length (forged_response cc c) = cc_cols cc" using assms(1) by (simp add: forged)
  ultimately have "audit cc c (forged_response cc c) = Some (t = audit_acc ?g (cc_rows cc))"
    using audit_ok [of "forged_response cc c" cc c] assms(2-4) by simp
  with \<open>audit_acc ?g (cc_rows cc) = t \<or> t = 0 \<and> audit_acc ?g (cc_rows cc) = p57\<close> \<open>t < p57\<close> show ?thesis by auto
qed

lemma first_secret:
  assumes "rand_vector m 2020 = Some u" "0 < m"
  shows "u ! 0 = 57829946736570845"
proof -
  have "rand_vector 1 2020 = Some (take 1 u)"
    using assms rand_fill_prefix [of m "init 2020 zero_random" u 1] by (simp add: rand_vector_def)
  with vectors_1(1) have "take 1 u = map word_of_int (take 1 samples_2020)" by simp
  then show ?thesis using rand_vector_length [OF assms(1)] assms(2) by (cases u) (simp_all add: samples_2020_def)
qed

text \<open>
  C36: A keeper that reads the contract of a file needs no file. For every file of one byte up to one gigabyte and every challenge of the right length,
  the audit of the configuration read from the contract accepts the response that is computed from that contract and the challenge alone, whenever the
  expected product is not divisible by \<open>P57\<close>; in the remaining case it accepts it unless the accumulator
  of the expected product is left at \<open>P57\<close> itself, which the audit does not reduce.
\<close>

theorem forged_response_accepted:
  assumes "0 < length bs" "length bs \<le> 2 ^ 30" "client_from_file bs = Some cc"
    and "(c_secret_n ct, c_secret_m ct, c_rows ct, c_cols ct) = to_contract cc" "length c = cc_rows cc"
  shows "\<exists>b. audit (from_contract ct) c (forged_response (from_contract ct) c) = Some b
    \<and> ((\<Sum>j<cc_rows cc. unat (c ! j) * unat (secret_n_vector cc ! j)) mod p57 \<noteq> 0 \<longrightarrow> b)
    \<and> (b \<longleftrightarrow> audit_acc (\<lambda>j. unat (c ! j) * unat (secret_n_vector cc ! j)) (cc_rows cc) \<noteq> p57)"
proof -
  obtain r m where d: "dims (length bs) = Some (r, m)" "0 < m" "r < 2 ^ 15" "m < 2 ^ 15" using dims_ok [OF assms(1,2)] by metis
  obtain u where u: "rand_vector m 2020 = Some u" using rand_vector_total by blast
  have cc: "cc_rows cc = r" "cc_cols cc = m" "secret_m_vector cc = u" "map unat (secret_n_vector cc) = map (secret_spec bs r u) [0..<r]"
    using client_from_file_ok [OF assms(1,2) d(1) u] assms(3) by auto
  have l: "length u = m" "length (secret_n_vector cc) = r"
    using rand_vector_length [OF u] arg_cong [OF cc(4), of length] by simp_all
  have "from_contract ct = cc"
    using assms(4) d(3,4) cc(1,2) i64_usize_roundtrip [of r] i64_usize_roundtrip [of m]
    by (simp add: to_contract_def from_contract_def bytes_to_u64_to_bytes)
  moreover have "audit cc c (forged_response cc c) =
      Some (audit_acc (\<lambda>j. unat (c ! j) * unat (secret_n_vector cc ! j)) (cc_rows cc) \<noteq> p57)"
    using d(2) l cc first_secret [OF u d(2)] assms(5) by (intro forged_audit) (simp_all add: P57_def)
  moreover have "audit_acc f n \<noteq> p57" if "(\<Sum>j<n. f j) mod p57 \<noteq> 0" for f n
    using audit_acc_mod [of f n] that by auto
  ultimately show ?thesis
    by (intro exI [of _ "audit_acc (\<lambda>j. unat (c ! j) * unat (secret_n_vector cc ! j)) (cc_rows cc) \<noteq> p57"]) blast
qed

theorem forged_response_accepted_witness:
  "\<exists>cc ct. client_from_file [97, 98, 99] = Some cc \<and> (c_secret_n ct, c_secret_m ct, c_rows ct, c_cols ct) = to_contract cc
     \<and> audit (from_contract ct) (replicate 56 1) (forged_response (from_contract ct) (replicate 56 1)) = Some True"
proof -
  let ?u = "map word_of_int (take 1 samples_2020) :: u64 list"
  obtain cc where cc: "client_from_file [97, 98, 99] = Some cc" "cc_rows cc = 56"
    "map unat (secret_n_vector cc) = map (secret_spec [97, 98, 99] 56 ?u) [0..<56]"
    using client_from_file_ok [OF _ small_files(1,2) vectors_1(1)] by auto
  obtain n m rows cols where f: "to_contract cc = (n, m, rows, cols)" by (cases "to_contract cc")
  define ct where "ct = \<lparr>c_contract_uuid = [], c_peer_id = PeerId [], c_file_uuid = [], c_file_hash = [], c_upload_date = 0,
    c_ttl = 0, c_secret_n = n, c_secret_m = m, c_rows = rows, c_cols = cols\<rparr>"
  have n: "unat (secret_n_vector cc ! j) = secret_spec [97, 98, 99] 56 ?u j" if "j < 56" for j
    using arg_cong [OF cc(3), of "\<lambda>xs. xs ! j"] arg_cong [OF cc(3), of length] that by simp
  have z: "secret_spec [97, 98, 99] 56 ?u j = 0" if "0 < j" for j
    using that by (simp add: secret_spec_def chunk_def samples_2020_def)
  have "(\<Sum>j<56. unat (replicate 56 (1 :: u64) ! j) * unat (secret_n_vector cc ! j)) = (\<Sum>j<1. secret_spec [97, 98, 99] 56 ?u j)"
    using n z by (intro sum.mono_neutral_cong_right) auto
  also have "\<dots> mod p57 \<noteq> 0" by (simp add: secret_spec_def chunk_def samples_2020_def)
  finally have "(\<Sum>j<56. unat (replicate 56 (1 :: u64) ! j) * unat (secret_n_vector cc ! j)) mod p57 \<noteq> 0" .
  moreover have "(c_secret_n ct, c_secret_m ct, c_rows ct, c_cols ct) = to_contract cc" by (simp add: ct_def f)
  ultimately show ?thesis
    using forged_response_accepted [OF _ small_files(1) cc(1), of ct "replicate 56 1"] cc(1,2) by auto
qed

end
