(* ===== verification/Por_Bounds.thy ===== *)
theory Por_Bounds
  imports Por_Audit
begin

text \<open>
  The shape of the data of a proof of retrievability and the cost of an audit: which configurations
  \<^verbatim>\<open>from_file\<close> of \<^verbatim>\<open>src/verifier/por.rs\<close> produces, and that challenge and response have about as many words as the square root of
  the number of chunks.
\<close>

lemma client_from_fileE:
  assumes "client_from_file bs = Some cc"
  obtains "0 < length bs" and "dims (length bs) = Some (cc_rows cc, cc_cols cc)"
    and "rand_vector (cc_cols cc) 2020 = Some (secret_m_vector cc)"
proof (rule that)
  show "0 < length bs" using assms by (cases bs) (simp_all add: client_from_file_def dims_def checked_sub_def)
qed (use assms in \<open>auto simp: client_from_file_def split: Option.bind_splits\<close>)

lemma dims_square:
  assumes "0 < len" "len \<le> 2 ^ 30" "dims len = Some (r, m)"
  shows "56 dvd r" "0 < r" "0 < m" "m \<le> r" "(r - 56) * (r - 56) < 1 + (len - 1) div 7" "len \<le> 7 * (r * m)"
proof -
  define N where "N = 1 + (len - 1) div 7"
  have N: "0 < N" "N \<le> 2 ^ 50" using assms(2) by (simp_all add: N_def)
  note g = grid_rows_bounds [OF N]
  have rm: "r = grid_rows N" "m = 1 + (N - 1) div r"
    using assms g(1) by (auto simp: dims_def checked_sub_def checked_div_def BYTES_UNDER_P_def Let_def N_def split: if_splits)
  show "56 dvd r" "0 < r" "(r - 56) * (r - 56) < 1 + (len - 1) div 7" using g unfolding rm(1) [symmetric] by (simp_all add: N_def)
  show "0 < m" by (simp add: rm(2))
  have "N - 1 < r * r" using g(3) N(1) unfolding rm(1) [symmetric] by linarith
  then have "(N - 1) div r < r" using \<open>0 < r\<close> by (simp add: less_mult_imp_div_less)
  then show "m \<le> r" by (simp add: rm(2))
  show "len \<le> 7 * (r * m)" using dims_ok [OF assms(1,2)] assms(3) by (metis mult.assoc option.inject prod.inject)
qed

lemma entries_below_P57:
  assumes "map unat (xs :: u64 list) = map (\<lambda>i. f i mod p57) is"
  shows "set xs \<subseteq> {x. x < P57}"
proof
  fix x assume "x \<in> set xs"
  then have "unat x \<in> set (map (\<lambda>i. f i mod p57) is)" unfolding assms [symmetric] by simp
  then show "x \<in> {x. x < P57}" by (auto simp: P57_def word_less_nat_alt)
qed

lemma rand_vector_below_P57: "rand_vector n s = Some v \<Longrightarrow> set v \<subseteq> {x. x < P57}"
  using rand_vector_range [of n s v] rand_vector_length [of n s v]
  by (auto simp: in_set_conv_nth P57_def word_less_nat_alt)

text \<open>
  C39: Every configuration derived from a file up to one gigabyte is well formed: the rows are a multiple of 56, there are
  no more columns than rows, the grid holds the whole file, the secret vectors have one entry per column and per row, and all
  entries are residues modulo \<open>P57\<close>.
\<close>

theorem client_config_well_formed:
  assumes "client_from_file bs = Some cc" "length bs \<le> 2 ^ 30"
  shows "56 dvd cc_rows cc \<and> 0 < cc_cols cc \<and> cc_cols cc \<le> cc_rows cc \<and> length bs \<le> 7 * (cc_rows cc * cc_cols cc) \<and>
    length (secret_m_vector cc) = cc_cols cc \<and> length (secret_n_vector cc) = cc_rows cc \<and>
    set (secret_m_vector cc) \<subseteq> {x. x < P57} \<and> set (secret_n_vector cc) \<subseteq> {x. x < P57}"
proof (rule client_from_fileE [OF assms(1)])
  assume d: "0 < length bs" "dims (length bs) = Some (cc_rows cc, cc_cols cc)"
    and u: "rand_vector (cc_cols cc) 2020 = Some (secret_m_vector cc)"
  have s: "map unat (secret_n_vector cc) = map (secret_spec bs (cc_rows cc) (secret_m_vector cc)) [0..<cc_rows cc]"
    using client_from_file_ok [OF d(1) assms(2) d(2) u] assms(1) by auto
  show ?thesis
    using dims_square [OF d(1) assms(2) d(2)] rand_vector_length [OF u] rand_vector_below_P57 [OF u]
      arg_cong [OF s, of length] entries_below_P57 [OF s [unfolded secret_spec_def]] by simp
qed

theorem client_config_well_formed_witness:
  "\<exists>cc. client_from_file alphabet = Some cc \<and> length (secret_n_vector cc) = cc_rows cc \<and> cc_cols cc \<le> cc_rows cc"
proof -
  obtain cc where cc: "client_from_file alphabet = Some cc"
    using client_from_file_ok [OF _ _ alphabet_dims vectors_1(1)] by (auto simp: alphabet_length)
  from client_config_well_formed [OF this] show ?thesis using cc by (simp add: alphabet_length)
qed

text \<open>
  C40: The cost of an audit: for a file of \<open>N\<close> chunks of seven bytes, up to one gigabyte, the challenge has less than \<open>sqrt N + 56\<close>
  words and the response not more than the challenge; every word of both is a residue modulo \<open>P57\<close>.
\<close>

theorem audit_messages_bound:
  assumes cc: "client_from_file bs = Some cc" and "length bs \<le> 2 ^ 30" and sc: "server_from_file bs = Some sc"
    and ch: "make_challenge_vector cc = Some ch" and resp: "fulfill_challenge sc ch = Some resp"
  shows "(length ch - 56)\<^sup>2 < 1 + (length bs - 1) div 7 \<and> length resp \<le> length ch \<and>
    set ch \<subseteq> {x. x < P57} \<and> set resp \<subseteq> {x. x < P57}"
proof (rule client_from_fileE [OF cc])
  assume d: "0 < length bs" "dims (length bs) = Some (cc_rows cc, cc_cols cc)"
  have c: "rand_vector (cc_rows cc) 20 = Some ch" using ch by (simp add: make_challenge_vector_def)
  have r: "map unat resp = map (response_spec bs (cc_rows cc) ch) [0..<cc_cols cc]"
    using fulfill_challenge_from_file [OF d(1) assms(2) d(2) c] sc resp by auto
  show ?thesis
    using dims_square [OF d(1) assms(2) d(2)] rand_vector_length [OF c] rand_vector_below_P57 [OF c]
      arg_cong [OF r, of length] entries_below_P57 [OF r [unfolded response_spec_def]]
    by (simp add: power2_eq_square)
qed

theorem audit_messages_bound_witness:
  "\<exists>cc sc ch resp. client_from_file alphabet = Some cc \<and> server_from_file alphabet = Some sc \<and>
     make_challenge_vector cc = Some ch \<and> fulfill_challenge sc ch = Some resp \<and>
     length resp \<le> length ch \<and> set resp \<subseteq> {x. x < P57}"
proof -
  obtain cc where cc: "client_from_file alphabet = Some cc" "cc_rows cc = 56"
    using client_from_file_ok [OF _ _ alphabet_dims vectors_1(1)] by (auto simp: alphabet_length)
  then have ch: "make_challenge_vector cc = Some (map word_of_int (take 56 samples_20))"
    using vectors_1(2) by (simp add: make_challenge_vector_def)
  obtain sc resp where sc: "server_from_file alphabet = Some sc" "fulfill_challenge sc (map word_of_int (take 56 samples_20)) = Some resp"
    using fulfill_challenge_from_file [OF _ _ alphabet_dims vectors_1(2)] by (auto simp: alphabet_length)
  have "length alphabet \<le> 2 ^ 30" by (simp add: alphabet_length)
  from audit_messages_bound [OF cc(1) this sc(1) ch sc(2)] show ?thesis using cc ch sc by blast
qed

end
