(* ===== verification/Hasher.thy ===== *)
theory Hasher
  imports Util
begin

text \<open>
  \<^verbatim>\<open>src/util/hasher.rs\<close>: the hash of a file or of a public key is the hexadecimal text of its SHA3-256 digest. The digest and the
  encoder are parameters; the records of other components extend \<open>hasher_env\<close>.
\<close>

record hasher_env =
  sha3_256 :: "bytes \<Rightarrow> bytes"
  hex_encode :: "bytes \<Rightarrow> string"

definition hash :: "'a hasher_env_scheme \<Rightarrow> bytes \<Rightarrow> string" where
  "hash h content = hex_encode h (sha3_256 h content)"

end
