(* ===== verification/Utf8.thy ===== *)
theory Utf8
  imports Kiss_Prelude
begin

text \<open>
  Rust strings as the bytes of their UTF-8 encoding, one \<open>char\<close> per byte: \<^verbatim>\<open>as_bytes\<close>,
  \<^verbatim>\<open>String::from_utf8\<close> and \<^verbatim>\<open>std::str::from_utf8\<close>. The well-formed byte sequences are those of
  table 3-7 of the Unicode standard.
\<close>

definition as_bytes :: "string \<Rightarrow> bytes" where
  "as_bytes s = map (\<lambda>c. of_nat (of_char c)) s"

definition byte_string :: "bytes \<Rightarrow> string" where
  "byte_string bs = map (\<lambda>b. char_of (unat b)) bs"

definition between :: "u8 \<Rightarrow> u8 \<Rightarrow> u8 \<Rightarrow> bool" where
  "between lo hi b \<longleftrightarrow> lo \<le> b \<and> b \<le> hi"

abbreviation cont :: "u8 \<Rightarrow> bool" where "cont \<equiv> between 0x80 0xBF"

fun valid_utf8 :: "bytes \<Rightarrow> bool" where
  "valid_utf8 [] = True"
| "valid_utf8 [a] = between 0 0x7F a"
| "valid_utf8 (a # b # bs) =
     (if between 0 0x7F a then valid_utf8 (b # bs)
      else if between 0xC2 0xDF a then cont b \<and> valid_utf8 bs
      else (case bs of
         [] \<Rightarrow> False
       | c # cs \<Rightarrow>
           if a = 0xE0 then between 0xA0 0xBF b \<and> cont c \<and> valid_utf8 cs
           else if a = 0xED then between 0x80 0x9F b \<and> cont c \<and> valid_utf8 cs
           else if between 0xE1 0xEF a then cont b \<and> cont c \<and> valid_utf8 cs
           else (case cs of
              [] \<Rightarrow> False
            | d # ds \<Rightarrow>
                (if a = 0xF0 then between 0x90 0xBF b
                 else if a = 0xF4 then between 0x80 0x8F b
                 else between 0xF1 0xF3 a \<and> cont b)
                \<and> cont c \<and> cont d \<and> valid_utf8 ds)))"

definition from_utf8 :: "bytes \<Rightarrow> string option" where
  "from_utf8 bs = (if valid_utf8 bs then Some (byte_string bs) else None)"

lemma of_nat_of_char [simp]: "unat (of_nat (of_char c) :: u8) = of_char c"
proof -
  have "of_char c < (256 :: nat)" using char_of_eq_iff [of "of_char c" c] of_char_mod_256 [of c]
    by (metis mod_less_divisor zero_less_numeral)
  then show ?thesis by (simp add: unat_of_nat)
qed

lemma byte_string_as_bytes [simp]: "byte_string (as_bytes s) = s"
  by (induction s) (simp_all add: byte_string_def as_bytes_def)

lemma as_bytes_byte_string [simp]: "as_bytes (byte_string bs) = bs"
proof -
  have "(of_nat (of_char (char_of (unat b) :: char)) :: u8) = b" for b :: u8
    using unsigned_less [of b, where ?'a = nat] by (simp add: word_unat_eq_iff unat_of_nat)
  then show ?thesis by (induction bs) (simp_all add: byte_string_def as_bytes_def)
qed

lemma length_as_bytes [simp]: "length (as_bytes s) = length s" "length (byte_string bs) = length bs"
  by (simp_all add: as_bytes_def byte_string_def)

lemma as_bytes_inject [simp]: "as_bytes s = as_bytes t \<longleftrightarrow> s = t"
  by (metis byte_string_as_bytes)

lemma from_utf8_as_bytes: "valid_utf8 (as_bytes s) \<Longrightarrow> from_utf8 (as_bytes s) = Some s"
  by (simp add: from_utf8_def)

lemma valid_utf8_ascii: "\<forall>b \<in> set bs. b \<le> 0x7F \<Longrightarrow> valid_utf8 bs"
  by (induction bs rule: valid_utf8.induct) (auto simp: between_def)

end
