(* ===== verification/Peer_Id.thy ===== *)
theory Peer_Id
  imports Hasher Utf8
begin

text \<open>
  \<^verbatim>\<open>src/p2p/peer_id.rs\<close>: the search for a key pair whose hashed public key starts with zeros, and the text form of a key pair. The
  generator, the protobuf encoding and base64 are parameters. The search may not end, so it is a partial function; the
  number of tries it logs is left out.
\<close>

record ('w, 'k) keys = hasher_env +
  generate :: "'w \<Rightarrow> 'k \<times> 'w"
  public_bytes :: "'k \<Rightarrow> bytes"
  to_protobuf :: "'k \<Rightarrow> ext_error + bytes"
  from_protobuf :: "bytes \<Rightarrow> ext_error + 'k"
  b64np_encode :: "bytes \<Rightarrow> string"
  b64np_decode :: "string \<Rightarrow> ext_error + bytes"

definition keypair_to_base64_proto :: "('w, 'k) keys \<Rightarrow> 'k \<Rightarrow> string" where
  "keypair_to_base64_proto g k = b64np_encode g (case to_protobuf g k of Inr b \<Rightarrow> b | Inl _ \<Rightarrow> [])"

definition keypair_from_base64_proto :: "('w, 'k) keys \<Rightarrow> string \<Rightarrow> error_kind + 'k" where
  "keypair_from_base64_proto g encoded =
     (let decoded = (case b64np_decode g encoded of Inr b \<Rightarrow> b | Inl _ \<Rightarrow> []) in
      case from_protobuf g decoded of Inr k \<Rightarrow> Inr k | Inl e \<Rightarrow> Inl (from_decoding_error e))"

definition leading_zeros_ok :: "('w, 'k) keys \<Rightarrow> nat \<Rightarrow> 'k \<Rightarrow> bool" where
  "leading_zeros_ok g leading_zeros k \<longleftrightarrow>
     list_all (\<lambda>c. c = CHR ''0'') (take leading_zeros (hash g (public_bytes g k)))"

partial_function (option) keypair_with_leading_zeros :: "('w, 'k) keys \<Rightarrow> nat \<Rightarrow> 'w \<Rightarrow> ('k \<times> 'w) option" where
  "keypair_with_leading_zeros g z w =
     (case generate g w of (inner, w') \<Rightarrow>
        if leading_zeros_ok g z inner then Some (inner, w') else keypair_with_leading_zeros g z w')"

lemma search_step:
  "keypair_with_leading_zeros g z w = (if leading_zeros_ok g z (fst (generate g w)) then Some (generate g w)
     else keypair_with_leading_zeros g z (snd (generate g w)))"
  by (subst keypair_with_leading_zeros.simps) (simp add: case_prod_beta)

text \<open>The state of the generator after \<open>n\<close> tries.\<close>

definition after :: "('w, 'k) keys \<Rightarrow> nat \<Rightarrow> 'w \<Rightarrow> 'w" where
  "after g n w = ((\<lambda>w. snd (generate g w)) ^^ n) w"

lemma after_Suc: "after g (Suc n) w = after g n (snd (generate g w))"
  by (simp add: after_def funpow_Suc_right del: funpow.simps)

lemma keypair_search_first:
  assumes "leading_zeros_ok g z (fst (generate g (after g n w)))"
  shows "\<exists>m \<le> n. keypair_with_leading_zeros g z w = Some (generate g (after g m w))
    \<and> leading_zeros_ok g z (fst (generate g (after g m w)))
    \<and> (\<forall>i<m. \<not> leading_zeros_ok g z (fst (generate g (after g i w))))"
  using assms
proof (induction n arbitrary: w)
  case 0
  then show ?case by (subst search_step) (simp add: after_def)
next
  case (Suc n)
  show ?case
  proof (cases "leading_zeros_ok g z (fst (generate g w))")
    case True
    then show ?thesis by (intro exI [of _ 0], subst search_step) (simp add: after_def)
  next
    case False
    define w1 where "w1 = snd (generate g w)"
    have s: "keypair_with_leading_zeros g z w = keypair_with_leading_zeros g z w1"
      using False by (subst search_step) (simp add: w1_def)
    from Suc.prems have "leading_zeros_ok g z (fst (generate g (after g n w1)))" by (simp add: after_Suc w1_def)
    from Suc.IH [OF this] obtain m where m: "m \<le> n"
      "keypair_with_leading_zeros g z w1 = Some (generate g (after g m w1))"
      "leading_zeros_ok g z (fst (generate g (after g m w1)))"
      "\<forall>i<m. \<not> leading_zeros_ok g z (fst (generate g (after g i w1)))" by blast
    have "\<not> leading_zeros_ok g z (fst (generate g (after g i w)))" if "i < Suc m" for i
      using that m(4) False by (cases i) (auto simp: after_Suc w1_def after_def [of g 0])
    with m s show ?thesis by (intro exI [of _ "Suc m"]) (simp add: after_Suc w1_def)
  qed
qed

text \<open>
  C24: The search for a key pair with leading zeros ends as soon as the generator gives one, and returns the first
  that it gives: its hashed public key starts with the required zeros, and all earlier ones did not.
\<close>

theorem keypair_search:
  assumes "leading_zeros_ok g z (fst (generate g (after g n w)))"
  shows "\<exists>m \<le> n. keypair_with_leading_zeros g z w = Some (generate g (after g m w))
    \<and> leading_zeros_ok g z (fst (generate g (after g m w)))
    \<and> (\<forall>i<m. \<not> leading_zeros_ok g z (fst (generate g (after g i w))))"
  using assms by (rule keypair_search_first)

text \<open>Key pairs in memory: bytes, hashed to their last two decimal digits.\<close>

definition mem_keys :: "(nat, u8) keys" where
  "mem_keys = \<lparr>sha3_256 = \<lambda>b. b, hex_encode = \<lambda>b. map (\<lambda>x. char_of (48 + unat x)) b, generate = \<lambda>w. (of_nat w, w + 1),
     public_bytes = \<lambda>k. [of_nat (unat k div 10 mod 10), of_nat (unat k mod 10)], to_protobuf = \<lambda>k. Inr [k],
     from_protobuf = \<lambda>b. (case b of [x] \<Rightarrow> Inr x | _ \<Rightarrow> Inl ''bad''),
     b64np_encode = byte_string, b64np_decode = \<lambda>s. Inr (as_bytes s)\<rparr>"

lemma mem_keys_zeros: "leading_zeros_ok mem_keys 2 98 = False" "leading_zeros_ok mem_keys 2 99 = False"
  "leading_zeros_ok mem_keys 2 100 = True"
  by code_simp+

lemma mem_keys_generate [simp]: "generate mem_keys w = (of_nat w, w + 1)"
  by (simp add: mem_keys_def)

theorem keypair_search_witness: "keypair_with_leading_zeros mem_keys 2 98 = Some (100, 101)"
proof -
  have a: "after mem_keys 0 98 = 98" "after mem_keys 1 98 = 99" "after mem_keys 2 98 = 100"
    by (simp_all add: after_def numeral_2_eq_2)
  have "leading_zeros_ok mem_keys 2 (fst (generate mem_keys (after mem_keys 2 98)))"
    by (simp add: a mem_keys_zeros)
  from keypair_search [OF this] obtain m where m: "m \<le> 2"
    "keypair_with_leading_zeros mem_keys 2 98 = Some (generate mem_keys (after mem_keys m 98))"
    "leading_zeros_ok mem_keys 2 (fst (generate mem_keys (after mem_keys m 98)))" by blast
  have "m \<noteq> 0"
  proof
    assume "m = 0"
    with m(3) a(1) show False by (simp add: mem_keys_zeros)
  qed
  moreover have "m \<noteq> 1"
  proof
    assume "m = 1"
    with m(3) a(2) show False by (simp add: mem_keys_zeros)
  qed
  ultimately have "m = 2" using m(1) by simp
  with m(2) a(3) show ?thesis by simp
qed

end
