(* ===== verification/Storage.thy ===== *)
theory Storage
  imports Util Utf8 "HOL-Library.Multiset"
begin

text \<open>
  The storage of records: \<^verbatim>\<open>src/storage/mod.rs\<close>, \<^verbatim>\<open>src/storage/local.rs\<close> (records as YAML documents
  in a directory) and \<^verbatim>\<open>src/p2p/store.rs\<close> (the record store of Kademlia on top of it).

  \<open>'w storage_env\<close> holds the foreign code: base64, the text form of peer ids, the YAML reader and
  writer, the files below the storage prefix and the clock. A YAML document is its list of entries:
  the reader checks field names and value types, the visitor of the source sees the entries in
  order. Times are nanoseconds of the monotonic clock.

  \<open>record_storage\<close> is the interface \<^verbatim>\<open>IStorage\<close> as the record store uses it; \<open>local_storage\<close> interprets it on
  the functions of \<^verbatim>\<open>local.rs\<close>.
\<close>

section \<open>Records and their documents\<close>

record kad_record =
  rec_key :: bytes
  rec_value :: bytes
  rec_publisher :: "peer_id option"
  rec_expires :: "int option"

datatype entry =
    EKey string
  | EPublisher "string option"
  | EExpires "int option"
  | EValue string

type_synonym ('w, 'a) io = "'w \<Rightarrow> (ext_error + 'a) \<times> 'w"

record 'w storage_env =
  b64_encode :: "bytes \<Rightarrow> string"
  b64_decode :: "string \<Rightarrow> bytes option"
  peer_to_base58 :: "peer_id \<Rightarrow> string"
  peer_from_base58 :: "string \<Rightarrow> ext_error + peer_id"
  yaml_to_string :: "entry list \<Rightarrow> ext_error + bytes"
  yaml_from_slice :: "bytes \<Rightarrow> ext_error + entry list"
  object_path :: "string \<Rightarrow> string"
  fs_put :: "string \<Rightarrow> bytes \<Rightarrow> ('w, unit) io"
  fs_get :: "string \<Rightarrow> ('w, (ext_error + bytes) list) io"
  fs_delete :: "string \<Rightarrow> ('w, unit) io"
  fs_list :: "('w, (ext_error + string) list) io"
  instant_now :: "'w \<Rightarrow> int \<times> 'w"

text \<open>\<^verbatim>\<open>key_to_path\<close>, in both files.\<close>

definition key_to_path :: "bytes \<Rightarrow> ('w, string) action" where
  "key_to_path key = (case from_utf8 key of Some s \<Rightarrow> act_return s | None \<Rightarrow> act_fail Utf8Error)"

text \<open>\<^verbatim>\<open>Instant::elapsed\<close>: zero for a time in the future.\<close>

definition elapsed :: "int \<Rightarrow> int \<Rightarrow> int" where
  "elapsed now t = (if t \<le> now then now - t else 0)"

text \<open>\<^verbatim>\<open>RecordWrapper::serialize\<close>.\<close>

definition serialize :: "'w storage_env \<Rightarrow> kad_record \<Rightarrow> 'w \<Rightarrow> entry list \<times> 'w" where
  "serialize env r w =
     (let key = (case from_utf8 (rec_key r) of Some s \<Rightarrow> s | None \<Rightarrow> []);
          value = b64_encode env (rec_value r);
          publisher = map_option (peer_to_base58 env) (rec_publisher r);
          (expires, w') = (case rec_expires r of
             None \<Rightarrow> (None, w)
           | Some t \<Rightarrow> (case instant_now env w of (now, w') \<Rightarrow> (Some (elapsed now t), w')))
      in ([EKey key, EPublisher publisher, EExpires expires, EValue value], w'))"

text \<open>The loop of \<^verbatim>\<open>visit_map\<close>: every field at most once.\<close>

record fields =
  f_key :: "string option"
  f_publisher :: "string option option"
  f_expires :: "int option option"
  f_value :: "string option"

definition no_fields :: fields where
  "no_fields = \<lparr>f_key = None, f_publisher = None, f_expires = None, f_value = None\<rparr>"

fun visit_entry :: "entry \<Rightarrow> fields \<Rightarrow> ext_error + fields" where
  "visit_entry (EKey k) f =
     (if f_key f \<noteq> None then Inl ''duplicate field `key`'' else Inr (f\<lparr>f_key := Some k\<rparr>))"
| "visit_entry (EPublisher p) f =
     (if f_publisher f \<noteq> None then Inl ''duplicate field `publisher`'' else Inr (f\<lparr>f_publisher := Some p\<rparr>))"
| "visit_entry (EExpires e) f =
     (if f_expires f \<noteq> None then Inl ''duplicate field `expires`'' else Inr (f\<lparr>f_expires := Some e\<rparr>))"
| "visit_entry (EValue v) f =
     (if f_value f \<noteq> None then Inl ''duplicate field `value`'' else Inr (f\<lparr>f_value := Some v\<rparr>))"

primrec visit_entries :: "entry list \<Rightarrow> fields \<Rightarrow> ext_error + fields" where
  "visit_entries [] f = Inr f"
| "visit_entries (e # es) f = (case visit_entry e f of Inl err \<Rightarrow> Inl err | Inr f' \<Rightarrow> visit_entries es f')"

definition visit_map :: "'w storage_env \<Rightarrow> entry list \<Rightarrow> ('w, kad_record) io" where
  "visit_map env es w =
     (case visit_entries es no_fields of
        Inl err \<Rightarrow> (Inl err, w)
      | Inr f \<Rightarrow>
          (case f_key f of
             None \<Rightarrow> (Inl ''missing field `key`'', w)
           | Some key \<Rightarrow>
               (case (case f_publisher f of
                        Some (Some p) \<Rightarrow>
                          (case peer_from_base58 env p of
                             Inl err \<Rightarrow> Inl (''invalid peer id: '' @ err) | Inr peer \<Rightarrow> Inr (Some peer))
                      | _ \<Rightarrow> Inr None) of
                  Inl err \<Rightarrow> (Inl err, w)
                | Inr publisher \<Rightarrow>
                    (let (expires, w') = (case f_expires f of
                            Some (Some d) \<Rightarrow> (case instant_now env w of (now, w') \<Rightarrow> (Some (now + d), w'))
                          | _ \<Rightarrow> (None, w))
                     in case f_value f of
                          None \<Rightarrow> (Inl ''missing field `value`'', w')
                        | Some v \<Rightarrow> (Inr \<lparr>rec_key = as_bytes key,
                            rec_value = (case b64_decode env v of Some b \<Rightarrow> b | None \<Rightarrow> []),
                            rec_publisher = publisher, rec_expires = expires\<rparr>, w')))))"

section \<open>Files\<close>

definition io_call :: "(ext_error \<Rightarrow> error_kind) \<Rightarrow> ('w, 'a) io \<Rightarrow> ('w, 'a) action" where
  "io_call wrap f w = (case f w of (r, w') \<Rightarrow> act_result wrap r w')"

definition storage_put :: "'w storage_env \<Rightarrow> kad_record \<Rightarrow> ('w, unit) action" where
  "storage_put env data =
     act_bind (key_to_path (rec_key data)) (\<lambda>path.
     act_bind (\<lambda>w. case serialize env data w of (es, w') \<Rightarrow> act_result StoragePutSerdeError (yaml_to_string env es) w')
       (\<lambda>serialized.
     io_call ObjectStoreError (fs_put env (object_path env path) serialized)))"

text \<open>\<^verbatim>\<open>try_collect\<close> and \<^verbatim>\<open>flatten\<close> of the stream of a file: the first error ends it.\<close>

primrec collect_stream :: "(ext_error + 'a) list \<Rightarrow> ext_error + 'a list" where
  "collect_stream [] = Inr []"
| "collect_stream (c # cs) = (case c of Inl e \<Rightarrow> Inl e | Inr x \<Rightarrow>
     (case collect_stream cs of Inl e \<Rightarrow> Inl e | Inr xs \<Rightarrow> Inr (x # xs)))"

definition storage_get :: "'w storage_env \<Rightarrow> string \<Rightarrow> ('w, kad_record) action" where
  "storage_get env path =
     act_bind (io_call ObjectStoreError (fs_get env (object_path env path))) (\<lambda>stream.
     act_bind (act_result StorageConvertToStreamFailed (collect_stream stream)) (\<lambda>chunks.
     act_bind (act_result StorageGetSerdeError (yaml_from_slice env (concat chunks))) (\<lambda>es.
     io_call StorageGetSerdeError (visit_map env es))))"

definition storage_remove :: "'w storage_env \<Rightarrow> string \<Rightarrow> ('w, unit) action" where
  "storage_remove env path = io_call ObjectStoreError (fs_delete env path)"

definition storage_list :: "'w storage_env \<Rightarrow> ('w, string list) action" where
  "storage_list env =
     act_bind (io_call ObjectStoreError (fs_list env)) (\<lambda>metas.
     act_result ObjectStoreError (collect_stream metas))"

section \<open>The record store of Kademlia\<close>

record local_store_config =
  max_records :: nat
  max_value_bytes :: nat
  max_providers_per_key :: nat
  max_provided_keys :: nat

text \<open>The default configuration, and the one the swarm is built with.\<close>

definition default_store_config :: local_store_config where
  "default_store_config = \<lparr>max_records = 1024, max_value_bytes = 1024 * 1024 * 1024,
     max_providers_per_key = 20, max_provided_keys = 1024\<rparr>"

definition swarm_store_config :: local_store_config where
  "swarm_store_config = \<lparr>max_records = 150000, max_value_bytes = 1024 * 1024 * 1024,
     max_providers_per_key = 20, max_provided_keys = 150000\<rparr>"

datatype store_error = MaxRecords | MaxProvidedKeys | ValueTooLarge

text \<open>
  A spawned task that is waited for: an error of the task and a panic inside it are both a value.
\<close>

definition act_spawn :: "('w, 'a) action \<Rightarrow> ('a option \<Rightarrow> ('w, 'b) action) \<Rightarrow> ('w, 'b) action" where
  "act_spawn m f w = (case m w of (Ok x, w') \<Rightarrow> f (Some x) w' | (Err _, w') \<Rightarrow> f None w' | (Panic, w') \<Rightarrow> f None w')"

definition store_get :: "(string \<Rightarrow> ('w, kad_record) action) \<Rightarrow> bytes \<Rightarrow> ('w, kad_record option) action" where
  "store_get get k =
     act_try (key_to_path k) (\<lambda>p.
     case p of
       Inr path \<Rightarrow> act_spawn (get path) act_return
     | Inl _ \<Rightarrow> act_return None)"

definition store_put :: "(kad_record \<Rightarrow> ('w, unit) action) \<Rightarrow> local_store_config \<Rightarrow> kad_record \<Rightarrow>
    ('w, store_error + unit) action" where
  "store_put put config r =
     (if max_value_bytes config \<le> length (rec_value r) then act_return (Inl ValueTooLarge)
      else act_spawn (put r) (\<lambda>x. act_return (case x of Some _ \<Rightarrow> Inr () | None \<Rightarrow> Inl MaxRecords)))"

definition store_remove :: "(string \<Rightarrow> string) \<Rightarrow> (string \<Rightarrow> ('w, unit) action) \<Rightarrow> bytes \<Rightarrow> ('w, unit) action" where
  "store_remove opath remove key =
     act_try (key_to_path key) (\<lambda>p.
     case p of
       Inr path \<Rightarrow> act_spawn (remove (opath path)) (\<lambda>_. act_return ())
     | Inl _ \<Rightarrow> act_return ())"

text \<open>\<^verbatim>\<open>records\<close>, \<^verbatim>\<open>add_provider\<close>, \<^verbatim>\<open>providers\<close>, \<^verbatim>\<open>provided\<close> and \<^verbatim>\<open>remove_provider\<close> are \<^verbatim>\<open>todo!()\<close>.\<close>

definition store_records :: "('w, kad_record list) action" where "store_records = act_panic"
definition store_add_provider :: "bytes \<Rightarrow> ('w, store_error + unit) action" where "store_add_provider _ = act_panic"
definition store_providers :: "bytes \<Rightarrow> ('w, peer_id list) action" where "store_providers _ = act_panic"
definition store_provided :: "('w, bytes list) action" where "store_provided = act_panic"
definition store_remove_provider :: "bytes \<Rightarrow> peer_id \<Rightarrow> ('w, unit) action" where
  "store_remove_provider _ _ = act_panic"

section \<open>Documents of records\<close>

text \<open>The codecs invert their encoders, as documented.\<close>

definition codecs_ok :: "'w storage_env \<Rightarrow> bool" where
  "codecs_ok env \<longleftrightarrow>
     (\<forall>b. b64_decode env (b64_encode env b) = Some b) \<and>
     (\<forall>p. peer_from_base58 env (peer_to_base58 env p) = Inr p) \<and>
     (\<forall>es bs. yaml_to_string env es = Inr bs \<longrightarrow> yaml_from_slice env bs = Inr es)"

text \<open>What the record read back differs in: its expiry.\<close>

definition reexpired :: "int \<Rightarrow> int \<Rightarrow> kad_record \<Rightarrow> kad_record" where
  "reexpired t_put t_get r = r\<lparr>rec_expires := map_option (\<lambda>e. t_get + elapsed t_put e) (rec_expires r)\<rparr>"

lemma visit_serialized:
  assumes "codecs_ok env" "valid_utf8 (rec_key r)" "serialize env r w = (es, w')"
  shows "fst (visit_map env es v) = Inr (reexpired (fst (instant_now env w)) (fst (instant_now env v)) r)"
  using assms
  by (cases r) (auto simp: serialize_def visit_map_def no_fields_def reexpired_def codecs_ok_def from_utf8_def
      Let_def split: option.splits prod.splits)

text \<open>
  C23: A record read from its document is the record written, except for its expiry: an expiry that
  lay in the future becomes the moment of reading, and one that passed before writing is moved into
  the future by the time it was overdue.
\<close>

theorem record_document_roundtrip:
  assumes "codecs_ok env" "valid_utf8 (rec_key r)" "serialize env r w = (es, w')" "visit_map env es v = (q, v')"
  shows "\<exists>r'. q = Inr r' \<and> rec_key r' = rec_key r \<and> rec_value r' = rec_value r \<and> rec_publisher r' = rec_publisher r
    \<and> (rec_expires r = None \<longrightarrow> rec_expires r' = None)
    \<and> (\<forall>e. rec_expires r = Some e \<longrightarrow> fst (instant_now env w) \<le> e \<longrightarrow> rec_expires r' = Some (fst (instant_now env v)))
    \<and> (\<forall>e. rec_expires r = Some e \<longrightarrow> e < fst (instant_now env w) \<longrightarrow>
         rec_expires r' = Some (fst (instant_now env v) + (fst (instant_now env w) - e)))"
  using visit_serialized [OF assms(1-3), of v] assms(4)
  by (auto simp: reexpired_def elapsed_def)

text \<open>The order of the entries of a document does not matter, and each field occurs at most once.\<close>

fun entry_kind :: "entry \<Rightarrow> nat" where
  "entry_kind (EKey _) = 0" | "entry_kind (EPublisher _) = 1" | "entry_kind (EExpires _) = 2" | "entry_kind (EValue _) = 3"

fun set_entry :: "entry \<Rightarrow> fields \<Rightarrow> fields" where
  "set_entry (EKey k) f = f\<lparr>f_key := Some k\<rparr>"
| "set_entry (EPublisher p) f = f\<lparr>f_publisher := Some p\<rparr>"
| "set_entry (EExpires e) f = f\<lparr>f_expires := Some e\<rparr>"
| "set_entry (EValue v) f = f\<lparr>f_value := Some v\<rparr>"

definition kinds_of :: "fields \<Rightarrow> nat set" where
  "kinds_of f = (if f_key f = None then {} else {0}) \<union> (if f_publisher f = None then {} else {1})
     \<union> (if f_expires f = None then {} else {2}) \<union> (if f_value f = None then {} else {3})"

lemma visit_entry_iff: "visit_entry e f = Inr f' \<longleftrightarrow> entry_kind e \<notin> kinds_of f \<and> f' = set_entry e f"
  by (cases e) (auto simp: kinds_of_def)

lemma kinds_of_set_entry: "kinds_of (set_entry e f) = insert (entry_kind e) (kinds_of f)"
  by (cases e) (auto simp: kinds_of_def)

lemma visit_entries_iff:
  "visit_entries es f = Inr f' \<longleftrightarrow>
     distinct (map entry_kind es) \<and> entry_kind ` set es \<inter> kinds_of f = {} \<and> f' = fold set_entry es f"
proof (induction es arbitrary: f)
  case (Cons e es)
  show ?case
  proof (cases "visit_entry e f")
    case (Inl err)
    then have "entry_kind e \<in> kinds_of f" using visit_entry_iff [of e f "set_entry e f"] by auto
    with Inl show ?thesis by auto
  next
    case (Inr f1)
    then have "entry_kind e \<notin> kinds_of f" "f1 = set_entry e f" by (simp_all add: visit_entry_iff)
    with Inr Cons show ?thesis by (auto simp: kinds_of_set_entry)
  qed
qed (auto simp: kinds_of_def)

lemma set_entry_commute: "entry_kind a \<noteq> entry_kind b \<Longrightarrow> set_entry a (set_entry b f) = set_entry b (set_entry a f)"
  by (cases a; cases b) simp_all

text \<open>
  Reading a document does not depend on the order of its entries: permuted documents are
  accepted together and give the same record.
\<close>

lemma visit_map_permuted:
  assumes "mset es' = mset es" "visit_entries es no_fields = Inr f"
  shows "visit_map env es' w = visit_map env es w"
proof -
  have d: "distinct (map entry_kind es)" using assms(2) by (simp add: visit_entries_iff)
  then have inj: "a = b" if "a \<in> set es" "b \<in> set es" "entry_kind a = entry_kind b" for a b
    using that by (auto simp: distinct_map dest: inj_onD)
  have "fold set_entry es = fold set_entry es'"
  proof (rule fold_multiset_equiv)
    fix a b assume "a \<in> set es" "b \<in> set es"
    with inj show "set_entry a \<circ> set_entry b = set_entry b \<circ> set_entry a"
      by (cases "entry_kind a = entry_kind b") (auto simp: fun_eq_iff set_entry_commute)
  qed (use assms(1) in simp)
  moreover have "distinct (map entry_kind es')"
    using d assms(1) by (metis mset_eq_imp_distinct_iff mset_map)
  ultimately have "visit_entries es' no_fields = Inr f"
    using assms visit_entries_iff [of es no_fields f] visit_entries_iff [of es' no_fields f]
    by (metis mset_eq_setD)
  with assms(2) show ?thesis by (simp add: visit_map_def)
qed

lemma fold_set_entry_absent:
  "\<forall>k. EKey k \<notin> set es \<Longrightarrow> f_key (fold set_entry es f) = f_key f"
  "\<forall>v. EValue v \<notin> set es \<Longrightarrow> f_value (fold set_entry es f) = f_value f"
  "\<forall>p. EPublisher p \<notin> set es \<Longrightarrow> f_publisher (fold set_entry es f) = f_publisher f"
proof -
  have "f_key (set_entry e f) = f_key f" if "\<forall>k. EKey k \<noteq> e" for e f using that by (cases e) simp_all
  then show "\<forall>k. EKey k \<notin> set es \<Longrightarrow> f_key (fold set_entry es f) = f_key f"
    by (induction es arbitrary: f) (auto simp: all_conj_distrib)
  have "f_value (set_entry e f) = f_value f" if "\<forall>k. EValue k \<noteq> e" for e f using that by (cases e) simp_all
  then show "\<forall>v. EValue v \<notin> set es \<Longrightarrow> f_value (fold set_entry es f) = f_value f"
    by (induction es arbitrary: f) (auto simp: all_conj_distrib)
  have "f_publisher (set_entry e f) = f_publisher f" if "\<forall>k. EPublisher k \<noteq> e" for e f using that by (cases e) simp_all
  then show "\<forall>p. EPublisher p \<notin> set es \<Longrightarrow> f_publisher (fold set_entry es f) = f_publisher f"
    by (induction es arbitrary: f) (auto simp: all_conj_distrib)
qed

lemma fold_set_entry_present:
  assumes "distinct (map entry_kind es)"
  shows "EKey k \<in> set es \<Longrightarrow> f_key (fold set_entry es f) = Some k"
    and "EValue v \<in> set es \<Longrightarrow> f_value (fold set_entry es f) = Some v"
    and "EPublisher p \<in> set es \<Longrightarrow> f_publisher (fold set_entry es f) = Some p"
proof -
  have split: "\<exists>xs ys. es = xs @ e # ys \<and> (\<forall>e' \<in> set ys. entry_kind e' \<noteq> entry_kind e)" if "e \<in> set es" for e
  proof -
    from split_list [OF that] obtain xs ys where "es = xs @ e # ys" by blast
    moreover from this assms have "\<forall>e' \<in> set ys. entry_kind e' \<noteq> entry_kind e" by (auto simp: image_iff)
    ultimately show ?thesis by blast
  qed
  show "f_key (fold set_entry es f) = Some k" if k: "EKey k \<in> set es"
  proof -
    obtain xs ys where es: "es = xs @ EKey k # ys" and "\<forall>e' \<in> set ys. entry_kind e' \<noteq> entry_kind (EKey k)"
      using split [OF k] by blast
    then have "\<forall>x. EKey x \<notin> set ys" by fastforce
    then show ?thesis by (simp add: es fold_set_entry_absent(1))
  qed
  show "f_value (fold set_entry es f) = Some v" if v: "EValue v \<in> set es"
  proof -
    obtain xs ys where es: "es = xs @ EValue v # ys" and "\<forall>e' \<in> set ys. entry_kind e' \<noteq> entry_kind (EValue v)"
      using split [OF v] by blast
    then have "\<forall>x. EValue x \<notin> set ys" by fastforce
    then show ?thesis by (simp add: es fold_set_entry_absent(2))
  qed
  show "f_publisher (fold set_entry es f) = Some p" if p: "EPublisher p \<in> set es"
  proof -
    obtain xs ys where es: "es = xs @ EPublisher p # ys" and "\<forall>e' \<in> set ys. entry_kind e' \<noteq> entry_kind (EPublisher p)"
      using split [OF p] by blast
    then have "\<forall>x. EPublisher x \<notin> set ys" by fastforce
    then show ?thesis by (simp add: es fold_set_entry_absent(3))
  qed
qed

text \<open>
  The documents that are accepted: no field twice, a key and a value, and a publisher that is a
  peer id where there is one. A value that is not base64 is accepted as an empty value.
\<close>

lemma visit_map_accepts_iff:
  "(\<exists>r. fst (visit_map env es w) = Inr r) \<longleftrightarrow>
     distinct (map entry_kind es) \<and> (\<exists>k. EKey k \<in> set es) \<and> (\<exists>v. EValue v \<in> set es)
     \<and> (\<forall>p. EPublisher (Some p) \<in> set es \<longrightarrow> (\<exists>peer. peer_from_base58 env p = Inr peer))"
proof (cases "visit_entries es no_fields")
  case (Inl err)
  then have "\<not> distinct (map entry_kind es)"
    using visit_entries_iff [of es no_fields "fold set_entry es no_fields"] by (simp add: kinds_of_def no_fields_def)
  with Inl show ?thesis by (simp add: visit_map_def)
next
  case (Inr f)
  then have d: "distinct (map entry_kind es)" and f: "f = fold set_entry es no_fields"
    by (simp_all add: visit_entries_iff)
  have k: "f_key f \<noteq> None \<longleftrightarrow> (\<exists>k. EKey k \<in> set es)"
    using fold_set_entry_present(1) [OF d, of _ no_fields] fold_set_entry_absent(1) [of es no_fields]
    by (cases "\<exists>k. EKey k \<in> set es") (auto simp: f no_fields_def)
  have v: "f_value f \<noteq> None \<longleftrightarrow> (\<exists>v. EValue v \<in> set es)"
    using fold_set_entry_present(2) [OF d, of _ no_fields] fold_set_entry_absent(2) [of es no_fields]
    by (cases "\<exists>v. EValue v \<in> set es") (auto simp: f no_fields_def)
  have p: "f_publisher f = Some (Some p) \<longleftrightarrow> EPublisher (Some p) \<in> set es" for p
    using fold_set_entry_present(3) [OF d, of _ no_fields] fold_set_entry_absent(3) [of es no_fields]
    by (cases "\<exists>p. EPublisher p \<in> set es") (auto simp: f no_fields_def)
  have "(\<exists>r. fst (visit_map env es w) = Inr r) \<longleftrightarrow> f_key f \<noteq> None \<and> f_value f \<noteq> None
      \<and> (\<forall>p. f_publisher f = Some (Some p) \<longrightarrow> (\<exists>peer. peer_from_base58 env p = Inr peer))"
    by (auto simp: visit_map_def Inr Let_def split: option.splits sum.splits prod.splits)
  with d k v p show ?thesis by simp
qed

section \<open>Files\<close>

text \<open>What the source relies on of the files below the prefix; \<open>content\<close> reads them.\<close>

definition fs_ok :: "'w storage_env \<Rightarrow> ('w \<Rightarrow> string \<Rightarrow> bytes option) \<Rightarrow> bool" where
  "fs_ok env content \<longleftrightarrow>
     (\<forall>p b w r w'. fs_put env p b w = (r, w') \<longrightarrow>
        content w' = (case r of Inr _ \<Rightarrow> (content w)(p \<mapsto> b) | Inl _ \<Rightarrow> content w)) \<and>
     (\<forall>p w r w'. fs_get env p w = (r, w') \<longrightarrow> content w' = content w \<and>
        (\<forall>stream chunks. r = Inr stream \<longrightarrow> collect_stream stream = Inr chunks \<longrightarrow> content w p = Some (concat chunks))) \<and>
     (\<forall>p w r w'. fs_delete env p w = (r, w') \<longrightarrow>
        content w' = (case r of Inr _ \<Rightarrow> (content w)(p := None) | Inl _ \<Rightarrow> content w)) \<and>
     (\<forall>w r w'. fs_list env w = (r, w') \<longrightarrow> content w' = content w \<and>
        (\<forall>metas ps. r = Inr metas \<longrightarrow> collect_stream metas = Inr ps \<longrightarrow> set ps = dom (content w))) \<and>
     (\<forall>w. content (snd (instant_now env w)) = content w)"

text \<open>A file that is there can be read to its end.\<close>

definition fs_readable :: "'w storage_env \<Rightarrow> ('w \<Rightarrow> string \<Rightarrow> bytes option) \<Rightarrow> bool" where
  "fs_readable env content \<longleftrightarrow> (\<forall>p w. content w p \<noteq> None \<longrightarrow>
     (case fst (fs_get env p w) of Inr stream \<Rightarrow> \<not> isl (collect_stream stream) | Inl _ \<Rightarrow> False))"

definition storage_ok :: "'w storage_env \<Rightarrow> bool" where
  "storage_ok env \<longleftrightarrow> codecs_ok env \<and> (\<exists>content. fs_ok env content)"

lemma io_call_cases:
  assumes "io_call wrap f w = (r, w')"
  obtains e where "f w = (Inl e, w')" "r = Err (wrap e)" | x where "f w = (Inr x, w')" "r = Ok x"
  using assms by (auto simp: io_call_def act_result_def act_simps split: prod.splits sum.splits)

lemma fs_ok_clock: "fs_ok env content \<Longrightarrow> content (snd (instant_now env w)) = content w"
  by (simp add: fs_ok_def)

lemma storage_put_ok:
  assumes "fs_ok env content" "storage_put env r w = (Ok (), w')"
  shows "\<exists>p es v bs. from_utf8 (rec_key r) = Some p \<and> serialize env r w = (es, v) \<and> yaml_to_string env es = Inr bs
    \<and> content w' = (content w)(object_path env p \<mapsto> bs)"
proof -
  obtain p where p: "from_utf8 (rec_key r) = Some p"
    using assms(2) by (auto simp: storage_put_def key_to_path_def act_bind_def act_simps split: option.splits)
  obtain es v where es: "serialize env r w = (es, v)" by (cases "serialize env r w")
  have "content v = content w" using fs_ok_clock [OF assms(1), of w] es
    by (auto simp: serialize_def Let_def split: option.splits prod.splits)
  obtain bs where bs: "yaml_to_string env es = Inr bs"
    and put: "io_call ObjectStoreError (fs_put env (object_path env p) bs) v = (Ok (), w')"
    using assms(2) p es by (cases "yaml_to_string env es")
      (auto simp: storage_put_def key_to_path_def act_bind_def act_simps)
  from put have "fs_put env (object_path env p) bs v = (Inr (), w')" by (cases rule: io_call_cases) auto
  with assms(1) \<open>content v = content w\<close> have "content w' = (content w)(object_path env p \<mapsto> bs)"
    unfolding fs_ok_def by fastforce
  with p es bs show ?thesis by blast
qed

lemma storage_get_ok:
  assumes "fs_ok env content" "storage_get env p w = (Ok r, w')" "content w (object_path env p) = Some bs"
  shows "\<exists>es v. yaml_from_slice env bs = Inr es \<and> visit_map env es v = (Inr r, w')"
proof -
  obtain stream v where s: "io_call ObjectStoreError (fs_get env (object_path env p)) w = (Ok stream, v)"
    and rest: "act_bind (act_result StorageConvertToStreamFailed (collect_stream stream)) (\<lambda>chunks.
     act_bind (act_result StorageGetSerdeError (yaml_from_slice env (concat chunks))) (\<lambda>es.
     io_call StorageGetSerdeError (visit_map env es))) v = (Ok r, w')"
    using assms(2) unfolding storage_get_def by (rule act_bind_OkE)
  obtain chunks where c: "collect_stream stream = Inr chunks"
    using rest by (cases "collect_stream stream") (auto simp: act_simps)
  from s have "fs_get env (object_path env p) w = (Inr stream, v)" by (cases rule: io_call_cases) auto
  with assms(1,3) c have "bs = concat chunks" unfolding fs_ok_def by (metis option.inject)
  with rest c show ?thesis
    by (cases "yaml_from_slice env bs") (auto simp: act_simps elim!: io_call_cases)
qed

lemma storage_get_reads:
  assumes "fs_ok env content" "fs_readable env content" "content w (object_path env p) = Some bs"
    and "yaml_from_slice env bs = Inr es" "\<And>v. \<exists>r v'. visit_map env es v = (Inr r, v')"
  shows "\<exists>r w'. storage_get env p w = (Ok r, w')"
proof -
  obtain q v where g: "fs_get env (object_path env p) w = (q, v)" by (cases "fs_get env (object_path env p) w")
  have "case q of Inr stream \<Rightarrow> \<not> isl (collect_stream stream) | Inl _ \<Rightarrow> False"
    using assms(2,3) g unfolding fs_readable_def by (metis fst_conv option.distinct(1))
  then obtain stream chunks where s: "q = Inr stream" "collect_stream stream = Inr chunks"
    by (cases q; cases "collect_stream (projr q)") auto
  with assms(1,3) g have "concat chunks = bs" unfolding fs_ok_def by (metis option.inject)
  moreover obtain r v' where "visit_map env es v = (Inr r, v')" using assms(5) by blast
  ultimately show ?thesis using g s assms(4)
    by (simp add: storage_get_def io_call_def act_bind_def act_simps)
qed

section \<open>The interface to the record store\<close>

text \<open>
  \<open>same_content\<close> is what Kademlia relies on of a stored record: everything but its expiry.
\<close>

definition same_content :: "kad_record \<Rightarrow> kad_record \<Rightarrow> bool" where
  "same_content r r' \<longleftrightarrow> rec_key r' = rec_key r \<and> rec_value r' = rec_value r \<and> rec_publisher r' = rec_publisher r"

locale record_storage =
  fixes ok :: "'e \<Rightarrow> bool"
    and put :: "'e \<Rightarrow> kad_record \<Rightarrow> ('w, unit) action"
    and get :: "'e \<Rightarrow> string \<Rightarrow> ('w, kad_record) action"
  assumes put_utf8: "put e r w = (Ok (), w') \<Longrightarrow> valid_utf8 (rec_key r)"
    and get_after_put: "ok e \<Longrightarrow> put e r w = (Ok (), w') \<Longrightarrow> from_utf8 (rec_key r) = Some p \<Longrightarrow>
      get e p w' = (Ok r', w'') \<Longrightarrow> same_content r r'"
begin

lemma store_get_total: "\<exists>x w'. store_get (get e) k w = (Ok x, w')"
  by (simp add: store_get_def key_to_path_def act_spawn_def act_try_def act_simps
      split: option.split prod.split outcome.split)

lemma store_put_get:
  assumes "ok e" "store_put (put e) cfg r w = (Ok (Inr ()), w')"
    and "store_get (get e) (rec_key r) w' = (Ok (Some r'), w'')"
  shows "same_content r r' \<and> length (rec_value r) < max_value_bytes cfg"
proof -
  have put: "put e r w = (Ok (), w')" and len: "length (rec_value r) < max_value_bytes cfg"
    using assms(2) by (auto simp: store_put_def act_spawn_def act_simps split: if_splits prod.splits outcome.splits)
  have "from_utf8 (rec_key r) = Some (byte_string (rec_key r))"
    using put_utf8 [OF put] by (simp add: from_utf8_def)
  moreover have "get e (byte_string (rec_key r)) w' = (Ok r', w'')"
    using assms(3) put_utf8 [OF put]
    by (auto simp: store_get_def key_to_path_def from_utf8_def act_spawn_def act_try_def act_simps
        split: prod.splits outcome.splits)
  ultimately show ?thesis using get_after_put [OF assms(1) put] len by blast
qed

lemma store_put_error:
  assumes "store_put (put e) cfg r w = (Ok (Inl err), w')"
  shows "err = ValueTooLarge \<and> max_value_bytes cfg \<le> length (rec_value r) \<and> w' = w
       \<or> err = MaxRecords \<and> fst (put e r w) \<noteq> Ok () \<and> length (rec_value r) < max_value_bytes cfg"
  using assms by (auto simp: store_put_def act_spawn_def act_simps split: if_splits prod.splits outcome.splits)

end

text \<open>
  A storage that can be read returns what was put, in every state in which \<open>kept\<close> says that nothing else was written in its place.
\<close>

locale readable_storage = record_storage +
  fixes reads :: "'a \<Rightarrow> bool" and kept :: "'a \<Rightarrow> string \<Rightarrow> 'b \<Rightarrow> 'b \<Rightarrow> bool"
  assumes get_kept: "ok e \<Longrightarrow> reads e \<Longrightarrow> put e r w = (Ok (), w') \<Longrightarrow> from_utf8 (rec_key r) = Some p \<Longrightarrow>
    kept e p w' v \<Longrightarrow> \<exists>r' v'. get e p v = (Ok r', v') \<and> same_content r r'"
begin

lemma store_put_found:
  assumes "ok e" "reads e" "store_put (put e) cfg r w = (Ok (Inr ()), w')" "kept e (byte_string (rec_key r)) w' v"
  shows "\<exists>r' v'. store_get (get e) (rec_key r) v = (Ok (Some r'), v') \<and> same_content r r'
    \<and> length (rec_value r) < max_value_bytes cfg"
proof -
  have p: "put e r w = (Ok (), w')" and len: "length (rec_value r) < max_value_bytes cfg"
    using assms(3) by (auto simp: store_put_def act_spawn_def act_simps split: if_splits prod.splits outcome.splits)
  have u: "from_utf8 (rec_key r) = Some (byte_string (rec_key r))" using put_utf8 [OF p] by (simp add: from_utf8_def)
  obtain r' v' where "get e (byte_string (rec_key r)) v = (Ok r', v')" "same_content r r'"
    using get_kept [OF assms(1,2) p u assms(4)] by blast
  with u len show ?thesis
    by (simp add: store_get_def key_to_path_def act_spawn_def act_try_def act_simps)
qed

end

lemma storage_put_utf8: "storage_put env r w = (Ok (), w') \<Longrightarrow> valid_utf8 (rec_key r)"
  by (auto simp: storage_put_def key_to_path_def from_utf8_def act_bind_def act_simps split: if_splits)

lemma storage_get_after_put:
  assumes "storage_ok env" "storage_put env r w = (Ok (), w')" "from_utf8 (rec_key r) = Some p"
    and "storage_get env p w' = (Ok r', w'')"
  shows "same_content r r'"
proof -
  obtain content where c: "codecs_ok env" "fs_ok env content" using assms(1) by (auto simp: storage_ok_def)
  obtain es v bs where s: "serialize env r w = (es, v)" "yaml_to_string env es = Inr bs"
    "content w' (object_path env p) = Some bs"
    using storage_put_ok [OF c(2) assms(2)] assms(3) by auto
  then have "yaml_from_slice env bs = Inr es" using c(1) by (simp add: codecs_ok_def)
  then obtain u where "visit_map env es u = (Inr r', w'')"
    using storage_get_ok [OF c(2) assms(4) s(3)] by auto
  then show ?thesis
    using visit_serialized [OF c(1) storage_put_utf8 [OF assms(2)] s(1), of u]
    by (simp add: same_content_def reexpired_def)
qed

interpretation local_storage: record_storage storage_ok storage_put storage_get
  by unfold_locales (rule storage_put_utf8, assumption, rule storage_get_after_put)

text \<open>For the second contract a storage is its environment and what reads its files.\<close>

lemma storage_get_kept:
  assumes "codecs_ok env" "fs_ok env content" "fs_readable env content" "storage_put env r w = (Ok (), w')"
    and "from_utf8 (rec_key r) = Some p" "content v (object_path env p) = content w' (object_path env p)"
  shows "\<exists>r' v'. storage_get env p v = (Ok r', v') \<and> same_content r r'"
proof -
  obtain es u bs where s: "serialize env r w = (es, u)" "yaml_to_string env es = Inr bs" "content v (object_path env p) = Some bs"
    using storage_put_ok [OF assms(2,4)] assms(5,6) by auto
  then have y: "yaml_from_slice env bs = Inr es" using assms(1) by (simp add: codecs_ok_def)
  note doc = visit_serialized [OF assms(1) storage_put_utf8 [OF assms(4)] s(1)]
  have "\<exists>r v'. visit_map env es x = (Inr r, v')" for x using doc [of x] by (cases "visit_map env es x") auto
  then obtain r' v' where g: "storage_get env p v = (Ok r', v')"
    using storage_get_reads [OF assms(2,3) s(3) y] by blast
  with storage_get_ok [OF assms(2) g s(3)] y obtain x where "visit_map env es x = (Inr r', v')" by auto
  with g doc [of x] show ?thesis by (auto simp: same_content_def reexpired_def)
qed

interpretation readable_files: readable_storage
  "\<lambda>e. codecs_ok (fst e) \<and> fs_ok (fst e) (snd e)" "\<lambda>e. storage_put (fst e)" "\<lambda>e. storage_get (fst e)"
  "\<lambda>e. fs_readable (fst e) (snd e)" "\<lambda>e p w v. snd e v (object_path (fst e) p) = snd e w (object_path (fst e) p)"
proof
  show "same_content r r'" if "codecs_ok (fst e) \<and> fs_ok (fst e) (snd e)" "storage_put (fst e) r w = (Ok (), w')"
    "from_utf8 (rec_key r) = Some p" "storage_get (fst e) p w' = (Ok r', w'')"
    for e :: "'b storage_env \<times> ('b \<Rightarrow> string \<Rightarrow> bytes option)" and r w w' p r' w''
    using that by (intro storage_get_after_put [of "fst e"]) (auto simp: storage_ok_def)
  show "\<exists>r' v'. storage_get (fst e) p v = (Ok r', v') \<and> same_content r r'"
    if "codecs_ok (fst e) \<and> fs_ok (fst e) (snd e)" "fs_readable (fst e) (snd e)" "storage_put (fst e) r w = (Ok (), w')"
    "from_utf8 (rec_key r) = Some p" "snd e v (object_path (fst e) p) = snd e w' (object_path (fst e) p)"
    for e :: "'b storage_env \<times> ('b \<Rightarrow> string \<Rightarrow> bytes option)" and r w w' p v
    using that storage_get_kept [of "fst e" "snd e"] by blast
qed (rule storage_put_utf8)

text \<open>
  C22: What Kademlia stores it gets back: a record that the record store accepted is found again by its key, with the same key, value and publisher,
  in every later state in which the file of the record is still the one that was written; and its value is smaller than the
  configured limit. This relies on files that can be read and on codecs that decode what they encoded.
\<close>

theorem record_store_put_get:
  assumes "codecs_ok env" "fs_ok env content" "fs_readable env content"
    and "store_put (storage_put env) cfg r w = (Ok (Inr ()), w')"
    and "content v (object_path env (byte_string (rec_key r))) = content w' (object_path env (byte_string (rec_key r)))"
  shows "\<exists>r' v'. store_get (storage_get env) (rec_key r) v = (Ok (Some r'), v') \<and> same_content r r'
    \<and> length (rec_value r) < max_value_bytes cfg"
  using readable_files.store_put_found [of "(env, content)"] assms by simp

text \<open>
  Every refusal of the record store is one of two: a value of at least the maximal size, which
  leaves the files alone, or a failure of the storage, which is reported as too many records.
\<close>

lemma record_store_put_error:
  assumes "store_put (storage_put env) cfg r w = (Ok (Inl err), w')"
  shows "err = ValueTooLarge \<and> max_value_bytes cfg \<le> length (rec_value r) \<and> w' = w
       \<or> err = MaxRecords \<and> fst (storage_put env r w) \<noteq> Ok () \<and> length (rec_value r) < max_value_bytes cfg"
  using assms by (rule local_storage.store_put_error)

section \<open>Files in memory\<close>

record fs_world =
  files :: "(string \<times> bytes) list"
  clock :: int

definition doc_encode :: "entry list \<Rightarrow> ext_error + bytes" where
  "doc_encode es = (case es of
     [EKey k, EPublisher None, EExpires e, EValue v] \<Rightarrow>
       if length k < 256 \<and> (case e of None \<Rightarrow> True | Some d \<Rightarrow> 0 \<le> d \<and> d < 256)
       then Inr (of_nat (length k) # as_bytes k @ (case e of None \<Rightarrow> [0, 0] | Some d \<Rightarrow> [1, of_int d]) @ as_bytes v)
       else Inl ''unsupported''
   | _ \<Rightarrow> Inl ''unsupported'')"

definition doc_decode :: "bytes \<Rightarrow> ext_error + entry list" where
  "doc_decode bs = (case bs of
     [] \<Rightarrow> Inl ''empty''
   | n # cs \<Rightarrow> (let k = take (unat n) cs; ds = drop (unat n) cs in
       Inr [EKey (byte_string k), EPublisher None,
            EExpires (if take 1 ds = [0] then None else Some (uint (ds ! 1))), EValue (byte_string (drop 2 ds))]))"

definition mem_env :: "fs_world storage_env" where
  "mem_env =
     \<lparr>b64_encode = byte_string, b64_decode = \<lambda>s. Some (as_bytes s),
      peer_to_base58 = \<lambda>p. (case p of PeerId bs \<Rightarrow> byte_string bs), peer_from_base58 = \<lambda>s. Inr (PeerId (as_bytes s)),
      yaml_to_string = doc_encode, yaml_from_slice = doc_decode, object_path = \<lambda>s. s,
      fs_put = \<lambda>p b w. (Inr (), w\<lparr>files := (p, b) # filter (\<lambda>f. fst f \<noteq> p) (files w)\<rparr>),
      fs_get = \<lambda>p w. (case map_of (files w) p of None \<Rightarrow> (Inl ''not found'', w) | Some b \<Rightarrow> (Inr [Inr b], w)),
      fs_delete = \<lambda>p w. (if map_of (files w) p = None then (Inl ''not found'', w)
                          else (Inr (), w\<lparr>files := filter (\<lambda>f. fst f \<noteq> p) (files w)\<rparr>)),
      fs_list = \<lambda>w. (Inr (map (\<lambda>f. Inr (fst f)) (files w)), w),
      instant_now = \<lambda>w. (clock w, w\<lparr>clock := clock w + 1\<rparr>)\<rparr>"

lemma doc_decode_encode: "doc_encode es = Inr bs \<Longrightarrow> doc_decode bs = Inr es"
  by (auto simp: doc_encode_def doc_decode_def Let_def unat_of_nat uint_word_of_int
      split: list.splits entry.splits option.splits if_splits)

lemma collect_stream_Inr: "collect_stream (map (\<lambda>x. Inr (f x)) xs) = Inr (map f xs)"
  by (induction xs) simp_all

lemma map_of_filter_neq: "map_of (filter (\<lambda>f. fst f \<noteq> p) xs) = (map_of xs)(p := None)"
  by (induction xs) (auto simp: fun_eq_iff)

lemma mem_env_laws:
  "codecs_ok mem_env" "fs_ok mem_env (\<lambda>w. map_of (files w))" "fs_readable mem_env (\<lambda>w. map_of (files w))"
proof -
  show "codecs_ok mem_env"
    by (auto simp: codecs_ok_def mem_env_def doc_decode_encode split: peer_id.splits)
  show "fs_ok mem_env (\<lambda>w. map_of (files w))"
    by (auto simp: fs_ok_def mem_env_def collect_stream_Inr map_of_filter_neq dom_map_of_conv_image_fst
        split: option.splits if_splits)
  show "fs_readable mem_env (\<lambda>w. map_of (files w))"
    by (auto simp: fs_readable_def mem_env_def)
qed

lemma mem_env_ok: "storage_ok mem_env"
  using mem_env_laws by (auto simp: storage_ok_def)

text \<open>A record that expires in 100 ns, and the world after it was stored at time 5.\<close>

definition sample_record :: kad_record where
  "sample_record = \<lparr>rec_key = as_bytes ''k'', rec_value = [1, 2], rec_publisher = None, rec_expires = Some 105\<rparr>"

definition sample_world :: fs_world where "sample_world = \<lparr>files = [], clock = 5\<rparr>"

definition small_config :: local_store_config where
  "small_config = \<lparr>max_records = 1, max_value_bytes = 3, max_providers_per_key = 1, max_provided_keys = 1\<rparr>"

lemma stored_shape: "(case fst p of Ok (Inr _) \<Rightarrow> True | _ \<Rightarrow> False) \<Longrightarrow> \<exists>w'. p = (Ok (Inr ()), w')"
  by (cases p) (auto split: outcome.splits sum.splits)

lemma sample_put: "\<exists>w'. store_put (storage_put mem_env) small_config sample_record sample_world = (Ok (Inr ()), w')"
proof (rule stored_shape)
  show "case fst (store_put (storage_put mem_env) small_config sample_record sample_world) of Ok (Inr _) \<Rightarrow> True | _ \<Rightarrow> False"
    by code_simp
qed

theorem record_store_put_get_witness:
  "\<exists>r' w' w''. store_put (storage_put mem_env) small_config sample_record sample_world = (Ok (Inr ()), w')
     \<and> store_get (storage_get mem_env) (rec_key sample_record) w' = (Ok (Some r'), w'')
     \<and> rec_value r' = [1, 2]"
proof -
  obtain w' where *: "store_put (storage_put mem_env) small_config sample_record sample_world = (Ok (Inr ()), w')"
    using sample_put by blast
  with record_store_put_get [OF mem_env_laws * refl] show ?thesis
    by (auto simp: same_content_def sample_record_def)
qed

theorem record_document_roundtrip_witness:
  "\<exists>r'. fst (visit_map mem_env (fst (serialize mem_env sample_record sample_world)) (sample_world\<lparr>clock := 50\<rparr>)) = Inr r'
     \<and> rec_value r' = [1, 2] \<and> rec_expires r' = Some 50"
proof -
  let ?es = "serialize mem_env sample_record sample_world" and ?v = "sample_world\<lparr>clock := 50\<rparr>"
  have e: "?es = (fst ?es, snd ?es)" and v: "visit_map mem_env (fst ?es) ?v = (fst (visit_map mem_env (fst ?es) ?v), snd (visit_map mem_env (fst ?es) ?v))"
    by simp_all
  have "codecs_ok mem_env" "valid_utf8 (rec_key sample_record)"
    using mem_env_ok by (auto simp: storage_ok_def sample_record_def as_bytes_def between_def)
  moreover have "fst (instant_now mem_env sample_world) = 5" "fst (instant_now mem_env ?v) = 50"
    "rec_expires sample_record = Some 105" "rec_value sample_record = [1, 2]"
    by (simp_all add: sample_record_def sample_world_def mem_env_def)
  ultimately show ?thesis
    using record_document_roundtrip [OF _ _ e v] v by auto
qed

text \<open>
  A key that is not UTF-8 is neither stored nor found: storing it fails before any file is
  touched, and the record store has no record for it.
\<close>

lemma non_utf8_key_refused:
  assumes "\<not> valid_utf8 (rec_key r)"
  shows "storage_put env r w = (Err Utf8Error, w) \<and> store_get get (rec_key r) w = (Ok None, w)"
  using assms by (simp add: storage_put_def store_get_def key_to_path_def from_utf8_def act_bind_def act_simps)

end
