(* ===== verification/Action_Rel.thy ===== *)
theory Action_Rel
  imports Util
begin

text \<open>
  Relations between the state before and after an action. A reflexive and transitive relation that
  holds for the steps of an action holds for the whole of it, whether it returns, fails or panics
  half-way. The locale \<open>action_relation\<close> proves this once for all ways actions are composed; its
  interpretations are the invariants and frame conditions of the components.
\<close>

definition relates :: "('s \<Rightarrow> 's \<Rightarrow> bool) \<Rightarrow> ('s, 'a) action \<Rightarrow> bool" where
  "relates R m \<longleftrightarrow> (\<forall>s r t. m s = (r, t) \<longrightarrow> R s t)"

lemma relatesI: "(\<And>s r t. m s = (r, t) \<Longrightarrow> R s t) \<Longrightarrow> relates R m"
  by (simp add: relates_def)

lemma relatesD: "relates R m \<Longrightarrow> m s = (r, t) \<Longrightarrow> R s t"
  by (simp add: relates_def)

lemma relates_mono: "relates R m \<Longrightarrow> (\<And>s t. R s t \<Longrightarrow> Q s t) \<Longrightarrow> relates Q m"
  by (auto simp: relates_def)

locale action_relation =
  fixes R :: "'s \<Rightarrow> 's \<Rightarrow> bool"
  assumes R_refl: "R s s" and R_trans: "R s t \<Longrightarrow> R t u \<Longrightarrow> R s u"
begin

lemma rel_basic: "relates R (act_return x)" "relates R (act_fail e)" "relates R act_panic"
  by (auto simp: relates_def act_simps R_refl)

lemma rel_option: "relates R (act_option x)"
  by (cases x) (auto simp: act_option_def rel_basic)

lemma rel_result: "relates R (act_result wrap x)"
  by (cases x) (auto simp: act_result_def rel_basic)

lemma rel_bind:
  assumes "relates R m" "\<And>x. relates R (f x)" shows "relates R (act_bind m f)"
proof (rule relatesI)
  fix s r u assume b: "act_bind m f s = (r, u)"
  obtain q t where m: "m s = (q, t)" by (cases "m s")
  have "u = t \<or> (\<exists>x. f x t = (r, u))" using b m by (cases q) (auto simp: act_bind_def)
  then show "R s u" using relatesD [OF assms(1) m] relatesD [OF assms(2)] R_trans by blast
qed

lemma rel_try:
  assumes "relates R m" "\<And>x. relates R (f x)" shows "relates R (act_try m f)"
proof (rule relatesI)
  fix s r u assume b: "act_try m f s = (r, u)"
  obtain q t where m: "m s = (q, t)" by (cases "m s")
  have "u = t \<or> (\<exists>x. f x t = (r, u))" using b m by (cases q) (auto simp: act_try_def)
  then show "R s u" using relatesD [OF assms(1) m] relatesD [OF assms(2)] R_trans by blast
qed

lemma rel_fold:
  assumes "\<And>x a. relates R (f x a)" shows "relates R (act_fold f xs a)"
  by (induction xs arbitrary: a) (auto simp: rel_basic intro!: rel_bind assms)

lemmas rel_compose = rel_basic rel_option rel_result rel_bind rel_try rel_fold

end

end
