(* ===== verification/Swarm.thy ===== *)
theory Swarm
  imports Storage Por Action_Rel
begin

text \<open>
  The swarm of \<^verbatim>\<open>src/p2p/swarm.rs\<close>: the loop that takes instructions from the controller and events
  from the network, the tables of pending queries and requests, and all handlers.

  \<open>'w behaviour\<close> holds the foreign code: Kademlia, the request-response protocol, and the wall clock.
  Kademlia calls back into the record store, which is the one of \<open>Storage\<close>. A oneshot channel is a
  number: \<open>replies\<close> holds the values sent, \<open>closed\<close> the channels whose receiver was dropped, and \<open>handed\<close> the
  receivers handed to the controller over the channels of the commands, which \<open>gone\<close> lists when their receiver
  was dropped. \<open>swarm_run\<close> is the loop of \<^verbatim>\<open>start\<close> on a sequence of inputs; the first
  error ends it.
\<close>

section \<open>Messages and events\<close>

datatype query_response =
    QPut (sender: chan)
  | QPutTo (sender: chan)
  | QGet (sender: chan)
  | QGetProviders (sender: chan)
  | QStartProviding (sender: chan)
  | QGetClosestPeers (sender: chan)
  | QVerificationRequest (sender: chan)

record query_get_response =
  qg_file :: bytes
  qg_origin_peer_id :: peer_id

record verification_request =
  vq_file_name :: string
  vq_challenge_vector :: "u64 list"

record verification_response =
  vr_file_name :: string
  vr_response_vector :: "u64 list"

text \<open>The result sent over a channel.\<close>

datatype (plugins only: code size) reply =
    ReplyUnit "error_kind + unit"
  | ReplyGet "error_kind + query_get_response"
  | ReplyProviders "error_kind + peer_id set"
  | ReplyPeers "error_kind + peer_id list"
  | ReplyVerification "error_kind + verification_response"

text \<open>The results of Kademlia queries, as far as the handlers look at them.\<close>

datatype get_record_ok = FoundRecord kad_record "peer_id option" | FinishedWithNoAdditionalRecord

datatype get_providers_ok = FoundProviders "peer_id set" | NoAdditionalProviders

datatype query_result =
    GetRecord "ext_error + get_record_ok"
  | PutRecord "ext_error + unit"
  | GetProviders "ext_error + get_providers_ok"
  | GetClosestPeers "ext_error + peer_id list"
  | StartProviding "ext_error + unit"
  | OtherResult

datatype kademlia_event =
    OutboundQueryProgressed query_result query_id
  | RoutingUpdated
  | InboundRequest
  | OtherKademliaEvent

type_synonym response_channel = nat

datatype reqres_event =
    MessageRequest verification_request response_channel
  | MessageResponse request_id verification_response
  | ResponseSent peer_id request_id
  | InboundFailure peer_id request_id ext_error
  | OutboundFailure peer_id request_id ext_error

datatype wire_event =
    Kademlia kademlia_event
  | MdnsDiscovered "(peer_id \<times> string) list"
  | MdnsOther
  | ReqRes reqres_event

datatype swarm_event = NewListenAddr string | BehaviourEvent wire_event | OtherSwarmEvent

section \<open>The node\<close>

record 'w node =
  outside :: 'w
  queries :: "query_id \<Rightarrow> query_response option"
  requests :: "request_id \<Rightarrow> query_response option"
  next_chan :: chan
  handed :: "chan \<Rightarrow> chan option"
  replies :: "chan \<Rightarrow> reply option"
  closed :: "chan set"
  gone :: "chan set"
  deleted_files :: "string \<Rightarrow> int option"

type_synonym 'w store_put_fun = "kad_record \<Rightarrow> ('w, store_error + unit) action"
type_synonym 'w store_provide_fun = "bytes \<Rightarrow> ('w, store_error + unit) action"

record 'w behaviour =
  kad_put_record :: "'w store_put_fun \<Rightarrow> kad_record \<Rightarrow> ('w, ext_error + query_id) action"
  kad_put_record_to :: "kad_record \<Rightarrow> peer_id list \<Rightarrow> 'w \<Rightarrow> query_id \<times> 'w"
  kad_get_record :: "bytes \<Rightarrow> 'w \<Rightarrow> query_id \<times> 'w"
  kad_get_providers :: "bytes \<Rightarrow> 'w \<Rightarrow> query_id \<times> 'w"
  kad_get_closest_peers :: "bytes \<Rightarrow> 'w \<Rightarrow> query_id \<times> 'w"
  kad_start_providing :: "'w store_provide_fun \<Rightarrow> bytes \<Rightarrow> ('w, ext_error + query_id) action"
  kad_add_address :: "peer_id \<Rightarrow> string \<Rightarrow> 'w \<Rightarrow> 'w"
  rr_send_request :: "peer_id \<Rightarrow> verification_request \<Rightarrow> 'w \<Rightarrow> request_id \<times> 'w"
  rr_send_response :: "response_channel \<Rightarrow> verification_response \<Rightarrow> 'w \<Rightarrow> bool \<times> 'w"
  system_time :: "'w \<Rightarrow> int \<times> 'w"
  uuid_as_bytes :: "uuid \<Rightarrow> bytes"

definition lift_outside :: "('w, 'a) action \<Rightarrow> ('w node, 'a) action" where
  "lift_outside m n = (case m (outside n) of (r, w') \<Rightarrow> (r, n\<lparr>outside := w'\<rparr>))"

definition lift_pure :: "('w \<Rightarrow> 'a \<times> 'w) \<Rightarrow> ('w node, 'a) action" where
  "lift_pure f n = (case f (outside n) of (x, w') \<Rightarrow> (Ok x, n\<lparr>outside := w'\<rparr>))"

text \<open>\<^verbatim>\<open>oneshot::channel()\<close> and \<^verbatim>\<open>resp.send(receiver)?\<close>.\<close>

definition open_channel :: "chan \<Rightarrow> ('w node, chan) action" where
  "open_channel resp n =
     (let c = next_chan n; n' = n\<lparr>next_chan := c + 1\<rparr> in
      if resp \<in> gone n then (Err from_receiver, n')
      else (Ok c, n'\<lparr>handed := (handed n)(resp \<mapsto> c)\<rparr>))"

text \<open>\<^verbatim>\<open>sender.send(value)\<close>: fails when the receiver is gone.\<close>

definition send_reply :: "error_kind \<Rightarrow> chan \<Rightarrow> reply \<Rightarrow> ('w node, unit) action" where
  "send_reply err c r n =
     (if c \<in> closed n then (Err err, n) else (Ok (), n\<lparr>replies := (replies n)(c \<mapsto> r)\<rparr>))"

definition take_query :: "query_id \<Rightarrow> ('w node, query_response option) action" where
  "take_query i n = (Ok (queries n i), n\<lparr>queries := (queries n)(i := None)\<rparr>)"

definition take_request :: "request_id \<Rightarrow> ('w node, query_response option) action" where
  "take_request i n = (Ok (requests n i), n\<lparr>requests := (requests n)(i := None)\<rparr>)"

definition insert_query :: "query_id \<Rightarrow> query_response \<Rightarrow> ('w node, unit) action" where
  "insert_query i q n = (Ok (), n\<lparr>queries := (queries n)(i \<mapsto> q)\<rparr>)"

definition insert_request :: "request_id \<Rightarrow> query_response \<Rightarrow> ('w node, unit) action" where
  "insert_request i q n = (Ok (), n\<lparr>requests := (requests n)(i \<mapsto> q)\<rparr>)"

section \<open>Events\<close>

definition handle_reqres_message_request :: "'w behaviour \<Rightarrow> 'w storage_env \<Rightarrow> verification_request \<Rightarrow>
    response_channel \<Rightarrow> ('w node, unit) action" where
  "handle_reqres_message_request beh env request channel =
     act_try (lift_outside (storage_get env (vq_file_name request))) (\<lambda>res.
     case res of
       Inr f \<Rightarrow>
         act_bind (act_option (server_from_file (rec_value f))) (\<lambda>server.
         act_bind (act_option (fulfill_challenge server (vq_challenge_vector request))) (\<lambda>response.
         act_bind (lift_pure (rr_send_response beh channel
             \<lparr>vr_file_name = vq_file_name request, vr_response_vector = response\<rparr>)) (\<lambda>sent.
         if sent then act_return () else act_fail SwarmReqResSendResponseError)))
     | Inl _ \<Rightarrow>
         act_bind (\<lambda>n. (Ok (deleted_files n (vq_file_name request)),
             n\<lparr>deleted_files := (deleted_files n)(vq_file_name request := None)\<rparr>)) (\<lambda>deleted_at.
         act_bind (case deleted_at of
             None \<Rightarrow> act_return ()
           | Some t \<Rightarrow> act_bind (lift_pure (system_time beh)) (\<lambda>now. if now < t then act_panic else act_return ())) (\<lambda>_.
         act_bind (lift_pure (rr_send_response beh channel
             \<lparr>vr_file_name = vq_file_name request, vr_response_vector = []\<rparr>)) (\<lambda>sent.
         if sent then act_return () else act_fail SwarmReqResSendResponseError))))"

definition handle_reqres_message_response :: "verification_response \<Rightarrow> request_id \<Rightarrow> ('w node, unit) action" where
  "handle_reqres_message_response response i =
     act_bind (take_request i) (\<lambda>q.
     case q of
       Some (QVerificationRequest c) \<Rightarrow> send_reply SwarmReqResSendResponseError c (ReplyVerification (Inr response))
     | _ \<Rightarrow> act_fail (InvalidResponseChannelForRequest i))"

definition handle_response_sent :: "peer_id \<Rightarrow> request_id \<Rightarrow> ('w node, unit) action" where
  "handle_response_sent peer i = act_return ()"

definition handle_inbound_failure :: "peer_id \<Rightarrow> request_id \<Rightarrow> ext_error \<Rightarrow> ('w node, unit) action" where
  "handle_inbound_failure peer i err =
     act_bind (take_request i) (\<lambda>q.
     case q of
       Some (QVerificationRequest c) \<Rightarrow>
         send_reply SwarmReqResSendResponseError c (ReplyVerification (Inl (RequestInboundFailure err)))
     | _ \<Rightarrow> act_fail (InvalidResponseChannelForRequest i))"

definition handle_outbound_failure :: "peer_id \<Rightarrow> request_id \<Rightarrow> ext_error \<Rightarrow> ('w node, unit) action" where
  "handle_outbound_failure peer i err =
     act_bind (take_request i) (\<lambda>q.
     case q of
       Some (QVerificationRequest c) \<Rightarrow>
         send_reply SwarmReqResSendResponseError c (ReplyVerification (Inl (RequestOutboundFailure err)))
     | _ \<Rightarrow> act_fail (InvalidResponseChannelForRequest i))"

definition handle_start_providing :: "ext_error + unit \<Rightarrow> query_id \<Rightarrow> ('w node, unit) action" where
  "handle_start_providing message i =
     act_bind (take_query i) (\<lambda>q.
     case q of
       Some (QStartProviding c) \<Rightarrow>
         (case message of
            Inr _ \<Rightarrow> send_reply from_unit_result c (ReplyUnit (Inr ()))
          | Inl err \<Rightarrow> act_fail (SwarmStartProvidingError err))
     | _ \<Rightarrow> act_fail (InvalidResponseChannel i))"

definition handle_get_closest_peers :: "ext_error + peer_id list \<Rightarrow> query_id \<Rightarrow> ('w node, unit) action" where
  "handle_get_closest_peers message i =
     act_bind (take_query i) (\<lambda>q.
     case q of
       Some (QGetClosestPeers c) \<Rightarrow>
         (case message of
            Inr peers \<Rightarrow> send_reply from_peers_result c (ReplyPeers (Inr peers))
          | Inl err \<Rightarrow> act_fail (SwarmGetClosestPeersError err))
     | _ \<Rightarrow> act_fail (InvalidResponseChannel i))"

definition handle_get_providers :: "ext_error + get_providers_ok \<Rightarrow> query_id \<Rightarrow> ('w node, unit) action" where
  "handle_get_providers message i =
     act_bind (take_query i) (\<lambda>q.
     case q of
       Some (QGetProviders c) \<Rightarrow>
         (case message of
            Inr (FoundProviders providers) \<Rightarrow> send_reply from_providers_result c (ReplyProviders (Inr providers))
          | Inr NoAdditionalProviders \<Rightarrow> send_reply from_providers_result c (ReplyProviders (Inl NoProvidersFound))
          | Inl err \<Rightarrow> act_fail (SwarmGetProvidersError err))
     | _ \<Rightarrow> act_fail (InvalidResponseChannel i))"

definition handle_get_record :: "peer_id \<Rightarrow> ext_error + get_record_ok \<Rightarrow> query_id \<Rightarrow> ('w node, unit) action" where
  "handle_get_record local_peer_id message i =
     act_bind (take_query i) (\<lambda>q.
     case q of
       Some (QGet c) \<Rightarrow>
         (case message of
            Inr (FoundRecord r peer) \<Rightarrow>
              send_reply from_get_result c (ReplyGet (Inr \<lparr>qg_file = rec_value r,
                qg_origin_peer_id = (case peer of Some p \<Rightarrow> p | None \<Rightarrow> local_peer_id)\<rparr>))
          | Inr _ \<Rightarrow> send_reply from_get_result c
              (ReplyGet (Inl (SwarmGetRecordUnknownError ''unexpected GetRecord result'')))
          | Inl err \<Rightarrow> send_reply from_get_result c (ReplyGet (Inl (SwarmGetRecordError err))))
     | _ \<Rightarrow> act_return ())"

definition handle_put_record :: "ext_error + unit \<Rightarrow> query_id \<Rightarrow> ('w node, unit) action" where
  "handle_put_record message i =
     act_bind (take_query i) (\<lambda>q.
     let answer = (\<lambda>c. case message of
            Inr _ \<Rightarrow> send_reply from_unit_result c (ReplyUnit (Inr ()))
          | Inl err \<Rightarrow> send_reply from_unit_result c (ReplyUnit (Inl (SwarmPutRecordError err))))
     in case q of
       Some (QPut c) \<Rightarrow> answer c
     | Some (QPutTo c) \<Rightarrow> answer c
     | _ \<Rightarrow> act_fail (InvalidResponseChannel i))"

definition handle_swarm_event :: "'w behaviour \<Rightarrow> 'w storage_env \<Rightarrow> peer_id \<Rightarrow> swarm_event \<Rightarrow> ('w node, unit) action" where
  "handle_swarm_event beh env local_peer_id ev =
     (case ev of
        NewListenAddr _ \<Rightarrow> act_return ()
      | BehaviourEvent (MdnsDiscovered peers) \<Rightarrow>
          act_fold (\<lambda>(peer, addr) _. lift_pure (\<lambda>w. ((), kad_add_address beh peer addr w))) peers ()
      | BehaviourEvent (Kademlia kev) \<Rightarrow>
          (case kev of
             OutboundQueryProgressed result i \<Rightarrow>
               (case result of
                  GetRecord message \<Rightarrow> handle_get_record local_peer_id message i
                | PutRecord message \<Rightarrow> handle_put_record message i
                | GetProviders message \<Rightarrow> handle_get_providers message i
                | GetClosestPeers message \<Rightarrow> handle_get_closest_peers message i
                | StartProviding message \<Rightarrow> handle_start_providing message i
                | OtherResult \<Rightarrow> act_return ())
           | RoutingUpdated \<Rightarrow> act_return ()
           | InboundRequest \<Rightarrow> act_return ()
           | OtherKademliaEvent \<Rightarrow> act_return ())
      | BehaviourEvent (ReqRes rr) \<Rightarrow>
          (case rr of
             MessageRequest request channel \<Rightarrow> handle_reqres_message_request beh env request channel
           | MessageResponse i response \<Rightarrow> handle_reqres_message_response response i
           | ResponseSent peer i \<Rightarrow> handle_response_sent peer i
           | InboundFailure peer i err \<Rightarrow> handle_inbound_failure peer i err
           | OutboundFailure peer i err \<Rightarrow> handle_outbound_failure peer i err)
      | BehaviourEvent MdnsOther \<Rightarrow> act_return ()
      | OtherSwarmEvent \<Rightarrow> act_return ())"

section \<open>Instructions\<close>

definition new_record :: "bytes \<Rightarrow> bytes \<Rightarrow> kad_record" where
  "new_record key value = \<lparr>rec_key = key, rec_value = value, rec_publisher = None, rec_expires = None\<rparr>"

definition handle_controller_request_verification :: "'w behaviour \<Rightarrow> peer_id \<Rightarrow> string \<Rightarrow> u64 list \<Rightarrow> chan \<Rightarrow>
    ('w node, unit) action" where
  "handle_controller_request_verification beh peer file_name challenge_vector resp =
     act_bind (open_channel resp) (\<lambda>c.
     act_bind (lift_pure (rr_send_request beh peer
        \<lparr>vq_file_name = file_name, vq_challenge_vector = challenge_vector\<rparr>)) (\<lambda>i.
     insert_request i (QVerificationRequest c)))"

definition handle_controller_start_providing :: "'w behaviour \<Rightarrow> string \<Rightarrow> chan \<Rightarrow> ('w node, unit) action" where
  "handle_controller_start_providing beh key resp =
     act_bind (open_channel resp) (\<lambda>c.
     act_bind (lift_outside (kad_start_providing beh store_add_provider (as_bytes key))) (\<lambda>res.
     act_bind (act_result from_store_error res) (\<lambda>i.
     insert_query i (QStartProviding c))))"

definition handle_controller_get_providers :: "'w behaviour \<Rightarrow> string \<Rightarrow> chan \<Rightarrow> ('w node, unit) action" where
  "handle_controller_get_providers beh key resp =
     act_bind (open_channel resp) (\<lambda>c.
     act_bind (lift_pure (kad_get_providers beh (as_bytes key))) (\<lambda>i.
     insert_query i (QGetProviders c)))"

definition handle_controller_get_closest_peers :: "'w behaviour \<Rightarrow> uuid \<Rightarrow> chan \<Rightarrow> ('w node, unit) action" where
  "handle_controller_get_closest_peers beh key resp =
     act_bind (open_channel resp) (\<lambda>c.
     act_bind (lift_pure (kad_get_closest_peers beh (uuid_as_bytes beh key))) (\<lambda>i.
     insert_query i (QGetClosestPeers c)))"

definition handle_controller_put_record_to :: "'w behaviour \<Rightarrow> string \<Rightarrow> bytes \<Rightarrow> peer_id list \<Rightarrow> chan \<Rightarrow>
    ('w node, unit) action" where
  "handle_controller_put_record_to beh key value remotes resp =
     act_bind (open_channel resp) (\<lambda>c.
     act_bind (lift_pure (kad_put_record_to beh (new_record (as_bytes key) value) remotes)) (\<lambda>i.
     insert_query i (QPutTo c)))"

definition handle_controller_put :: "'w behaviour \<Rightarrow> 'w storage_env \<Rightarrow> string \<Rightarrow> bytes \<Rightarrow> chan \<Rightarrow>
    ('w node, unit) action" where
  "handle_controller_put beh env key value resp =
     act_bind (open_channel resp) (\<lambda>c.
     act_bind (lift_outside (kad_put_record beh (store_put (storage_put env) swarm_store_config)
        (new_record (as_bytes key) value))) (\<lambda>res.
     act_bind (act_result from_store_error res) (\<lambda>i.
     insert_query i (QPut c))))"

definition handle_controller_get :: "'w behaviour \<Rightarrow> string \<Rightarrow> chan \<Rightarrow> ('w node, unit) action" where
  "handle_controller_get beh key resp =
     act_bind (open_channel resp) (\<lambda>c.
     act_bind (lift_pure (kad_get_record beh (as_bytes key))) (\<lambda>i.
     insert_query i (QGet c)))"

definition handle_controller_event :: "'w behaviour \<Rightarrow> 'w storage_env \<Rightarrow> command_to_swarm option \<Rightarrow>
    ('w node, unit) action" where
  "handle_controller_event beh env instruction =
     (case instruction of
        None \<Rightarrow> act_fail MissingInstruction
      | Some (CmdPutLocal key value resp) \<Rightarrow> handle_controller_put beh env key value resp
      | Some (CmdPutRemote key value remotes resp) \<Rightarrow> handle_controller_put_record_to beh key value remotes resp
      | Some (CmdGet key resp) \<Rightarrow> handle_controller_get beh key resp
      | Some (CmdGetProviders key resp) \<Rightarrow> handle_controller_get_providers beh key resp
      | Some (CmdGetClosestPeers key resp) \<Rightarrow> handle_controller_get_closest_peers beh key resp
      | Some (CmdStartProviding key resp) \<Rightarrow> handle_controller_start_providing beh key resp
      | Some (CmdRequestVerification peer file_uuid challenge_vector resp) \<Rightarrow>
          handle_controller_request_verification beh peer file_uuid challenge_vector resp)"

section \<open>The loop\<close>

text \<open>
  An input of the loop is an instruction or an event; between two of them a receiver may be dropped
  by whoever holds it.
\<close>

datatype input = Instruction "command_to_swarm option" | Event swarm_event | DropReceiver chan | DropCaller chan

definition swarm_step :: "'w behaviour \<Rightarrow> 'w storage_env \<Rightarrow> peer_id \<Rightarrow> input \<Rightarrow> ('w node, unit) action" where
  "swarm_step beh env lp inp =
     (case inp of
        Instruction c \<Rightarrow> handle_controller_event beh env c
      | Event ev \<Rightarrow> handle_swarm_event beh env lp ev
      | DropReceiver c \<Rightarrow> (\<lambda>n. (Ok (), n\<lparr>closed := insert c (closed n)\<rparr>))
      | DropCaller c \<Rightarrow> (\<lambda>n. (Ok (), n\<lparr>gone := insert c (gone n)\<rparr>)))"

definition swarm_run :: "'w behaviour \<Rightarrow> 'w storage_env \<Rightarrow> peer_id \<Rightarrow> input list \<Rightarrow> ('w node, unit) action" where
  "swarm_run beh env lp inputs = act_fold (\<lambda>inp _. swarm_step beh env lp inp) inputs ()"

text \<open>\<^verbatim>\<open>BenchProvider::invoke\<close>: no file is noted as deleted.\<close>

abbreviation (input) bench_provider :: "string \<rightharpoonup> int" where
  "bench_provider \<equiv> \<lambda>_. None"

definition new_node :: "'w \<Rightarrow> 'w node" where
  "new_node w = \<lparr>outside = w, queries = \<lambda>_. None, requests = \<lambda>_. None, next_chan = 0, handed = \<lambda>_. None,
     replies = \<lambda>_. None, closed = {}, gone = {}, deleted_files = bench_provider\<rparr>"

section \<open>Every channel is answered at most once\<close>

text \<open>Both tables as one: a slot is a query or a request.\<close>

definition slots :: "'w node \<Rightarrow> query_id + request_id \<Rightarrow> query_response option" where
  "slots n s = (case s of Inl i \<Rightarrow> queries n i | Inr i \<Rightarrow> requests n i)"

definition pending :: "'w node \<Rightarrow> chan set" where
  "pending n = {sender q | s q. slots n s = Some q}"

definition node_inv :: "'w node \<Rightarrow> bool" where
  "node_inv n \<longleftrightarrow>
     (\<forall>s q. slots n s = Some q \<longrightarrow> sender q < next_chan n \<and> replies n (sender q) = None) \<and>
     (\<forall>s t q p. slots n s = Some q \<longrightarrow> slots n t = Some p \<longrightarrow> sender q = sender p \<longrightarrow> s = t) \<and>
     (\<forall>c. replies n c \<noteq> None \<longrightarrow> c < next_chan n)"

lemma node_invD:
  assumes "node_inv n"
  shows "slots n s = Some q \<Longrightarrow> sender q < next_chan n"
    and "slots n s = Some q \<Longrightarrow> replies n (sender q) = None"
    and "slots n s = Some q \<Longrightarrow> slots n t = Some p \<Longrightarrow> sender q = sender p \<Longrightarrow> s = t"
    and "replies n c = Some r \<Longrightarrow> c < next_chan n"
  using assms unfolding node_inv_def by blast+

lemma slots_simps [simp]:
  "slots (n\<lparr>outside := w\<rparr>) = slots n"
  "slots (n\<lparr>next_chan := c\<rparr>) = slots n"
  "slots (n\<lparr>handed := h\<rparr>) = slots n"
  "slots (n\<lparr>replies := r\<rparr>) = slots n"
  "slots (n\<lparr>closed := x\<rparr>) = slots n"
  "slots (n\<lparr>gone := x\<rparr>) = slots n"
  "slots (n\<lparr>deleted_files := d\<rparr>) = slots n"
  "slots (n\<lparr>queries := (queries n)(i := v)\<rparr>) = (slots n)(Inl i := v)"
  "slots (n\<lparr>requests := (requests n)(i := v)\<rparr>) = (slots n)(Inr i := v)"
  by (auto simp: slots_def fun_eq_iff split: sum.splits)

text \<open>The relation between the node before and after an action that keeps the bookkeeping.\<close>

definition keeps :: "'w node \<Rightarrow> 'w node \<Rightarrow> bool" where
  "keeps n n' \<longleftrightarrow> node_inv n' \<and> next_chan n \<le> next_chan n' \<and> (\<forall>c r. replies n c = Some r \<longrightarrow> replies n' c = Some r)"

definition bookkeeping :: "'w node \<Rightarrow> 'w node \<Rightarrow> bool" where
  "bookkeeping n n' \<longleftrightarrow> (node_inv n \<longrightarrow> keeps n n')"

abbreviation preserves :: "('w node, 'a) action \<Rightarrow> bool" where
  "preserves \<equiv> relates bookkeeping"

lemma keeps_refl: "node_inv n \<Longrightarrow> keeps n n"
  by (simp add: keeps_def)

lemma keeps_trans: "keeps a b \<Longrightarrow> keeps b c \<Longrightarrow> keeps a c"
  by (auto simp: keeps_def)

lemma keeps_inv: "keeps n n' \<Longrightarrow> node_inv n'"
  by (simp add: keeps_def)

lemma preservesD: "preserves m \<Longrightarrow> node_inv n \<Longrightarrow> m n = (r, n') \<Longrightarrow> keeps n n'"
  by (auto simp: relates_def bookkeeping_def)

lemma preservesI: "(\<And>n r n'. node_inv n \<Longrightarrow> m n = (r, n') \<Longrightarrow> keeps n n') \<Longrightarrow> preserves m"
  by (auto simp: relates_def bookkeeping_def)

interpretation books: action_relation bookkeeping
  by unfold_locales (use keeps_trans in \<open>auto simp: bookkeeping_def keeps_refl dest: keeps_inv\<close>)

lemma preserves_lift: "preserves (lift_outside m)" "preserves (lift_pure f)"
  by (auto simp: relates_def bookkeeping_def lift_outside_def lift_pure_def keeps_def node_inv_def split: prod.splits)

text \<open>An answer to a query or request that was just taken out of its table.\<close>

definition answers :: "(query_response option \<Rightarrow> ('w node, unit) action) \<Rightarrow> bool" where
  "answers f \<longleftrightarrow> (\<forall>q. (\<exists>p e r. q = Some p \<and> f q = send_reply e (sender p) r)
     \<or> f q = act_return () \<or> (\<exists>e. f q = act_fail e))"

lemma slot_removed:
  assumes "node_inv n" "slots n' = (slots n)(s := None)" "next_chan n' = next_chan n" "replies n' = replies n"
  shows "node_inv n'"
  using assms node_invD [OF assms(1)] unfolding node_inv_def by (auto split: if_splits)

lemma slot_answered:
  assumes n: "node_inv n" and "slots n s = Some p" "slots n' = (slots n)(s := None)" "next_chan n' = next_chan n"
    "replies n' = (replies n)(sender p \<mapsto> r)"
  shows "node_inv n'"
  unfolding node_inv_def
proof (intro conjI allI impI)
  fix t q assume "slots n' t = Some q"
  then have t: "t \<noteq> s" "slots n t = Some q" using assms(3) by (auto split: if_splits)
  with node_invD(3) [OF n _ assms(2), of t q] have "sender q \<noteq> sender p" by blast
  with t node_invD(1,2) [OF n t(2)] show "sender q < next_chan n'" "replies n' (sender q) = None"
    using assms(4,5) by simp_all
next
  fix t u q p' assume "slots n' t = Some q" "slots n' u = Some p'" "sender q = sender p'"
  then show "t = u" using node_invD(3) [OF n] assms(3) by (auto split: if_splits)
next
  fix c assume "replies n' c \<noteq> None"
  then show "c < next_chan n'" using node_invD(1) [OF n assms(2)] node_invD(4) [OF n] assms(4,5)
    by (auto split: if_splits)
qed

lemma slot_filled:
  assumes n: "node_inv n" and "slots n' = (slots n)(s \<mapsto> p)" "next_chan n \<le> sender p" "sender p < next_chan n'"
    "replies n' = replies n"
  shows "node_inv n'"
proof -
  have o: "sender q < next_chan n" "replies n (sender q) = None" if "slots n t = Some q" for t q
    using node_invD [OF n] that by blast+
  have "replies n (sender p) = None" using node_invD(4) [OF n] assms(3) by (metis leD not_None_eq)
  with assms o node_invD(3,4) [OF n] show ?thesis unfolding node_inv_def by (fastforce split: if_splits)
qed

lemma slots_taken:
  "take_query i n = (Ok (slots n (Inl i)), n\<lparr>queries := (queries n)(i := None)\<rparr>)"
  "take_request i n = (Ok (slots n (Inr i)), n\<lparr>requests := (requests n)(i := None)\<rparr>)"
  by (simp_all add: take_query_def take_request_def slots_def)

lemma answers_keeps:
  assumes "node_inv n" "answers f" "f (slots n s) n1 = (r, n')"
    "slots n1 = (slots n)(s := None)" "next_chan n1 = next_chan n" "replies n1 = replies n"
  shows "keeps n n'"
proof -
  from assms(2,3) consider p e x where "slots n s = Some p" "send_reply e (sender p) x n1 = (r, n')" | "n' = n1"
    by (auto simp: answers_def act_simps dest!: spec [of _ "slots n s"])
  then show ?thesis
  proof cases
    case 1
    then consider "n' = n1" | "n' = n1\<lparr>replies := (replies n)(sender p \<mapsto> x)\<rparr>"
      using assms(6) by (auto simp: send_reply_def split: if_splits)
    then show ?thesis
    proof cases
      case 2
      then have "node_inv n'" using slot_answered [OF assms(1) 1(1), of n'] assms by simp
      then show ?thesis using 2 1(1) node_invD(2) [OF assms(1)] assms(5) by (auto simp: keeps_def)
    qed (use slot_removed assms in \<open>auto simp: keeps_def\<close>)
  qed (use slot_removed assms in \<open>auto simp: keeps_def\<close>)
qed

lemma preserves_answer:
  assumes "answers f"
  shows "preserves (act_bind (take_query i) f)" "preserves (act_bind (take_request i) f)"
  by (auto simp: act_bind_def slots_taken intro!: preservesI dest: answers_keeps [OF _ assms])

text \<open>A new channel that is put into a table after an action outside of the node.\<close>

definition outside_change :: "'w node \<Rightarrow> 'w node \<Rightarrow> bool" where
  "outside_change n n' \<longleftrightarrow> (\<exists>w. n' = n\<lparr>outside := w\<rparr>)"

abbreviation outside_only :: "('w node, 'a) action \<Rightarrow> bool" where
  "outside_only \<equiv> relates outside_change"

lemma outside_change_refl: "outside_change n n"
  unfolding outside_change_def by (rule exI [of _ "outside n"]) simp

interpretation frame: action_relation outside_change
  by unfold_locales (rule outside_change_refl, fastforce simp: outside_change_def)

lemma outside_only_lift: "outside_only (lift_outside m)" "outside_only (lift_pure f)"
  by (auto simp: relates_def outside_change_def lift_outside_def lift_pure_def split: prod.splits)

definition fills :: "chan \<Rightarrow> ('w node, unit) action \<Rightarrow> bool" where
  "fills c m \<longleftrightarrow> (\<forall>n r n'. m n = (r, n') \<longrightarrow> next_chan n' = next_chan n \<and> replies n' = replies n \<and>
     (slots n' = slots n \<or> (\<exists>s q. sender q = c \<and> slots n' = (slots n)(s \<mapsto> q))))"

lemma fills_insert:
  "sender q = c \<Longrightarrow> fills c (insert_query i q)" "sender q = c \<Longrightarrow> fills c (insert_request i q)"
  by (auto simp: fills_def insert_query_def insert_request_def)

lemma outside_changeD:
  "outside_change n n' \<Longrightarrow> slots n' = slots n \<and> next_chan n' = next_chan n \<and> replies n' = replies n"
  by (auto simp: outside_change_def)

lemma fills_bind:
  assumes "outside_only m" "\<And>x. fills c (f x)" shows "fills c (act_bind m f)"
  unfolding fills_def
proof (intro allI impI)
  fix n r n' assume b: "act_bind m f n = (r, n')"
  obtain q v where m: "m n = (q, v)" by (cases "m n")
  note v = outside_changeD [OF relatesD [OF assms(1) m]]
  have "n' = v \<or> (\<exists>x. f x v = (r, n'))" using b m by (cases q) (auto simp: act_simps)
  then show "next_chan n' = next_chan n \<and> replies n' = replies n \<and>
     (slots n' = slots n \<or> (\<exists>s q. sender q = c \<and> slots n' = (slots n)(s \<mapsto> q)))"
    using assms(2) v unfolding fills_def by fastforce
qed

lemma open_channel_simp:
  "open_channel resp n = (if resp \<in> gone n then (Err SendReceiverFailed, n\<lparr>next_chan := next_chan n + 1\<rparr>)
     else (Ok (next_chan n), n\<lparr>next_chan := next_chan n + 1, handed := (handed n)(resp \<mapsto> next_chan n)\<rparr>))"
  by (simp add: open_channel_def Let_def)

lemma more_channels:
  "node_inv n \<Longrightarrow> slots n' = slots n \<Longrightarrow> replies n' = replies n \<Longrightarrow> next_chan n \<le> next_chan n' \<Longrightarrow> node_inv n'"
  unfolding node_inv_def by simp (meson less_le_trans)

lemma preserves_open:
  assumes "\<And>c. fills c (f c)" shows "preserves (act_bind (open_channel resp) f)"
proof (rule preservesI)
  fix n r n' assume n: "node_inv n" and b: "act_bind (open_channel resp) f n = (r, n')"
  let ?n = "n\<lparr>next_chan := next_chan n + 1, handed := (handed n)(resp \<mapsto> next_chan n)\<rparr>"
  from b consider "n' = n\<lparr>next_chan := next_chan n + 1\<rparr>" | "f (next_chan n) ?n = (r, n')"
    by (auto simp: act_bind_def open_channel_simp split: if_splits)
  then show "keeps n n'"
  proof cases
    case 1
    then show ?thesis using more_channels [OF n, of n'] by (auto simp: keeps_def)
  next
    case 2
    with assms [of "next_chan n", unfolded fills_def] have
      f: "next_chan n' = next_chan n + 1" "replies n' = replies n"
        "slots n' = slots n \<or> (\<exists>s q. sender q = next_chan n \<and> slots n' = (slots n)(s \<mapsto> q))"
      by fastforce+
    from f(3) have "node_inv n'" using more_channels [OF n, of n'] slot_filled [OF n, of n'] f(1,2) by auto
    then show ?thesis using f(1,2) by (simp add: keeps_def)
  qed
qed

lemmas event_handlers = handle_reqres_message_response_def handle_inbound_failure_def handle_outbound_failure_def
  handle_start_providing_def handle_get_closest_peers_def handle_get_providers_def handle_get_record_def
  handle_put_record_def

lemmas controller_handlers = handle_controller_request_verification_def handle_controller_start_providing_def
  handle_controller_get_providers_def handle_controller_get_closest_peers_def handle_controller_put_record_to_def
  handle_controller_put_def handle_controller_get_def

lemma event_handlers_preserve:
  "preserves (handle_reqres_message_response a i)" "preserves (handle_inbound_failure p i e)"
  "preserves (handle_outbound_failure p i e)" "preserves (handle_start_providing m i)"
  "preserves (handle_get_closest_peers m2 i)" "preserves (handle_get_providers m3 i)"
  "preserves (handle_get_record lp m4 i)" "preserves (handle_put_record m5 i)"
  unfolding event_handlers Let_def
  by (intro preserves_answer, simp add: answers_def split: option.split query_response.split sum.split
      get_providers_ok.split get_record_ok.split, blast)+

lemma controller_handlers_preserve:
  "preserves (handle_controller_request_verification beh p f cv resp)" "preserves (handle_controller_start_providing beh k resp)"
  "preserves (handle_controller_get_providers beh k resp)" "preserves (handle_controller_get_closest_peers beh u resp)"
  "preserves (handle_controller_put_record_to beh k v ps resp)" "preserves (handle_controller_put beh env k v resp)"
  "preserves (handle_controller_get beh k resp)"
  unfolding controller_handlers
  by (intro preserves_open fills_bind fills_insert outside_only_lift frame.rel_result; simp)+

lemma preserves_deleted: "preserves (\<lambda>n. (Ok (g n), n\<lparr>deleted_files := h n\<rparr>))"
  by (auto simp: relates_def bookkeeping_def keeps_def node_inv_def)

lemma message_request_preserves: "preserves (handle_reqres_message_request beh env request channel)"
  unfolding handle_reqres_message_request_def
  by (auto intro!: books.rel_compose preserves_lift preserves_deleted split: sum.split option.split)

lemma handle_swarm_event_preserves: "preserves (handle_swarm_event beh env lp ev)"
  unfolding handle_swarm_event_def handle_response_sent_def
  by (auto intro!: books.rel_compose preserves_lift event_handlers_preserve message_request_preserves
      split: swarm_event.split wire_event.split kademlia_event.split query_result.split reqres_event.split)

lemma handle_controller_event_preserves: "preserves (handle_controller_event beh env c)"
  unfolding handle_controller_event_def
  by (auto intro!: books.rel_compose controller_handlers_preserve split: option.split command_to_swarm.split)

lemma swarm_step_preserves: "preserves (swarm_step beh env lp inp)"
proof (cases inp)
  case (DropReceiver c)
  then show ?thesis by (auto simp: relates_def bookkeeping_def keeps_def node_inv_def swarm_step_def)
next
  case (DropCaller c)
  then show ?thesis by (auto simp: relates_def bookkeeping_def keeps_def node_inv_def swarm_step_def)
qed (auto simp: swarm_step_def handle_swarm_event_preserves handle_controller_event_preserves)

lemma node_inv_new: "node_inv (new_node w)"
  by (simp add: node_inv_def new_node_def slots_def split: sum.split)

section \<open>Reachable nodes\<close>

text \<open>
  The states the loop passes through: it goes on after a step that returned \<^verbatim>\<open>Ok\<close>. \<open>allowed\<close> restricts
  the inputs the environment may give in a state.
\<close>

inductive reachable :: "'w behaviour \<Rightarrow> 'w storage_env \<Rightarrow> peer_id \<Rightarrow> ('w node \<Rightarrow> input \<Rightarrow> bool) \<Rightarrow> 'w \<Rightarrow> 'w node \<Rightarrow> bool"
  for beh env lp allowed w where
  start: "reachable beh env lp allowed w (new_node w)"
| step: "reachable beh env lp allowed w n \<Longrightarrow> allowed n inp \<Longrightarrow> swarm_step beh env lp inp n = (Ok (), n')
    \<Longrightarrow> reachable beh env lp allowed w n'"

lemma reachable_inv: "reachable beh env lp allowed w n \<Longrightarrow> node_inv n"
  by (induction rule: reachable.induct) (auto simp: node_inv_new dest: preservesD [OF swarm_step_preserves] keeps_inv)

lemma swarm_run_reachable:
  assumes "reachable beh env lp (\<lambda>_ _. True) w n" "swarm_run beh env lp inputs n = (Ok (), n')"
  shows "reachable beh env lp (\<lambda>_ _. True) w n'"
  using assms
proof (induction inputs arbitrary: n)
  case Nil
  then show ?case by (simp add: swarm_run_def act_simps)
next
  case (Cons inp rest)
  obtain r n1 where s: "swarm_step beh env lp inp n = (r, n1)" by (cases "swarm_step beh env lp inp n")
  with Cons.prems(2) have "r = Ok ()" "swarm_run beh env lp rest n1 = (Ok (), n')"
    by (cases r; simp add: swarm_run_def act_simps act_bind_def)+
  with Cons.IH [of n1] reachable.step [OF Cons.prems(1)] s show ?case by blast
qed

text \<open>
  C10: In every state the swarm reaches, and whatever the next input does, even when its handler fails,
  all pending queries and requests keep senders of their own that have not been answered, and an answer
  that was sent stays what it is: every caller gets at most one answer.
\<close>

theorem swarm_answers_once:
  assumes "reachable beh env lp allowed w n" "swarm_step beh env lp inp n = (r, n')"
  shows "node_inv n' \<and> (\<forall>c v. replies n c = Some v \<longrightarrow> replies n' c = Some v \<and> c \<notin> pending n')"
proof -
  have k: "keeps n n'" using preservesD [OF swarm_step_preserves reachable_inv [OF assms(1)] assms(2)] .
  have "c \<notin> pending n'" if "replies n' c = Some v" for c v
    using that node_invD(2) [OF keeps_inv [OF k]] by (force simp: pending_def)
  with k show ?thesis by (auto simp: keeps_def)
qed

section \<open>Every channel is answered or pending\<close>

text \<open>
  \<open>issued w\<close> are the ids Kademlia and the request-response protocol have given out so far. Both give out
  each id once.
\<close>

definition grows :: "('w \<Rightarrow> 'i set) \<Rightarrow> ('w, 'a) action \<Rightarrow> bool" where
  "grows issued m \<longleftrightarrow> (\<forall>w r w'. m w = (r, w') \<longrightarrow> issued w \<subseteq> issued w')"

definition issues :: "('w \<Rightarrow> 'i set) \<Rightarrow> ('a \<Rightarrow> 'i) \<Rightarrow> ('w, 'a) action \<Rightarrow> bool" where
  "issues issued slot m \<longleftrightarrow> (\<forall>w r w'. m w = (r, w') \<longrightarrow>
     issued w \<subseteq> issued w' \<and> (\<forall>i. r = Ok i \<longrightarrow> slot i \<notin> issued w \<and> slot i \<in> issued w'))"

definition pure :: "('w \<Rightarrow> 'a \<times> 'w) \<Rightarrow> ('w, 'a) action" where
  "pure f w = (case f w of (x, w') \<Rightarrow> (Ok x, w'))"

definition ids_fresh :: "('w \<Rightarrow> (query_id + request_id) set) \<Rightarrow> 'w behaviour \<Rightarrow> 'w storage_env \<Rightarrow> bool" where
  "ids_fresh issued beh env \<longleftrightarrow>
     (\<forall>r. issues issued Inl (act_bind (kad_put_record beh (store_put (storage_put env) swarm_store_config) r)
            (act_result KademliaStoreError))) \<and>
     (\<forall>k. issues issued Inl (act_bind (kad_start_providing beh store_add_provider k) (act_result KademliaStoreError))) \<and>
     (\<forall>r ps. issues issued Inl (pure (kad_put_record_to beh r ps))) \<and>
     (\<forall>k. issues issued Inl (pure (kad_get_record beh k))) \<and>
     (\<forall>k. issues issued Inl (pure (kad_get_providers beh k))) \<and>
     (\<forall>k. issues issued Inl (pure (kad_get_closest_peers beh k))) \<and>
     (\<forall>p q. issues issued Inr (pure (rr_send_request beh p q))) \<and>
     (\<forall>c q. grows issued (pure (rr_send_response beh c q))) \<and>
     (\<forall>p a. grows issued (pure (\<lambda>w. ((), kad_add_address beh p a w)))) \<and>
     grows issued (pure (system_time beh)) \<and>
     (\<forall>f. grows issued (storage_get env f))"

text \<open>Kademlia reports the results of a query with the kind of result the query asked for.\<close>

fun typed_input :: "'w node \<Rightarrow> input \<Rightarrow> bool" where
  "typed_input n (Event (BehaviourEvent (Kademlia (OutboundQueryProgressed (GetRecord _) i)))) =
     (case queries n i of None \<Rightarrow> True | Some (QGet _) \<Rightarrow> True | _ \<Rightarrow> False)"
| "typed_input _ _ = True"

definition accounted :: "('w \<Rightarrow> (query_id + request_id) set) \<Rightarrow> 'w node \<Rightarrow> bool" where
  "accounted issued n \<longleftrightarrow> (\<forall>c < next_chan n. c \<in> pending n \<or> replies n c \<noteq> None) \<and> dom (slots n) \<subseteq> issued (outside n)"

lemma pending_insert: "slots n s = Some q \<Longrightarrow> sender q \<in> pending n"
  by (auto simp: pending_def)

lemma pending_upd:
  "slots n' = (slots n)(s := None) \<Longrightarrow> c \<in> pending n \<Longrightarrow> c \<in> pending n' \<or> (\<exists>q. slots n s = Some q \<and> sender q = c)"
  by (fastforce simp: pending_def)

definition same_books :: "('w \<Rightarrow> (query_id + request_id) set) \<Rightarrow> 'w node \<Rightarrow> 'w node \<Rightarrow> bool" where
  "same_books issued n n' \<longleftrightarrow> slots n' = slots n \<and> next_chan n' = next_chan n \<and> replies n' = replies n \<and>
     issued (outside n) \<subseteq> issued (outside n')"

interpretation quiet: action_relation "same_books issued" for issued :: "'w \<Rightarrow> (query_id + request_id) set"
  by unfold_locales (auto simp: same_books_def)

lemma same_books_accounted: "same_books issued n n' \<Longrightarrow> accounted issued n \<Longrightarrow> accounted issued n'"
  unfolding same_books_def accounted_def pending_def by auto

lemma quiet_fields:
  "relates (same_books issued) (\<lambda>n. (Ok (g n), n\<lparr>deleted_files := h n\<rparr>))"
  "relates (same_books issued) (\<lambda>n. (Ok (g n), n\<lparr>closed := k n\<rparr>))"
  "relates (same_books issued) (\<lambda>n. (Ok (g n), n\<lparr>gone := k n\<rparr>))"
  by (auto simp: relates_def same_books_def)

lemma lift_pure_outside: "lift_pure f = lift_outside (pure f)"
  by (auto simp: fun_eq_iff lift_pure_def lift_outside_def pure_def split: prod.splits)

lemma quiet_lift: "grows issued m \<Longrightarrow> relates (same_books issued) (lift_outside m)"
  by (auto simp: relates_def same_books_def grows_def lift_outside_def split: prod.splits)

definition accounts :: "('w \<Rightarrow> (query_id + request_id) set) \<Rightarrow> 'w node \<Rightarrow> ('w node, unit) action \<Rightarrow> bool" where
  "accounts issued n m \<longleftrightarrow> (\<forall>n'. accounted issued n \<longrightarrow> m n = (Ok (), n') \<longrightarrow> accounted issued n')"

lemma quiet_accounts: "relates (same_books issued) m \<Longrightarrow> accounts issued n m"
  by (auto simp: accounts_def dest: relatesD same_books_accounted)

text \<open>Taking a query or request out of its table and answering it.\<close>

definition settles :: "query_response option \<Rightarrow> ('w node, unit) action \<Rightarrow> bool" where
  "settles q m \<longleftrightarrow> (\<forall>n n'. m n = (Ok (), n') \<longrightarrow>
     (case q of Some p \<Rightarrow> (\<exists>r. n' = n\<lparr>replies := (replies n)(sender p \<mapsto> r)\<rparr>) | None \<Rightarrow> n' = n))"

lemma settled_accounted:
  assumes a: "accounted issued n" and "settles (slots n s) m" "m n1 = (Ok (), n')"
    and n1: "slots n1 = (slots n)(s := None)" "next_chan n1 = next_chan n" "replies n1 = replies n" "outside n1 = outside n"
  shows "accounted issued n'"
proof -
  have "case slots n s of Some p \<Rightarrow> (\<exists>r. n' = n1\<lparr>replies := (replies n1)(sender p \<mapsto> r)\<rparr>) | None \<Rightarrow> n' = n1"
    using assms(2,3) unfolding settles_def by blast
  then have o: "slots n' = (slots n)(s := None)" "next_chan n' = next_chan n" "outside n' = outside n"
    and r: "\<forall>c. replies n c \<noteq> None \<longrightarrow> replies n' c \<noteq> None" "\<forall>p. slots n s = Some p \<longrightarrow> replies n' (sender p) \<noteq> None"
    using n1 by (auto split: option.splits)
  have "c \<in> pending n' \<or> replies n' c \<noteq> None" if "c < next_chan n" for c
    using that a r pending_upd [OF o(1), of c] unfolding accounted_def by blast
  then show ?thesis using a o by (auto simp: accounted_def split: if_splits)
qed

lemma taken_accounts:
  "settles (slots n (Inl i)) (f (slots n (Inl i))) \<Longrightarrow> accounts issued n (act_bind (take_query i) f)"
  "settles (slots n (Inr i)) (f (slots n (Inr i))) \<Longrightarrow> accounts issued n (act_bind (take_request i) f)"
  by (auto simp: accounts_def act_bind_def slots_taken intro: settled_accounted)

lemma settles_simps:
  "settles q (act_fail e)" "settles None (act_return ())" "settles (Some p) (send_reply e (sender p) r)"
  by (auto simp: settles_def act_simps send_reply_def split: option.splits if_splits)

lemmas settles_query_simps = settles_simps settles_simps(3) [of "QPut c", simplified] settles_simps(3) [of "QPutTo c", simplified]
  settles_simps(3) [of "QGet c", simplified] settles_simps(3) [of "QGetProviders c", simplified]
  settles_simps(3) [of "QStartProviding c", simplified] settles_simps(3) [of "QGetClosestPeers c", simplified]
  settles_simps(3) [of "QVerificationRequest c", simplified] for c

lemma event_handlers_account:
  "accounts issued n (handle_reqres_message_response a i)" "accounts issued n (handle_inbound_failure p i e)"
  "accounts issued n (handle_outbound_failure p i e)" "accounts issued n (handle_start_providing m i)"
  "accounts issued n (handle_get_closest_peers m2 i)" "accounts issued n (handle_get_providers m3 i)"
  "accounts issued n (handle_put_record m5 i)"
  unfolding event_handlers Let_def
  by (intro taken_accounts, simp add: settles_query_simps split: option.split query_response.split sum.split
      get_providers_ok.split)+

lemma get_record_accounts:
  assumes "case queries n i of None \<Rightarrow> True | Some (QGet _) \<Rightarrow> True | _ \<Rightarrow> False"
  shows "accounts issued n (handle_get_record lp m i)"
  unfolding event_handlers using assms
  by (intro taken_accounts, simp add: slots_def settles_query_simps split: option.split query_response.split sum.split
      get_record_ok.split) auto

text \<open>Opening a channel and filing its sender under a new id.\<close>

definition enters :: "('w \<Rightarrow> (query_id + request_id) set) \<Rightarrow> chan \<Rightarrow> ('w node, unit) action \<Rightarrow> bool" where
  "enters issued c m \<longleftrightarrow> (\<forall>n n'. m n = (Ok (), n') \<longrightarrow>
     (\<exists>s q. sender q = c \<and> slots n' = (slots n)(s \<mapsto> q) \<and> s \<notin> issued (outside n) \<and> s \<in> issued (outside n')) \<and>
     next_chan n' = next_chan n \<and> replies n' = replies n \<and> issued (outside n) \<subseteq> issued (outside n'))"

lemma open_accounts:
  assumes "\<And>c. enters issued c (f c)" shows "accounts issued n (act_bind (open_channel resp) f)"
  unfolding accounts_def
proof (intro allI impI)
  fix n' assume a: "accounted issued n" and b: "act_bind (open_channel resp) f n = (Ok (), n')"
  define n1 where "n1 = n\<lparr>next_chan := next_chan n + 1, handed := (handed n)(resp \<mapsto> next_chan n)\<rparr>"
  have n1: "slots n1 = slots n" "next_chan n1 = next_chan n + 1" "replies n1 = replies n" "outside n1 = outside n"
    by (simp_all add: n1_def)
  from b have "f (next_chan n) n1 = (Ok (), n')"
    by (auto simp: act_bind_def open_channel_simp n1_def split: if_splits)
  with assms n1 obtain s q where q: "sender q = next_chan n" "slots n' = (slots n)(s \<mapsto> q)" "s \<notin> issued (outside n)"
    "s \<in> issued (outside n')" "next_chan n' = next_chan n + 1" "replies n' = replies n" "issued (outside n) \<subseteq> issued (outside n')"
    unfolding enters_def by metis
  have old: "slots n' t = Some p" if "slots n t = Some p" for t p
    using that a q(2,3) by (auto simp: accounted_def)
  have "c \<in> pending n' \<or> replies n' c \<noteq> None" if "c < next_chan n + 1" for c
  proof (cases "c = next_chan n")
    case True
    then show ?thesis using q(1,2) pending_insert [of n' s q] by simp
  next
    case False
    with that a have "c \<in> pending n \<or> replies n c \<noteq> None" by (auto simp: accounted_def)
    then show ?thesis using q(6) old by (force simp: pending_def)
  qed
  then show "accounted issued n'" using a q by (auto simp: accounted_def)
qed

lemma lift_bind_OkE:
  assumes "act_bind (lift_outside m) f n = (Ok y, n')"
  obtains i w' where "m (outside n) = (Ok i, w')" "f i (n\<lparr>outside := w'\<rparr>) = (Ok y, n')"
  using assms by (auto elim!: act_bind_OkE simp: lift_outside_def split: prod.splits)

lemma issuesD:
  assumes "issues issued slot m" "m w = (Ok i, w')"
  shows "issued w \<subseteq> issued w'" "slot i \<notin> issued w" "slot i \<in> issued w'"
  using assms unfolding issues_def by blast+

lemma entersI:
  assumes "\<And>n n'. m n = (Ok (), n') \<Longrightarrow> \<exists>s q. sender q = c \<and> slots n' = (slots n)(s \<mapsto> q) \<and> s \<notin> issued (outside n) \<and>
     s \<in> issued (outside n') \<and> next_chan n' = next_chan n \<and> replies n' = replies n \<and> issued (outside n) \<subseteq> issued (outside n')"
  shows "enters issued c m"
  using assms unfolding enters_def by meson

lemma enters_issued:
  assumes "\<And>i. sender (q i) = c"
  shows "issues issued Inl m \<Longrightarrow> enters issued c (act_bind (lift_outside m) (\<lambda>i. insert_query i (q i)))"
    and "issues issued Inr m \<Longrightarrow> enters issued c (act_bind (lift_outside m) (\<lambda>i. insert_request i (q i)))"
proof -
  assume m: "issues issued Inl m"
  show "enters issued c (act_bind (lift_outside m) (\<lambda>i. insert_query i (q i)))"
  proof (rule entersI)
    fix n n' assume "act_bind (lift_outside m) (\<lambda>i. insert_query i (q i)) n = (Ok (), n')"
    then obtain i w where i: "m (outside n) = (Ok i, w)" and n': "n' = n\<lparr>outside := w, queries := (queries n)(i \<mapsto> q i)\<rparr>"
      by (auto elim!: lift_bind_OkE simp: insert_query_def)
    have "slots n' = (slots n)(Inl i \<mapsto> q i)" using slots_simps(8) [of "n\<lparr>outside := w\<rparr>"] n' by simp
    with n' issuesD [OF m i] assms show "\<exists>s q. sender q = c \<and> slots n' = (slots n)(s \<mapsto> q) \<and> s \<notin> issued (outside n) \<and>
     s \<in> issued (outside n') \<and> next_chan n' = next_chan n \<and> replies n' = replies n \<and> issued (outside n) \<subseteq> issued (outside n')"
      by (intro exI [of _ "Inl i"] exI [of _ "q i"]) simp
  qed
next
  assume m: "issues issued Inr m"
  show "enters issued c (act_bind (lift_outside m) (\<lambda>i. insert_request i (q i)))"
  proof (rule entersI)
    fix n n' assume "act_bind (lift_outside m) (\<lambda>i. insert_request i (q i)) n = (Ok (), n')"
    then obtain i w where i: "m (outside n) = (Ok i, w)" and n': "n' = n\<lparr>outside := w, requests := (requests n)(i \<mapsto> q i)\<rparr>"
      by (auto elim!: lift_bind_OkE simp: insert_request_def)
    have "slots n' = (slots n)(Inr i \<mapsto> q i)" using slots_simps(9) [of "n\<lparr>outside := w\<rparr>"] n' by simp
    with n' issuesD [OF m i] assms show "\<exists>s q. sender q = c \<and> slots n' = (slots n)(s \<mapsto> q) \<and> s \<notin> issued (outside n) \<and>
     s \<in> issued (outside n') \<and> next_chan n' = next_chan n \<and> replies n' = replies n \<and> issued (outside n) \<subseteq> issued (outside n')"
      by (intro exI [of _ "Inr i"] exI [of _ "q i"]) simp
  qed
qed

lemma lift_bind_result:
  "act_bind (lift_outside m) (\<lambda>x. act_bind (act_result wrap x) f) = act_bind (lift_outside (act_bind m (act_result wrap))) f"
  by (auto simp: fun_eq_iff act_bind_def lift_outside_def act_result_def act_simps split: prod.splits outcome.splits sum.splits)

lemma controller_handlers_account:
  assumes "ids_fresh issued beh env"
  shows "accounts issued n (handle_controller_request_verification beh p f cv resp)"
    "accounts issued n (handle_controller_start_providing beh k resp)"
    "accounts issued n (handle_controller_get_providers beh k resp)" "accounts issued n (handle_controller_get_closest_peers beh u resp)"
    "accounts issued n (handle_controller_put_record_to beh k v ps resp)" "accounts issued n (handle_controller_put beh env k v resp)"
    "accounts issued n (handle_controller_get beh k resp)"
  unfolding controller_handlers lift_bind_result lift_pure_outside
  using assms by (auto simp: ids_fresh_def intro!: open_accounts enters_issued)

lemma message_request_accounts:
  assumes "ids_fresh issued beh env"
  shows "accounts issued n (handle_reqres_message_request beh env request channel)"
  unfolding handle_reqres_message_request_def lift_pure_outside
  using assms by (intro quiet_accounts) (auto intro!: quiet.rel_compose quiet_lift quiet_fields simp: ids_fresh_def
      split: sum.split option.split)

lemma swarm_step_accounts:
  assumes "ids_fresh issued beh env" "typed_input n inp"
  shows "accounts issued n (swarm_step beh env lp inp)"
proof (cases inp)
  case (Instruction c)
  then show ?thesis using controller_handlers_account [OF assms(1)]
    by (auto simp: swarm_step_def handle_controller_event_def intro: quiet_accounts [OF quiet.rel_basic(2)]
        split: option.split command_to_swarm.split)
next
  case (Event ev)
  have "accounts issued n (handle_swarm_event beh env lp ev)"
    using assms Event
    by (auto simp: handle_swarm_event_def handle_response_sent_def lift_pure_outside ids_fresh_def
        intro!: event_handlers_account message_request_accounts [OF assms(1)] get_record_accounts
          quiet_accounts [OF quiet.rel_basic(1)] quiet_accounts [OF quiet.rel_fold] quiet_lift
        split: swarm_event.split wire_event.split kademlia_event.split query_result.split reqres_event.split)
  with Event show ?thesis by (simp add: swarm_step_def)
next
  case (DropReceiver c)
  then show ?thesis by (simp add: swarm_step_def quiet_accounts quiet_fields)
next
  case (DropCaller c)
  then show ?thesis by (simp add: swarm_step_def quiet_accounts quiet_fields)
qed

text \<open>
  C17: As long as the loop runs, no caller is forgotten: every channel whose receiver was handed out has
  its sender in the table of pending queries or requests, or has been answered. This relies on Kademlia and
  the request-response protocol giving out every id once, and on results of the kind that was asked for.
\<close>

theorem swarm_forgets_no_caller:
  assumes "ids_fresh issued beh env" "reachable beh env lp typed_input w n"
  shows "\<forall>c < next_chan n. c \<in> pending n \<or> replies n c \<noteq> None"
proof -
  have "accounted issued n"
    using assms(2)
  proof (induction rule: reachable.induct)
    case start
    then show ?case by (auto simp: accounted_def new_node_def slots_def split: sum.splits)
  next
    case (step n inp n')
    then show ?case using swarm_step_accounts [OF assms(1)] by (auto simp: accounts_def)
  qed
  then show ?thesis by (simp add: accounted_def)
qed

end
