(* ===== verification/Swarm_Runs.thy ===== *)
theory Swarm_Runs
  imports Swarm
begin

text \<open>
  Runs of the swarm loop: which inputs end it, and an instance of the foreign code in memory on which
  the hypotheses of the theorems about the swarm hold.
\<close>

section \<open>Inputs that end the loop\<close>

abbreviation progressed :: "query_result \<Rightarrow> query_id \<Rightarrow> input" where
  "progressed result i \<equiv> Event (BehaviourEvent (Kademlia (OutboundQueryProgressed result i)))"

text \<open>Results of the kind whose handler insists on a pending query.\<close>

primrec insists :: "query_result \<Rightarrow> bool" where
  "insists (GetRecord _) = False"
| "insists (PutRecord _) = True"
| "insists (GetProviders _) = True"
| "insists (GetClosestPeers _) = True"
| "insists (StartProviding _) = True"
| "insists OtherResult = False"

lemmas step_defs = swarm_step_def handle_swarm_event_def event_handlers

lemma insisting_result_unknown:
  assumes "queries n i = None" "insists result"
  shows "swarm_step beh env lp (progressed result i) n = (Err (InvalidResponseChannel i), n)"
proof -
  have "(queries n)(i := None) = queries n" using assms(1) by (simp add: fun_upd_idem)
  then show ?thesis using assms
    by (cases result) (simp_all add: step_defs act_bind_def take_query_def act_simps)
qed

lemma insisting_result_taken:
  assumes "insists result" "swarm_step beh env lp (progressed result i) n = (r, n')"
  shows "queries n' i = None"
  using assms
  by (cases result) (auto simp: step_defs act_bind_def take_query_def act_simps Let_def send_reply_def
      split: option.splits query_response.splits sum.splits get_providers_ok.splits if_splits)

text \<open>
  C32: Two results for one query end the swarm, except for those of getting a record. Kademlia reports
  every batch of providers and then the end of the query under the same id, so a provider lookup that
  finds providers stops the node.
\<close>

theorem second_result_ends_swarm:
  assumes "insists first" "insists second"
  shows "\<exists>e n'. swarm_run beh env lp (progressed first i # progressed second i # rest) n = (Err e, n')"
proof -
  obtain r n1 where s: "swarm_step beh env lp (progressed first i) n = (r, n1)"
    by (cases "swarm_step beh env lp (progressed first i) n")
  note second = insisting_result_unknown [OF insisting_result_taken [OF assms(1) s] assms(2), of beh env lp]
  have "r \<noteq> Panic"
    using s assms(1)
    by (cases first) (auto simp: step_defs act_bind_def take_query_def act_simps Let_def send_reply_def
        split: option.splits query_response.splits sum.splits get_providers_ok.splits if_splits)
  with s second show ?thesis
    by (cases r) (auto simp: swarm_run_def act_bind_def)
qed

text \<open>
  A result of getting a record for a query that is not pending any more is ignored.
\<close>

lemma late_record_ignored:
  assumes "queries n i = None"
  shows "swarm_run beh env lp (progressed (GetRecord message) i # rest) n = swarm_run beh env lp rest n"
proof -
  have "n\<lparr>queries := (queries n)(i := None)\<rparr> = n" using assms by (simp add: fun_upd_idem)
  with assms show ?thesis by (simp add: swarm_run_def step_defs act_bind_def take_query_def act_simps)
qed

text \<open>
  When a caller gave up waiting, the result of its query ends the swarm: the failed send is an error
  of the loop.
\<close>

lemma abandoned_query_ends_swarm:
  assumes "queries n i = Some (QGet c)"
  shows "fst (swarm_run beh env lp (DropReceiver c # progressed (GetRecord message) i # rest) n) = Err SendingResultFailed"
  using assms
  by (auto simp: swarm_run_def step_defs act_bind_def take_query_def act_simps send_reply_def
      split: sum.split get_record_ok.split)

text \<open>
  The failure of a request the node has received from a peer ends the swarm: the handler looks the id up among
  the requests the node has sent itself.
\<close>

lemma inbound_failure_ends_swarm:
  assumes "requests n i = None"
  shows "swarm_run beh env lp (Event (BehaviourEvent (ReqRes (InboundFailure peer i err))) # rest) n
    = (Err (InvalidResponseChannelForRequest i), n)"
proof -
  have "n\<lparr>requests := (requests n)(i := None)\<rparr> = n" using assms by (simp add: fun_upd_idem)
  with assms show ?thesis by (simp add: swarm_run_def step_defs act_bind_def take_request_def act_simps)
qed

text \<open>Providing a file panics in the record store, when Kademlia enters the provider there.\<close>

lemma start_providing_panics:
  assumes "\<And>add k w. fst (add k w) = Panic \<Longrightarrow> fst (kad_start_providing beh add k w) = Panic" "resp \<notin> gone n"
  shows "fst (swarm_step beh env lp (Instruction (Some (CmdStartProviding key resp))) n) = Panic"
proof -
  have "fst (kad_start_providing beh store_add_provider (as_bytes key) w) = Panic" for w
    by (rule assms(1)) (simp add: store_add_provider_def act_simps)
  with assms(2) show ?thesis
    by (simp add: swarm_step_def handle_controller_event_def handle_controller_start_providing_def act_bind_def
        open_channel_simp lift_outside_def split: prod.splits outcome.splits) (metis fst_conv outcome.distinct)
qed

section \<open>The foreign code in memory\<close>

text \<open>Ids are counted with the clock, which only moves forward.\<close>

definition next_id :: "fs_world \<Rightarrow> nat \<times> fs_world" where
  "next_id w = (let t = max 0 (clock w) in (nat t, w\<lparr>clock := t + 1\<rparr>))"

definition mem_behaviour :: "fs_world behaviour" where
  "mem_behaviour =
     \<lparr>kad_put_record = \<lambda>put r w. (case put r w of
          (Ok (Inr _), w') \<Rightarrow> (case next_id w' of (i, w'') \<Rightarrow> (Ok (Inr i), w''))
        | (Ok (Inl _), w') \<Rightarrow> (Ok (Inl ''store error''), w') | (Err e, w') \<Rightarrow> (Err e, w') | (Panic, w') \<Rightarrow> (Panic, w')),
      kad_put_record_to = \<lambda>_ _. next_id, kad_get_record = \<lambda>_. next_id, kad_get_providers = \<lambda>_. next_id,
      kad_get_closest_peers = \<lambda>_. next_id,
      kad_start_providing = \<lambda>add k w. (case add k w of
          (Ok (Inr _), w') \<Rightarrow> (case next_id w' of (i, w'') \<Rightarrow> (Ok (Inr i), w''))
        | (Ok (Inl _), w') \<Rightarrow> (Ok (Inl ''store error''), w') | (Err e, w') \<Rightarrow> (Err e, w') | (Panic, w') \<Rightarrow> (Panic, w')),
      kad_add_address = \<lambda>_ _ w. w, rr_send_request = \<lambda>_ _. next_id, rr_send_response = \<lambda>_ _ w. (True, w),
      system_time = \<lambda>w. (clock w, w), uuid_as_bytes = \<lambda>_. []\<rparr>"

definition counted :: "fs_world \<Rightarrow> (query_id + request_id) set" where
  "counted w = {s. int (case s of Inl i \<Rightarrow> i | Inr i \<Rightarrow> i) < clock w}"

lemma next_id_counts: "next_id w = (i, w') \<Longrightarrow>
    counted w \<subseteq> counted w' \<and> Inl i \<notin> counted w \<and> Inl i \<in> counted w' \<and> Inr i \<notin> counted w \<and> Inr i \<in> counted w'"
  by (auto simp: next_id_def counted_def Let_def)

lemma issues_next_id: "issues counted Inl (pure next_id)" "issues counted Inr (pure next_id)"
  using next_id_counts by (auto simp: issues_def pure_def split: prod.splits)

lemma mono_clock: "clock w \<le> clock w' \<Longrightarrow> counted w \<subseteq> counted w'"
  by (auto simp: counted_def)

lemma storage_put_clock: "storage_put mem_env r w = (x, w') \<Longrightarrow> clock w \<le> clock w'"
  by (auto simp: storage_put_def key_to_path_def serialize_def mem_env_def io_call_def act_bind_def act_result_def act_simps Let_def
      split: option.splits sum.splits prod.splits outcome.splits)

lemma storage_get_clock: "storage_get mem_env f w = (x, w') \<Longrightarrow> clock w \<le> clock w'"
  by (auto simp: storage_get_def visit_map_def mem_env_def io_call_def act_bind_def act_result_def act_simps Let_def
      split: option.splits sum.splits prod.splits outcome.splits)

lemma grows_clock: "(\<And>w r w'. m w = (r, w') \<Longrightarrow> clock w \<le> clock w') \<Longrightarrow> grows counted m"
  by (auto simp: grows_def intro: mono_clock [THEN subsetD])

lemma stored_issues:
  assumes "\<And>w r w'. m w = (r, w') \<Longrightarrow> clock w \<le> clock w'"
  shows "issues counted Inl (act_bind (\<lambda>w. case m w of
          (Ok (Inr _), w') \<Rightarrow> (case next_id w' of (i, w'') \<Rightarrow> (Ok (Inr i), w''))
        | (Ok (Inl _), w') \<Rightarrow> (Ok (Inl ''store error''), w') | (Err e, w') \<Rightarrow> (Err e, w') | (Panic, w') \<Rightarrow> (Panic, w'))
      (act_result KademliaStoreError))"
  unfolding issues_def
proof (intro allI impI)
  fix w r w' assume b: "act_bind (\<lambda>w. case m w of
          (Ok (Inr _), w') \<Rightarrow> (case next_id w' of (i, w'') \<Rightarrow> (Ok (Inr i), w''))
        | (Ok (Inl _), w') \<Rightarrow> (Ok (Inl ''store error''), w') | (Err e, w') \<Rightarrow> (Err e, w') | (Panic, w') \<Rightarrow> (Panic, w'))
      (act_result KademliaStoreError) w = (r, w')"
  obtain x v where m: "m w = (x, v)" by (cases "m w")
  have k: "counted w \<subseteq> counted v" using mono_clock [OF assms [OF m]] .
  from b m consider i where "next_id v = (i, w')" "r = Ok i" | "w' = v" "\<forall>i. r \<noteq> Ok i"
    by (auto simp: act_bind_def act_result_def act_simps split: outcome.splits sum.splits prod.splits)
  then show "counted w \<subseteq> counted w' \<and> (\<forall>i. r = Ok i \<longrightarrow> Inl i \<notin> counted w \<and> Inl i \<in> counted w')"
    using k next_id_counts [of v] by cases blast+
qed

lemma store_put_clock: "store_put (storage_put mem_env) cfg r w = (x, w') \<Longrightarrow> clock w \<le> clock w'"
  using storage_put_clock [of r w] by (auto simp: store_put_def act_spawn_def act_simps split: if_splits prod.splits outcome.splits)

lemma mem_ids_fresh: "ids_fresh counted mem_behaviour mem_env"
proof -
  have "grows counted (storage_get mem_env f)" for f
    using storage_get_clock by (rule grows_clock)
  moreover have "issues counted Inl (act_bind (kad_put_record mem_behaviour (store_put (storage_put mem_env) swarm_store_config) r)
            (act_result KademliaStoreError))" for r
    using stored_issues [of "store_put (storage_put mem_env) swarm_store_config r", OF store_put_clock] by (simp add: mem_behaviour_def)
  moreover have "issues counted Inl (act_bind (kad_start_providing mem_behaviour store_add_provider k) (act_result KademliaStoreError))" for k
    using stored_issues [of "store_add_provider k"] by (simp add: mem_behaviour_def store_add_provider_def act_simps)
  ultimately show ?thesis
    unfolding ids_fresh_def
    by (simp add: mem_behaviour_def issues_next_id grows_def pure_def)
qed

section \<open>Witnesses\<close>

text \<open>A get instruction, a verification request, and the answer to the former.\<close>

definition sample_inputs :: "input list" where
  "sample_inputs = [Instruction (Some (CmdGet ''k'' 100)),
     Instruction (Some (CmdRequestVerification (PeerId [1]) ''f'' [3] 101)),
     progressed (GetRecord (Inl ''not found'')) 5]"

theorem second_result_ends_swarm_witness:
  "\<exists>e n'. swarm_run mem_behaviour mem_env (PeerId []) (progressed (GetProviders (Inr (FoundProviders {PeerId [1]}))) 7 #
     progressed (GetProviders (Inr NoAdditionalProviders)) 7 # []) (new_node sample_world) = (Err e, n')"
  by (rule second_result_ends_swarm) simp_all

lemma swarm_run_Cons:
  "swarm_step beh env lp inp n = (Ok (), n') \<Longrightarrow> swarm_run beh env lp (inp # rest) n = swarm_run beh env lp rest n'"
  by (simp add: swarm_run_def act_bind_def)

lemma swarm_run_single: "swarm_run beh env lp [inp] n = swarm_step beh env lp inp n"
  by (auto simp: swarm_run_def act_bind_def act_return_def split: prod.splits outcome.splits)

text \<open>Every prefix of the inputs is typed in the state it meets.\<close>

fun typed_run :: "'w behaviour \<Rightarrow> 'w storage_env \<Rightarrow> peer_id \<Rightarrow> input list \<Rightarrow> 'w node \<Rightarrow> bool" where
  "typed_run beh env lp [] n = True"
| "typed_run beh env lp (inp # rest) n = (typed_input n inp \<and> is_ok (fst (swarm_step beh env lp inp n)) \<and>
     typed_run beh env lp rest (snd (swarm_step beh env lp inp n)))"

lemma typed_run_reachable:
  "reachable beh env lp typed_input w n \<Longrightarrow> typed_run beh env lp inputs n
     \<Longrightarrow> reachable beh env lp typed_input w (snd (swarm_run beh env lp inputs n))"
proof (induction inputs arbitrary: n)
  case (Cons inp rest)
  then have s: "swarm_step beh env lp inp n = (Ok (), snd (swarm_step beh env lp inp n))"
    using is_ok_pair [of "swarm_step beh env lp inp n"] by simp
  with Cons show ?case using reachable.step [OF Cons.prems(1) _ s] by (simp add: swarm_run_Cons [OF s])
qed (simp add: swarm_run_def act_simps)

lemma sample_reachable:
  "reachable mem_behaviour mem_env (PeerId []) typed_input sample_world
     (snd (swarm_run mem_behaviour mem_env (PeerId []) sample_inputs (new_node sample_world)))"
  by (rule typed_run_reachable [OF reachable.start]) code_simp

theorem swarm_forgets_no_caller_witness:
  "1 \<in> pending (snd (swarm_run mem_behaviour mem_env (PeerId []) sample_inputs (new_node sample_world)))"
proof -
  define n where "n = snd (swarm_run mem_behaviour mem_env (PeerId []) sample_inputs (new_node sample_world))"
  have "next_chan n = 2" "case replies n 1 of None \<Rightarrow> True | Some _ \<Rightarrow> False"
    unfolding n_def by code_simp+
  then have "1 < next_chan n" "replies n 1 = None" by (simp_all split: option.splits)
  with swarm_forgets_no_caller [OF mem_ids_fresh sample_reachable] show ?thesis unfolding n_def by blast
qed

theorem swarm_answers_once_witness:
  "\<exists>n r n'. swarm_step mem_behaviour mem_env (PeerId []) (progressed (GetRecord (Inl ''late'')) 5) n = (r, n')
     \<and> replies n 0 \<noteq> None \<and> 1 \<in> pending n \<and> node_inv n' \<and> replies n' 0 = replies n 0"
proof -
  define n where "n = snd (swarm_run mem_behaviour mem_env (PeerId []) sample_inputs (new_node sample_world))"
  obtain r n' where s: "swarm_step mem_behaviour mem_env (PeerId []) (progressed (GetRecord (Inl ''late'')) 5) n = (r, n')"
    by (cases "swarm_step mem_behaviour mem_env (PeerId []) (progressed (GetRecord (Inl ''late'')) 5) n")
  have "(case replies n 0 of None \<Rightarrow> False | Some _ \<Rightarrow> True)" "requests n 6 = Some (QVerificationRequest 1)"
    unfolding n_def by code_simp+
  then have "replies n 0 \<noteq> None" "1 \<in> pending n"
    using pending_insert [of n "Inr 6" "QVerificationRequest 1"] by (auto simp: slots_def split: option.splits)
  with swarm_answers_once [OF sample_reachable [folded n_def] s] s show ?thesis
    by (intro exI [of _ n] exI [of _ r] exI [of _ n']) auto
qed

end
