(* ===== verification/Malice.thy ===== *)
theory Malice
  imports Swarm_Runs "HOL-Library.List_Lexorder" "HOL-Library.Char_ord"
begin

text \<open>
  \<^verbatim>\<open>src/malice\<close> and \<^verbatim>\<open>src/bench\<close>: the misbehaviours a node can be configured with for experiments. One round of each
  loop is a definition; the pauses between rounds are left out. The table of deleted files of the
  bench is a field of the node, where the handler of challenges reads it.
\<close>

text \<open>\<^verbatim>\<open>print_now\<close>: a clock before 1970 panics.\<close>

definition print_now :: "'w behaviour \<Rightarrow> ('w node, unit) action" where
  "print_now beh = act_bind (lift_pure (system_time beh)) (\<lambda>now. if now < 0 then act_panic else act_return ())"

definition delete_all_step :: "'w behaviour \<Rightarrow> 'w storage_env \<Rightarrow> string \<Rightarrow> unit \<Rightarrow> ('w node, unit) action" where
  "delete_all_step beh env path u =
     act_bind (lift_outside (storage_remove env path)) (\<lambda>_.
     act_bind (lift_pure (system_time beh)) (\<lambda>now.
     act_bind (\<lambda>n. (Ok (), n\<lparr>deleted_files := (deleted_files n)(path \<mapsto> now)\<rparr>)) (\<lambda>_.
     print_now beh)))"

definition delete_all_round :: "'w behaviour \<Rightarrow> 'w storage_env \<Rightarrow> ('w node, unit) action" where
  "delete_all_round beh env =
     act_bind (lift_outside (storage_list env)) (\<lambda>paths. act_fold (delete_all_step beh env) paths ())"

definition delete_last_round :: "'w storage_env \<Rightarrow> ('w node, unit) action" where
  "delete_last_round env =
     act_bind (lift_outside (storage_list env)) (\<lambda>paths.
     case rev (sort paths) of
       [] \<Rightarrow> act_return ()
     | path # _ \<Rightarrow> lift_outside (storage_remove env path))"

datatype malicious_behavior = NoMalice | DeleteAll | DeleteLast

text \<open>\<^verbatim>\<open>start\<close> of the configured misbehaviour, for the given number of rounds.\<close>

primrec rounds :: "nat \<Rightarrow> ('w, unit) action \<Rightarrow> ('w, unit) action" where
  "rounds 0 m = act_return ()"
| "rounds (Suc n) m = act_bind m (\<lambda>_. rounds n m)"

definition malice_none_start :: "('w node, unit) action" where
  "malice_none_start = act_return ()"

definition delete_all_start :: "'w behaviour \<Rightarrow> 'w storage_env \<Rightarrow> nat \<Rightarrow> ('w node, unit) action" where
  "delete_all_start beh env n = rounds n (delete_all_round beh env)"

definition delete_last_start :: "'w storage_env \<Rightarrow> nat \<Rightarrow> ('w node, unit) action" where
  "delete_last_start env n = rounds n (delete_last_round env)"

text \<open>\<^verbatim>\<open>MaliceProvider::invoke\<close> selects which of them is started.\<close>

definition malice_start :: "'w behaviour \<Rightarrow> 'w storage_env \<Rightarrow> malicious_behavior \<Rightarrow> nat \<Rightarrow> ('w node, unit) action" where
  "malice_start beh env b n = (case b of
     NoMalice \<Rightarrow> malice_none_start
   | DeleteAll \<Rightarrow> delete_all_start beh env n
   | DeleteLast \<Rightarrow> delete_last_start env n)"

section \<open>Nothing is left\<close>

text \<open>The clock does not touch the files.\<close>

definition clock_apart :: "('w \<Rightarrow> string \<Rightarrow> bytes option) \<Rightarrow> 'w behaviour \<Rightarrow> bool" where
  "clock_apart content beh \<longleftrightarrow> (\<forall>w. content (snd (system_time beh w)) = content w)"

lemma storage_list_ok:
  assumes "fs_ok env content" "storage_list env w = (Ok paths, w')"
  shows "content w' = content w" "set paths = dom (content w)"
proof -
  obtain metas v where m: "io_call ObjectStoreError (fs_list env) w = (Ok metas, v)"
    and c: "act_result ObjectStoreError (collect_stream metas) v = (Ok paths, w')"
    using assms(2) unfolding storage_list_def by (rule act_bind_OkE)
  from m have f: "fs_list env w = (Inr metas, v)" by (cases rule: io_call_cases) auto
  from c have "collect_stream metas = Inr paths" "w' = v" by (cases "collect_stream metas"; auto simp: act_simps)+
  then show "content w' = content w" "set paths = dom (content w)"
    using assms(1) f unfolding fs_ok_def by blast+
qed

lemma storage_remove_ok:
  assumes "fs_ok env content" "storage_remove env p w = (Ok (), w')"
  shows "content w' = (content w)(p := None)"
proof -
  have "fs_delete env p w = (Inr (), w')" using assms(2) unfolding storage_remove_def by (cases rule: io_call_cases) auto
  with assms(1) show ?thesis unfolding fs_ok_def by fastforce
qed

lemma lift_outside_OkE:
  assumes "lift_outside m n = (Ok x, n')"
  obtains w' where "m (outside n) = (Ok x, w')" "n' = n\<lparr>outside := w'\<rparr>"
  using assms by (auto simp: lift_outside_def split: prod.splits)

lemma lift_pure_OkE:
  assumes "lift_pure f n = (Ok x, n')"
  shows "n' = n\<lparr>outside := snd (f (outside n))\<rparr>"
  using assms by (auto simp: lift_pure_def split: prod.splits)

lemma delete_all_step_ok:
  assumes "fs_ok env content" "clock_apart content beh" "delete_all_step beh env p u n = (Ok (), n')"
  shows "content (outside n') = (content (outside n))(p := None)" "dom (deleted_files n') = insert p (dom (deleted_files n))"
proof -
  obtain x n1 where r: "lift_outside (storage_remove env p) n = (Ok x, n1)"
    and s: "act_bind (lift_pure (system_time beh)) (\<lambda>now.
     act_bind (\<lambda>n. (Ok (), n\<lparr>deleted_files := (deleted_files n)(p \<mapsto> now)\<rparr>)) (\<lambda>_. print_now beh)) n1 = (Ok (), n')"
    using assms(3) unfolding delete_all_step_def by (rule act_bind_OkE)
  have n1: "content (outside n1) = (content (outside n))(p := None)" "deleted_files n1 = deleted_files n"
    using r storage_remove_ok [OF assms(1)] by (auto elim!: lift_outside_OkE)
  have t: "content (snd (system_time beh w)) = content w" for w using assms(2) by (simp add: clock_apart_def)
  have "content (outside n') = content (outside n1)" "dom (deleted_files n') = insert p (dom (deleted_files n1))"
    using s t by (auto simp: print_now_def act_bind_def lift_pure_def act_simps split: prod.splits if_splits) (metis snd_conv)+
  with n1 show "content (outside n') = (content (outside n))(p := None)"
    "dom (deleted_files n') = insert p (dom (deleted_files n))" by simp_all
qed

lemma delete_all_steps_ok:
  assumes "fs_ok env content" "clock_apart content beh" "act_fold (delete_all_step beh env) paths u n = (Ok u', n')"
  shows "content (outside n') = (content (outside n)) |` (- set paths) \<and>
    dom (deleted_files n') = dom (deleted_files n) \<union> set paths"
  using assms(3)
proof (induction paths arbitrary: n u)
  case Nil
  then show ?case by (simp add: act_simps)
next
  case (Cons p ps)
  then obtain x n1 where "delete_all_step beh env p u n = (Ok x, n1)" and rest: "act_fold (delete_all_step beh env) ps x n1 = (Ok u', n')"
    by (auto elim!: act_bind_OkE)
  with delete_all_step_ok [OF assms(1,2), of p u n n1] Cons.IH [OF rest] show ?case
    by (auto simp: fun_eq_iff restrict_map_def)
qed

text \<open>
  C26: A completed round of the node that deletes everything leaves no file in its storage, and notes every file it
  deleted for the bench.
\<close>

theorem delete_all_leaves_nothing:
  assumes "fs_ok env content" "clock_apart content beh" "delete_all_round beh env n = (Ok (), n')"
  shows "content (outside n') = Map.empty \<and> dom (content (outside n)) \<subseteq> dom (deleted_files n')"
proof -
  obtain paths n1 where l: "lift_outside (storage_list env) n = (Ok paths, n1)"
    and f: "act_fold (delete_all_step beh env) paths () n1 = (Ok (), n')"
    using assms(3) unfolding delete_all_round_def by (rule act_bind_OkE)
  have "content (outside n1) = content (outside n)" "set paths = dom (content (outside n))"
    using l storage_list_ok [OF assms(1)] by (auto elim!: lift_outside_OkE)
  with delete_all_steps_ok [OF assms(1,2) f] show ?thesis by (auto simp: restrict_map_def fun_eq_iff)
qed

theorem delete_all_leaves_nothing_witness:
  "\<exists>n'. delete_all_round mem_behaviour mem_env (new_node (sample_world\<lparr>files := [(''a'', [1]), (''b'', [2])]\<rparr>)) = (Ok (), n')
     \<and> files (outside n') = []"
proof -
  define n where "n = new_node (sample_world\<lparr>files := [(''a'', [1]), (''b'', [2])]\<rparr>)"
  define p where "p = delete_all_round mem_behaviour mem_env n"
  have "is_ok (fst p)" unfolding p_def n_def by code_simp
  then have p: "delete_all_round mem_behaviour mem_env n = (Ok (), snd p)" using is_ok_pair [of p] by (simp add: p_def)
  have fs: "fs_ok mem_env (\<lambda>w. map_of (files w))"
    by (auto simp: fs_ok_def mem_env_def collect_stream_Inr map_of_filter_neq dom_map_of_conv_image_fst
        split: option.splits if_splits)
  have "clock_apart (\<lambda>w. map_of (files w)) mem_behaviour" by (simp add: clock_apart_def mem_behaviour_def)
  from delete_all_leaves_nothing [OF fs this p] have "map_of (files (outside (snd p))) = Map.empty" by simp
  then have "files (outside (snd p)) = []" by (cases "files (outside (snd p))") (auto simp: fun_eq_iff split: if_splits)
  with p show ?thesis by (auto simp: n_def)
qed

end
