(* ===== verification/Ledger.thy ===== *)
theory Ledger
  imports Util Utf8
begin

text \<open>
  The ledger of \<^verbatim>\<open>src/ledger/mod.rs\<close>: a client of the immudb database that keeps the contracts, the
  reputation of the peers and the verification claims.

  \<open>'w immudb\<close> collects what the source calls of foreign crates and services: the calls of the immudb
  client, the parser of request metadata, the clock, the generator of UUIDs and the text form of
  peer identities. The type \<open>'w\<close> is the state of the world behind them. Every function of the source
  is an action on \<open>'w\<close>; the ledger object (its token and client) is passed explicitly, and only
  \<open>use_database\<close> returns a changed one.

  The statements are the strings of the source; \<open>placeholders\<close> reads the parameters out of them.
\<close>

section \<open>The database service\<close>

type_synonym metadata = "(string \<times> string) list"
type_synonym ('w, 'a) rpc = "'w \<Rightarrow> (ext_error + 'a) \<times> 'w"

record 'w immudb =
  rpc_connect :: "string \<Rightarrow> ('w, unit) rpc"
  rpc_login :: "bytes \<Rightarrow> bytes \<Rightarrow> ('w, string) rpc"
  rpc_set :: "metadata \<Rightarrow> (bytes \<times> bytes) list \<Rightarrow> ('w, unit) rpc"
  rpc_get :: "metadata \<Rightarrow> bytes \<Rightarrow> ('w, bytes) rpc"
  rpc_create_database_v2 :: "metadata \<Rightarrow> string \<Rightarrow> bool \<Rightarrow> ('w, unit) rpc"
  rpc_use_database :: "metadata \<Rightarrow> string \<Rightarrow> ('w, string) rpc"
  rpc_sql_exec :: "metadata \<Rightarrow> string \<Rightarrow> named_param list \<Rightarrow> ('w, unit) rpc"
  rpc_sql_query :: "metadata \<Rightarrow> string \<Rightarrow> named_param list \<Rightarrow> ('w, sql_row list) rpc"
  rpc_open_session :: "metadata \<Rightarrow> bytes \<Rightarrow> bytes \<Rightarrow> string \<Rightarrow> ('w, string) rpc"
  rpc_new_tx :: "metadata \<Rightarrow> ('w, string) rpc"
  rpc_commit :: "metadata \<Rightarrow> ('w, unit) rpc"
  rpc_close_session :: "metadata \<Rightarrow> ('w, unit) rpc"
  parse_metadata :: "string \<Rightarrow> ext_error + string"
  now_millis :: "'w \<Rightarrow> int \<times> 'w"
  new_v4 :: "'w \<Rightarrow> string \<times> 'w"
  to_base58 :: "peer_id \<Rightarrow> string"
  peer_id_from_str :: "string \<Rightarrow> ext_error + peer_id"
  uuid_to_string :: "uuid \<Rightarrow> string"

record immu_ledger =
  token :: string
  client :: "unit option"

section \<open>Requests\<close>

definition call :: "(ext_error \<Rightarrow> error_kind) \<Rightarrow> ('w, 'a) rpc \<Rightarrow> ('w, 'a) action" where
  "call wrap f w = (case f w of (r, w') \<Rightarrow> act_result wrap r w')"

definition with_client :: "immu_ledger \<Rightarrow> ('w, 'a) action \<Rightarrow> ('w, 'a) action" where
  "with_client l m = (case client l of None \<Rightarrow> act_fail MutexIsNotMutable | Some _ \<Rightarrow> m)"

definition metadata_value :: "'w immudb \<Rightarrow> string \<Rightarrow> ('w, string) action" where
  "metadata_value db v = act_result from_metadata_error (parse_metadata db v)"

text \<open>The metadata maps that the requests of the source carry.\<close>

definition auth_map :: "'w immudb \<Rightarrow> immu_ledger \<Rightarrow> ('w, metadata) action" where
  "auth_map db l =
     act_bind (metadata_value db (''Bearer '' @ token l)) (\<lambda>a. act_return [(''authorization'', a)])"

definition session_map :: "'w immudb \<Rightarrow> immu_ledger \<Rightarrow> string \<Rightarrow> ('w, metadata) action" where
  "session_map db l session_id =
     act_bind (auth_map db l) (\<lambda>m.
     act_bind (metadata_value db session_id) (\<lambda>s. act_return (m @ [(''sessionid'', s)])))"

definition tx_map :: "'w immudb \<Rightarrow> immu_ledger \<Rightarrow> string \<Rightarrow> string \<Rightarrow> ('w, metadata) action" where
  "tx_map db l session_id transaction_id =
     act_bind (session_map db l session_id) (\<lambda>m.
     act_bind (metadata_value db transaction_id) (\<lambda>t. act_return (m @ [(''transactionid'', t)])))"

definition ledger_set :: "'w immudb \<Rightarrow> immu_ledger \<Rightarrow> string \<Rightarrow> bytes \<Rightarrow> ('w, unit) action" where
  "ledger_set db l key value = with_client l (
     act_bind (auth_map db l) (\<lambda>m.
     call from_status (rpc_set db m [(as_bytes key, value)])))"

definition ledger_get :: "'w immudb \<Rightarrow> immu_ledger \<Rightarrow> string \<Rightarrow> ('w, string) action" where
  "ledger_get db l key = with_client l (
     act_bind (auth_map db l) (\<lambda>m.
     act_bind (call from_status (rpc_get db m (as_bytes key))) (\<lambda>value.
     case from_utf8 value of
       Some s \<Rightarrow> act_return s
     | None \<Rightarrow> act_fail (from_utf8_error (byte_string value)))))"

definition create_database :: "'w immudb \<Rightarrow> immu_ledger \<Rightarrow> string \<Rightarrow> ('w, unit) action" where
  "create_database db l name = with_client l (
     act_bind (auth_map db l) (\<lambda>m.
     call from_status (rpc_create_database_v2 db m name True)))"

definition use_database :: "'w immudb \<Rightarrow> immu_ledger \<Rightarrow> string \<Rightarrow> ('w, immu_ledger) action" where
  "use_database db l name = with_client l (
     act_bind (auth_map db l) (\<lambda>m.
     act_bind (call from_status (rpc_use_database db m name)) (\<lambda>t.
     act_return (l\<lparr>token := t\<rparr>))))"

definition sql_execute :: "'w immudb \<Rightarrow> immu_ledger \<Rightarrow> string \<Rightarrow> named_param list \<Rightarrow> ('w, unit) action" where
  "sql_execute db l sql params = with_client l (
     act_bind (auth_map db l) (\<lambda>m.
     call from_status (rpc_sql_exec db m sql params)))"

definition sql_execute_tx :: "'w immudb \<Rightarrow> immu_ledger \<Rightarrow> string \<Rightarrow> named_param list \<Rightarrow>
    string \<Rightarrow> string \<Rightarrow> ('w, unit) action" where
  "sql_execute_tx db l sql params session_id transaction_id = with_client l (
     act_bind (tx_map db l session_id transaction_id) (\<lambda>m.
     call from_status (rpc_sql_exec db m sql params)))"

definition query_execute :: "'w immudb \<Rightarrow> immu_ledger \<Rightarrow> string \<Rightarrow> named_param list \<Rightarrow>
    ('w, sql_row list) action" where
  "query_execute db l sql params = with_client l (
     act_bind (auth_map db l) (\<lambda>m.
     call from_status (rpc_sql_query db m sql params)))"

definition query_execute_tx :: "'w immudb \<Rightarrow> immu_ledger \<Rightarrow> string \<Rightarrow> named_param list \<Rightarrow>
    string \<Rightarrow> string \<Rightarrow> ('w, sql_row list) action" where
  "query_execute_tx db l sql params session_id transaction_id = with_client l (
     act_bind (tx_map db l session_id transaction_id) (\<lambda>m.
     call from_status (rpc_sql_query db m sql params)))"

section \<open>Statements and parameters\<close>

text \<open>The line breaks of the source's string literals.\<close>

definition sql_lines :: "string list \<Rightarrow> string" where
  "sql_lines ls = concat (map (\<lambda>l. l @ [CHR 0x0A]) (butlast ls)) @ last ls"

definition upsert_contract_sql :: string where
  "upsert_contract_sql = sql_lines
     [''UPSERT'',
      ''                INTO contracts(contract_uuid, peer_id, file_uuid, file_hash, upload_date, ttl, secret_n, secret_m, rows, cols)'',
      ''                VALUES (@contract_uuid, @peer_id, @file_uuid, @file_hash, @upload_date, @ttl, @secret_n, @secret_m, @rows, @cols);'']"

definition select_reputation_sql :: string where
  "select_reputation_sql = ''SELECT reputation FROM reputation WHERE peer_id = @peer_id;''"

definition select_staked_sql :: string where
  "select_staked_sql = ''SELECT staked FROM reputation WHERE peer_id = @peer_id;''"

definition select_row_sql :: string where
  "select_row_sql = ''SELECT * FROM reputation WHERE peer_id = @peer_id;''"

definition upsert_reputation_sql :: string where
  "upsert_reputation_sql = sql_lines
     ['''',
      ''            UPSERT'',
      ''            INTO reputation(peer_id, reputation, staked)'',
      ''            VALUES (@peer_id, @reputation, @staked)'']"

definition stake_sql :: string where
  "stake_sql = sql_lines
     ['''',
      ''                UPSERT'',
      ''                INTO reputation(peer_id, reputation, staked)'',
      ''                VALUES (@peer_id, @rep, @amount)'']"

definition unstake_sql :: string where
  "unstake_sql = sql_lines
     ['''',
      ''                UPSERT'',
      ''                INTO reputation(peer_id, reputation, staked)'',
      ''                VALUES (@peer_id, @rep, @staked)'']"

definition select_contract_sql :: string where
  "select_contract_sql = ''SELECT * FROM contracts WHERE file_uuid = @file_uuid;''"

definition select_all_contracts_sql :: string where
  "select_all_contracts_sql = ''SELECT * FROM contracts;''"

definition select_verified_sql :: string where
  "select_verified_sql = ''SELECT * FROM verifications WHERE contract_uuid = @contract_uuid;''"

definition upsert_claim_sql :: string where
  "upsert_claim_sql = sql_lines
     [''UPSERT'',
      ''                INTO verifications(contract_uuid, verified_by_id, verification_time, succeeded)'',
      ''                VALUES (@contract_uuid, @verified_by_id, @verification_time, @succeeded);'']"

definition create_contracts_sql :: string where
  "create_contracts_sql = sql_lines
     [''CREATE TABLE IF NOT EXISTS contracts ('',
      ''            contract_uuid   VARCHAR[36],'',
      ''            peer_id         VARCHAR[53],'',
      ''            file_uuid       VARCHAR[36],'',
      ''            file_hash       VARCHAR[1024],'',
      ''            upload_date     INTEGER,'',
      ''            ttl             INTEGER,'',
      ''            secret_n        BLOB,'',
      ''            secret_m        BLOB,'',
      ''            rows            INTEGER,'',
      ''            cols            INTEGER,'',
      ''            PRIMARY KEY (file_uuid)'',
      ''        );'']"

definition create_reputation_sql :: string where
  "create_reputation_sql = sql_lines
     [''CREATE TABLE IF NOT EXISTS reputation ('',
      ''            peer_id         VARCHAR[53],'',
      ''            reputation      INTEGER,'',
      ''            staked          INTEGER,'',
      ''            PRIMARY KEY (peer_id)'',
      ''        );'']"

definition create_verifications_sql :: string where
  "create_verifications_sql = sql_lines
     [''CREATE TABLE IF NOT EXISTS verifications ('',
      ''            contract_uuid     VARCHAR[36],'',
      ''            verified_by_id    VARCHAR[53],'',
      ''            verification_time INTEGER,'',
      ''            succeeded         BOOLEAN,'',
      ''            PRIMARY KEY (contract_uuid, verified_by_id)'',
      ''        );'']"

definition param :: "string \<Rightarrow> val \<Rightarrow> named_param" where
  "param name v = NamedParam name (Some (SqlValue (Some v)))"

text \<open>The first column of a row as a number, and rows as numbers: anything else counts as 0.\<close>

definition number_at :: "sql_row \<Rightarrow> nat \<Rightarrow> int" where
  "number_at row i = (case index row i of Some (SqlValue (Some (N x))) \<Rightarrow> x | _ \<Rightarrow> 0)"

definition first_number_at :: "sql_row list \<Rightarrow> nat \<Rightarrow> int" where
  "first_number_at response i = (case response of row # _ \<Rightarrow> number_at row i | [] \<Rightarrow> 0)"

text \<open>\<^verbatim>\<open>SystemTime::now().duration_since(UNIX_EPOCH)?\<close>, in milliseconds.\<close>

definition since_epoch :: "'w immudb \<Rightarrow> ('w, int) action" where
  "since_epoch db w = (case now_millis db w of (t, w') \<Rightarrow>
     if t < 0 then act_fail from_system_time_error w' else act_return t w')"

section \<open>Contracts\<close>

definition contract_params :: "'w immudb \<Rightarrow> contract \<Rightarrow> named_param list" where
  "contract_params db c =
     [param ''contract_uuid'' (S (c_contract_uuid c)), param ''peer_id'' (S (to_base58 db (c_peer_id c))),
      param ''file_uuid'' (S (c_file_uuid c)), param ''file_hash'' (S (c_file_hash c)),
      param ''upload_date'' (N (c_upload_date c)), param ''ttl'' (N (c_ttl c)),
      param ''secret_n'' (Bs (c_secret_n c)), param ''secret_m'' (Bs (c_secret_m c)),
      param ''rows'' (N (c_rows c)), param ''cols'' (N (c_cols c))]"

definition create_contract :: "'w immudb \<Rightarrow> immu_ledger \<Rightarrow> peer_id \<Rightarrow> uuid \<Rightarrow> string \<Rightarrow> int \<Rightarrow>
    bytes \<Rightarrow> bytes \<Rightarrow> int \<Rightarrow> int \<Rightarrow> ('w, unit) action" where
  "create_contract db l peer file_uuid file_hash ttl secret_n secret_m rows cols =
     act_bind (since_epoch db) (\<lambda>now.
     act_bind (\<lambda>w. case new_v4 db w of (u, w') \<Rightarrow> (Ok u, w')) (\<lambda>contract_uuid.
     sql_execute db l upsert_contract_sql (contract_params db
       \<lparr>c_contract_uuid = contract_uuid, c_peer_id = peer, c_file_uuid = uuid_to_string db file_uuid,
        c_file_hash = file_hash, c_upload_date = as_i64 (now div 1000), c_ttl = ttl, c_secret_n = secret_n,
        c_secret_m = secret_m, c_rows = rows, c_cols = cols\<rparr>)))"

definition string_at :: "sql_row \<Rightarrow> nat \<Rightarrow> ('w, string) action" where
  "string_at row i = (case index row i of Some (SqlValue (Some (S x))) \<Rightarrow> act_return x
     | _ \<Rightarrow> act_fail (InvalidSqlRow row))"

definition int_at :: "sql_row \<Rightarrow> nat \<Rightarrow> ('w, int) action" where
  "int_at row i = (case index row i of Some (SqlValue (Some (N x))) \<Rightarrow> act_return x
     | _ \<Rightarrow> act_fail (InvalidSqlRow row))"

definition bytes_at :: "sql_row \<Rightarrow> nat \<Rightarrow> ('w, bytes) action" where
  "bytes_at row i = (case index row i of Some (SqlValue (Some (Bs x))) \<Rightarrow> act_return x
     | _ \<Rightarrow> act_fail (InvalidSqlRow row))"

definition bool_at :: "sql_row \<Rightarrow> nat \<Rightarrow> ('w, bool) action" where
  "bool_at row i = (case index row i of Some (SqlValue (Some (B x))) \<Rightarrow> act_return x
     | _ \<Rightarrow> act_fail (InvalidSqlRow row))"

definition peer_at :: "'w immudb \<Rightarrow> sql_row \<Rightarrow> nat \<Rightarrow> ('w, peer_id) action" where
  "peer_at db row i =
     act_bind (string_at row i) (\<lambda>x. act_result InvalidPeerId (peer_id_from_str db x))"

definition map_row_to_contract :: "'w immudb \<Rightarrow> sql_row \<Rightarrow> ('w, contract) action" where
  "map_row_to_contract db row =
     act_bind (string_at row 0) (\<lambda>contract_uuid.
     act_bind (peer_at db row 1) (\<lambda>peer.
     act_bind (string_at row 2) (\<lambda>file_uuid.
     act_bind (string_at row 3) (\<lambda>file_hash.
     act_bind (int_at row 4) (\<lambda>upload_date.
     act_bind (int_at row 5) (\<lambda>ttl.
     act_bind (bytes_at row 6) (\<lambda>secret_n.
     act_bind (bytes_at row 7) (\<lambda>secret_m.
     act_bind (int_at row 8) (\<lambda>rows.
     act_bind (int_at row 9) (\<lambda>cols.
     act_return \<lparr>c_contract_uuid = contract_uuid, c_peer_id = peer, c_file_uuid = file_uuid,
       c_file_hash = file_hash, c_upload_date = upload_date, c_ttl = ttl, c_secret_n = secret_n,
       c_secret_m = secret_m, c_rows = rows, c_cols = cols\<rparr>))))))))))"

definition map_row_to_verification_claim :: "'w immudb \<Rightarrow> sql_row \<Rightarrow> ('w, verification_claim) action" where
  "map_row_to_verification_claim db row =
     act_bind (string_at row 0) (\<lambda>contract_uuid.
     act_bind (peer_at db row 1) (\<lambda>verified_by_id.
     act_bind (int_at row 2) (\<lambda>verification_time.
     act_bind (bool_at row 3) (\<lambda>succeeded.
     act_return \<lparr>v_contract_uuid = contract_uuid, v_verified_by_id = verified_by_id,
       v_verification_time = verification_time, v_succeeded = succeeded\<rparr>))))"

text \<open>\<^verbatim>\<open>into_iter().map(f).collect::<Res<Vec<_>>>()\<close>: the first error wins.\<close>

definition act_collect :: "('x \<Rightarrow> ('w, 'a) action) \<Rightarrow> 'x list \<Rightarrow> ('w, 'a list) action" where
  "act_collect f xs = act_fold (\<lambda>x acc. act_bind (f x) (\<lambda>y. act_return (acc @ [y]))) xs []"

definition get_contract :: "'w immudb \<Rightarrow> immu_ledger \<Rightarrow> string \<Rightarrow> ('w, contract) action" where
  "get_contract db l file_uuid =
     act_bind (query_execute db l select_contract_sql [param ''file_uuid'' (S file_uuid)]) (\<lambda>response.
     case response of
       [] \<Rightarrow> act_fail InvalidSql
     | row # _ \<Rightarrow> map_row_to_contract db row)"

definition get_all_contracts :: "'w immudb \<Rightarrow> immu_ledger \<Rightarrow> ('w, contract list) action" where
  "get_all_contracts db l =
     act_bind (query_execute db l select_all_contracts_sql []) (act_collect (map_row_to_contract db))"

definition get_contracts :: "'w immudb \<Rightarrow> immu_ledger \<Rightarrow> string \<Rightarrow> ('w, contract list) action" where
  "get_contracts db l file_uuid =
     act_bind (query_execute db l select_contract_sql [param ''file_uuid'' (S file_uuid)])
       (act_collect (map_row_to_contract db))"

section \<open>Reputation\<close>

definition get_reputation :: "'w immudb \<Rightarrow> immu_ledger \<Rightarrow> peer_id \<Rightarrow> ('w, int) action" where
  "get_reputation db l peer =
     act_bind (query_execute db l select_reputation_sql [param ''peer_id'' (S (to_base58 db peer))])
       (\<lambda>response. act_return (first_number_at response 0))"

definition get_staked :: "'w immudb \<Rightarrow> immu_ledger \<Rightarrow> peer_id \<Rightarrow> ('w, int) action" where
  "get_staked db l peer =
     act_bind (query_execute db l select_staked_sql [param ''peer_id'' (S (to_base58 db peer))]) (\<lambda>response.
     case response of
       [] \<Rightarrow> act_fail InvalidSql
     | row # _ \<Rightarrow> act_return (number_at row 0))"

text \<open>A session and a read-write transaction in it.\<close>

definition begin_tx :: "'w immudb \<Rightarrow> immu_ledger \<Rightarrow> ('w, string \<times> string) action" where
  "begin_tx db l = with_client l (
     act_bind (auth_map db l) (\<lambda>m.
     act_bind (call from_status
       (rpc_open_session db m (as_bytes ''immudb'') (as_bytes ''immudb'') DATABASE_NAME)) (\<lambda>session_id.
     act_bind (session_map db l session_id) (\<lambda>m.
     act_bind (call from_status (rpc_new_tx db m)) (\<lambda>transaction_id.
     act_return (session_id, transaction_id))))))"

definition end_tx :: "'w immudb \<Rightarrow> immu_ledger \<Rightarrow> string \<Rightarrow> string \<Rightarrow> ('w, unit) action" where
  "end_tx db l session_id transaction_id = with_client l (
     act_bind (tx_map db l session_id transaction_id) (\<lambda>m.
     act_bind (call from_status (rpc_commit db m)) (\<lambda>_.
     act_bind (session_map db l session_id) (\<lambda>m.
     call from_status (rpc_close_session db m)))))"

definition increase_reputation :: "'w immudb \<Rightarrow> immu_ledger \<Rightarrow> peer_id \<Rightarrow> int \<Rightarrow> ('w, unit) action" where
  "increase_reputation db l peer amount =
     act_bind (begin_tx db l) (\<lambda>(session_id, transaction_id).
     act_bind (query_execute_tx db l select_row_sql [param ''peer_id'' (S (to_base58 db peer))]
                 session_id transaction_id) (\<lambda>response.
     let reputation = first_number_at response 1; staked = first_number_at response 2 in
     act_bind (act_option (i64_add reputation amount)) (\<lambda>reputation'.
     act_try (sql_execute_tx db l upsert_reputation_sql
                [param ''peer_id'' (S (to_base58 db peer)), param ''reputation'' (N reputation'),
                 param ''staked'' (N staked)] session_id transaction_id) (\<lambda>_.
     end_tx db l session_id transaction_id))))"

definition decrease_reputation :: "'w immudb \<Rightarrow> immu_ledger \<Rightarrow> peer_id \<Rightarrow> int \<Rightarrow> ('w, unit) action" where
  "decrease_reputation db l peer amount =
     act_bind (act_option (i64_neg amount)) (increase_reputation db l peer)"

definition stake_reputation :: "'w immudb \<Rightarrow> immu_ledger \<Rightarrow> peer_id \<Rightarrow> int \<Rightarrow> ('w, unit) action" where
  "stake_reputation db l peer amount =
     act_bind (get_reputation db l peer) (\<lambda>rep.
     if rep < amount then act_fail InsufficientReputationToStake
     else act_bind (act_option (i64_sub rep amount)) (\<lambda>rep'.
     act_bind (act_option (i64_add rep amount)) (\<lambda>staked'.
     sql_execute db l stake_sql
       [param ''peer_id'' (S (to_base58 db peer)), param ''rep'' (N rep'), param ''staked'' (N staked')])))"

definition unstake_reputation :: "'w immudb \<Rightarrow> immu_ledger \<Rightarrow> peer_id \<Rightarrow> int \<Rightarrow> ('w, unit) action" where
  "unstake_reputation db l peer amount =
     act_bind (get_reputation db l peer) (\<lambda>rep.
     act_bind (get_staked db l peer) (\<lambda>staked.
     if staked < amount then act_fail InsufficientReputationToUnstake
     else act_bind (act_option (i64_add rep amount)) (\<lambda>rep'.
     act_bind (act_option (i64_sub staked amount)) (\<lambda>staked'.
     sql_execute db l unstake_sql
       [param ''peer_id'' (S (to_base58 db peer)), param ''rep'' (N rep'), param ''staked'' (N staked')]))))"

section \<open>Verification claims\<close>

definition get_previous_verified :: "'w immudb \<Rightarrow> immu_ledger \<Rightarrow> string \<Rightarrow> ('w, verification_claim list) action" where
  "get_previous_verified db l contract_uuid =
     act_bind (query_execute db l select_verified_sql [param ''contract_uuid'' (S contract_uuid)])
       (act_collect (map_row_to_verification_claim db))"

definition create_verified_claim :: "'w immudb \<Rightarrow> immu_ledger \<Rightarrow> string \<Rightarrow> peer_id \<Rightarrow> bool \<Rightarrow> ('w, unit) action" where
  "create_verified_claim db l contract_uuid verified_by_id succeeded =
     act_bind (since_epoch db) (\<lambda>now.
     sql_execute db l upsert_claim_sql
       [param ''contract_uuid'' (S contract_uuid), param ''verified_by_id'' (S (to_base58 db verified_by_id)),
        param ''verification_time'' (N (as_i64 now)), param ''succeeded'' (B succeeded)])"

section \<open>Start-up\<close>

definition ledger_login :: "'w immudb \<Rightarrow> string \<Rightarrow> string \<Rightarrow> string \<Rightarrow> ('w, immu_ledger) action" where
  "ledger_login db address username password =
     act_bind (call from_transport_error (rpc_connect db (''http://'' @ address))) (\<lambda>_.
     act_bind (call from_status (rpc_login db (as_bytes username) (as_bytes password))) (\<lambda>t.
     act_return \<lparr>token = t, client = Some ()\<rparr>))"

definition create_table :: "'w immudb \<Rightarrow> string \<Rightarrow> immu_ledger \<Rightarrow> ('w, immu_ledger) action" where
  "create_table db sql l = act_bind (sql_execute db l sql []) (\<lambda>_. act_return l)"

definition init_database :: "'w immudb \<Rightarrow> immu_ledger \<Rightarrow> ('w, immu_ledger) action" where
  "init_database db l =
     act_bind (act_bind (create_database db l DATABASE_NAME) (\<lambda>_. act_return l)) (\<lambda>l.
     act_bind (use_database db l DATABASE_NAME) (\<lambda>l.
     act_bind (create_table db create_contracts_sql l) (\<lambda>l.
     act_bind (create_table db create_reputation_sql l) (\<lambda>l.
     create_table db create_verifications_sql l))))"

text \<open>\<^verbatim>\<open>LedgerProvider::invoke\<close>: log in and prepare the database; the injector sees any error.\<close>

definition ledger_provider :: "'w immudb \<Rightarrow> string \<Rightarrow> string \<Rightarrow> string \<Rightarrow> ('w, immu_ledger) action" where
  "ledger_provider db username password address =
     act_bind (ledger_login db address username password) (init_database db)"

end
