(* ===== verification/Ledger_Spec.thy ===== *)
theory Ledger_Spec
  imports Ledger "HOL-Library.AList"
begin

text \<open>
  What the ledger guarantees on top of a database that executes its statements as documented.

  \<open>exec_result\<close> and \<open>query_ok\<close> give the documented meaning of the statements of \<open>Ledger\<close> on three
  tables with primary keys: a statement with an unbound parameter is rejected, \<^verbatim>\<open>UPSERT\<close> replaces
  the row with the same primary key, \<^verbatim>\<open>SELECT\<close> returns the matching rows. \<open>autocommit_spec\<close> and
  \<open>tx_spec\<close> say that the service runs single statements and transactions that way, whenever it does
  not report an error: \<open>view\<close> reads the committed tables, \<open>txv\<close> those of an open transaction.
  \<open>mem_db\<close> is a small database that satisfies them.
\<close>

section \<open>Tables and statements\<close>

record tables =
  contracts_tbl :: "(string \<times> sql_row) list"
  reputation_tbl :: "(string \<times> sql_row) list"
  claims_tbl :: "((string \<times> string) \<times> sql_row) list"

definition name_char :: "char \<Rightarrow> bool" where
  "name_char c \<longleftrightarrow> c = CHR ''_'' \<or> (97 \<le> (of_char c :: nat) \<and> of_char c \<le> (122 :: nat))"

primrec placeholders :: "string \<Rightarrow> string list" where
  "placeholders [] = []"
| "placeholders (c # cs) = (if c = CHR ''@'' then [takeWhile name_char cs] else []) @ placeholders cs"

definition bound :: "string \<Rightarrow> named_param list \<Rightarrow> bool" where
  "bound sql ps \<longleftrightarrow> set (placeholders sql) \<subseteq> set (map param_name ps)"

definition param_val :: "named_param list \<Rightarrow> string \<Rightarrow> sql_value" where
  "param_val ps n = (case map_of (map (\<lambda>p. (param_name p, param_value p)) ps) n of
     Some (Some v) \<Rightarrow> v | _ \<Rightarrow> SqlValue None)"

definition values_row :: "string \<Rightarrow> named_param list \<Rightarrow> sql_row" where
  "values_row sql ps = map (param_val ps) (placeholders sql)"

definition text_of :: "sql_value \<Rightarrow> string" where
  "text_of v = (case sql_val v of Some (S s) \<Rightarrow> s | _ \<Rightarrow> [])"

definition exec_result :: "string \<Rightarrow> named_param list \<Rightarrow> tables \<Rightarrow> tables option" where
  "exec_result sql ps tb =
     (let row = values_row sql ps in
      if \<not> bound sql ps then None
      else if sql = upsert_contract_sql then
        Some (tb\<lparr>contracts_tbl := AList.update (text_of (row ! 2)) row (contracts_tbl tb)\<rparr>)
      else if sql = upsert_reputation_sql \<or> sql = stake_sql \<or> sql = unstake_sql then
        Some (tb\<lparr>reputation_tbl := AList.update (text_of (row ! 0)) row (reputation_tbl tb)\<rparr>)
      else if sql = upsert_claim_sql then
        Some (tb\<lparr>claims_tbl := AList.update (text_of (row ! 0), text_of (row ! 1)) row (claims_tbl tb)\<rparr>)
      else if sql \<in> {create_contracts_sql, create_reputation_sql, create_verifications_sql} then Some tb
      else None)"

definition rows_with_key :: "string \<Rightarrow> (string \<times> sql_row) list \<Rightarrow> sql_row list" where
  "rows_with_key k t = (case map_of t k of Some row \<Rightarrow> [row] | None \<Rightarrow> [])"

definition query_ok :: "string \<Rightarrow> named_param list \<Rightarrow> tables \<Rightarrow> sql_row list \<Rightarrow> bool" where
  "query_ok sql ps tb rows \<longleftrightarrow>
     (let k = text_of (param_val ps (hd (placeholders sql))) in bound sql ps \<and>
      (if sql = select_contract_sql then rows = rows_with_key k (contracts_tbl tb)
       else if sql = select_all_contracts_sql then set rows = snd ` set (contracts_tbl tb)
       else if sql = select_row_sql then rows = rows_with_key k (reputation_tbl tb)
       else if sql = select_reputation_sql then
         rows = map (\<lambda>row. [row ! 1]) (rows_with_key k (reputation_tbl tb))
       else if sql = select_staked_sql then
         rows = map (\<lambda>row. [row ! 2]) (rows_with_key k (reputation_tbl tb))
       else if sql = select_verified_sql then
         set rows = {row. \<exists>v. ((k, v), row) \<in> set (claims_tbl tb)}
       else False))"

section \<open>The service\<close>

definition metadata_faithful :: "'w immudb \<Rightarrow> bool" where
  "metadata_faithful db \<longleftrightarrow> (\<forall>v v'. parse_metadata db v = Inr v' \<longrightarrow> v' = v)"

definition autocommit_spec :: "'w immudb \<Rightarrow> ('w \<Rightarrow> tables) \<Rightarrow> bool" where
  "autocommit_spec db view \<longleftrightarrow>
     (\<forall>m sql ps w r w'. map_of m ''transactionid'' = None \<longrightarrow> rpc_sql_exec db m sql ps w = (r, w') \<longrightarrow>
        (case r of Inr _ \<Rightarrow> exec_result sql ps (view w) = Some (view w') | Inl _ \<Rightarrow> view w' = view w)) \<and>
     (\<forall>m sql ps w r w'. map_of m ''transactionid'' = None \<longrightarrow> rpc_sql_query db m sql ps w = (r, w') \<longrightarrow>
        view w' = view w \<and> (case r of Inr rows \<Rightarrow> query_ok sql ps (view w) rows | Inl _ \<Rightarrow> True)) \<and>
     (\<forall>w. view (snd (now_millis db w)) = view w \<and> view (snd (new_v4 db w)) = view w)"

definition session_of :: "metadata \<Rightarrow> string \<times> string" where
  "session_of m = (the (map_of m ''sessionid''), the (map_of m ''transactionid''))"

definition tx_spec :: "'w immudb \<Rightarrow> ('w \<Rightarrow> tables) \<Rightarrow> ('w \<Rightarrow> string \<times> string \<Rightarrow> tables option) \<Rightarrow> bool" where
  "tx_spec db view txv \<longleftrightarrow>
     (\<forall>m u p d w r w'. rpc_open_session db m u p d w = (r, w') \<longrightarrow> view w' = view w) \<and>
     (\<forall>m w r w'. rpc_new_tx db m w = (r, w') \<longrightarrow> view w' = view w \<and>
        (case r of Inr t \<Rightarrow> txv w' (the (map_of m ''sessionid''), t) = Some (view w) | Inl _ \<Rightarrow> True)) \<and>
     (\<forall>m sql ps w r w' tb. map_of m ''transactionid'' \<noteq> None \<longrightarrow> txv w (session_of m) = Some tb \<longrightarrow>
        rpc_sql_query db m sql ps w = (r, w') \<longrightarrow> view w' = view w \<and>
        (case r of Inr rows \<Rightarrow> query_ok sql ps tb rows \<and> txv w' (session_of m) = Some tb | Inl _ \<Rightarrow> True)) \<and>
     (\<forall>m sql ps w r w' tb. map_of m ''transactionid'' \<noteq> None \<longrightarrow> txv w (session_of m) = Some tb \<longrightarrow>
        rpc_sql_exec db m sql ps w = (r, w') \<longrightarrow> view w' = view w \<and>
        (case r of Inr _ \<Rightarrow> exec_result sql ps tb \<noteq> None \<and> txv w' (session_of m) = exec_result sql ps tb
         | Inl _ \<Rightarrow> txv w' (session_of m) \<in> {Some tb, None})) \<and>
     (\<forall>m w r w'. rpc_commit db m w = (r, w') \<longrightarrow>
        (case r of Inr _ \<Rightarrow> view w' = (case txv w (session_of m) of Some tb \<Rightarrow> tb | None \<Rightarrow> view w)
         | Inl _ \<Rightarrow> view w' = view w)) \<and>
     (\<forall>m w r w'. rpc_close_session db m w = (r, w') \<longrightarrow> view w' = view w)"

section \<open>Requests\<close>

lemma auth_map_cases:
  "(\<exists>e. auth_map db l w = (Err (InvalidTonicMetadataValue e), w)) \<or> (\<exists>a. auth_map db l w = (Ok [(''authorization'', a)], w))"
  by (cases "parse_metadata db (''Bearer '' @ token l)")
     (simp_all add: auth_map_def metadata_value_def act_bind_def act_result_def act_simps)

lemma call_cases:
  assumes "call wrap f w = (r, w')"
  obtains e where "f w = (Inl e, w')" "r = Err (wrap e)" | x where "f w = (Inr x, w')" "r = Ok x"
  using assms by (auto simp: call_def act_result_def act_simps split: prod.splits sum.splits)

text \<open>The errors of a request: no client, a token that is no header value, a refused call.\<close>

definition service_error :: "error_kind \<Rightarrow> bool" where
  "service_error e = (case e of MutexIsNotMutable \<Rightarrow> True | InvalidTonicMetadataValue _ \<Rightarrow> True
     | FailedTonicRequest _ \<Rightarrow> True | _ \<Rightarrow> False)"

lemma request_cases:
  assumes "with_client l (act_bind (auth_map db l) (\<lambda>m. call wrap (f m))) w = (r, w')"
  obtains e where "r = Err e" "w' = w" "service_error e"
    | a e where "f [(''authorization'', a)] w = (Inl e, w')" "r = Err (wrap e)"
    | a x where "f [(''authorization'', a)] w = (Inr x, w')" "r = Ok x"
proof (cases "client l")
  case None
  with assms that(1) show ?thesis by (auto simp: with_client_def service_error_def act_simps)
next
  case (Some c)
  from auth_map_cases [of db l w] consider e where "auth_map db l w = (Err (InvalidTonicMetadataValue e), w)"
    | a where "auth_map db l w = (Ok [(''authorization'', a)], w)" by blast
  then show ?thesis
  proof cases
    case 1
    with assms Some that(1) show ?thesis by (auto simp: with_client_def service_error_def act_simps)
  next
    case 2
    with assms Some have "call wrap (f [(''authorization'', a)]) w = (r, w')"
      by (simp add: with_client_def act_simps)
    then show ?thesis by (cases rule: call_cases) (auto intro: that)
  qed
qed

lemma sql_execute_spec:
  assumes "autocommit_spec db view" "sql_execute db l sql ps w = (r, w')"
  shows "r = Ok () \<and> exec_result sql ps (view w) = Some (view w') \<or> (\<exists>e. r = Err e \<and> service_error e) \<and> view w' = view w"
proof -
  from assms(1) have spec: "case q of Inr _ \<Rightarrow> exec_result sql ps (view w) = Some (view v) | Inl _ \<Rightarrow> view v = view w"
    if "map_of m ''transactionid'' = None" "rpc_sql_exec db m sql ps w = (q, v)" for m q v
    using that unfolding autocommit_spec_def by blast
  from assms(2) show ?thesis unfolding sql_execute_def
  proof (cases rule: request_cases)
    case (2 a e)
    with spec [OF _ 2(1)] show ?thesis by (simp add: service_error_def)
  next
    case (3 a x)
    with spec [OF _ 3(1)] show ?thesis by simp
  qed simp
qed

lemma query_execute_spec:
  assumes "autocommit_spec db view" "query_execute db l sql ps w = (r, w')"
  shows "view w' = view w \<and> ((\<exists>rows. r = Ok rows \<and> query_ok sql ps (view w) rows) \<or> (\<exists>e. r = Err e \<and> service_error e))"
proof -
  from assms(1) have spec: "view v = view w \<and> (case q of Inr rows \<Rightarrow> query_ok sql ps (view w) rows | Inl _ \<Rightarrow> True)"
    if "map_of m ''transactionid'' = None" "rpc_sql_query db m sql ps w = (q, v)" for m q v
    using that unfolding autocommit_spec_def by blast
  from assms(2) show ?thesis unfolding query_execute_def
  proof (cases rule: request_cases)
    case (2 a e)
    with spec [OF _ 2(1)] show ?thesis by (simp add: service_error_def)
  next
    case (3 a x)
    with spec [OF _ 3(1)] show ?thesis by simp
  qed simp
qed

lemma act_bind_cases:
  assumes "act_bind m f w = (r, w')"
  obtains x v where "m w = (Ok x, v)" "f x v = (r, w')"
    | e where "m w = (Err e, w')" "r = Err e"
    | "m w = (Panic, w')" "r = Panic"
  using assms by (auto simp: act_bind_def split: prod.splits outcome.splits)

section \<open>Every statement but one binds its parameters\<close>

lemma placeholders_sql:
  "placeholders upsert_contract_sql = [''contract_uuid'', ''peer_id'', ''file_uuid'', ''file_hash'',
     ''upload_date'', ''ttl'', ''secret_n'', ''secret_m'', ''rows'', ''cols'']"
  "placeholders upsert_reputation_sql = [''peer_id'', ''reputation'', ''staked'']"
  "placeholders stake_sql = [''peer_id'', ''rep'', ''amount'']"
  "placeholders unstake_sql = [''peer_id'', ''rep'', ''staked'']"
  "placeholders upsert_claim_sql = [''contract_uuid'', ''verified_by_id'', ''verification_time'', ''succeeded'']"
  "placeholders select_contract_sql = [''file_uuid'']"
  "placeholders select_all_contracts_sql = []"
  "placeholders select_row_sql = [''peer_id'']"
  "placeholders select_reputation_sql = [''peer_id'']"
  "placeholders select_staked_sql = [''peer_id'']"
  "placeholders select_verified_sql = [''contract_uuid'']"
  by code_simp+

lemmas statement_defs = upsert_contract_sql_def upsert_reputation_sql_def stake_sql_def unstake_sql_def
  upsert_claim_sql_def select_contract_sql_def select_all_contracts_sql_def select_row_sql_def
  select_reputation_sql_def select_staked_sql_def select_verified_sql_def create_contracts_sql_def
  create_reputation_sql_def create_verifications_sql_def sql_lines_def

lemma statements_differ:
  "upsert_reputation_sql \<noteq> upsert_contract_sql" "stake_sql \<noteq> upsert_contract_sql"
  "unstake_sql \<noteq> upsert_contract_sql" "upsert_claim_sql \<noteq> upsert_contract_sql"
  "upsert_claim_sql \<noteq> upsert_reputation_sql" "upsert_claim_sql \<noteq> stake_sql" "upsert_claim_sql \<noteq> unstake_sql"
  "select_all_contracts_sql \<noteq> select_contract_sql" "select_row_sql \<noteq> select_contract_sql"
  "select_row_sql \<noteq> select_all_contracts_sql" "select_reputation_sql \<noteq> select_contract_sql"
  "select_reputation_sql \<noteq> select_all_contracts_sql" "select_reputation_sql \<noteq> select_row_sql"
  "select_staked_sql \<noteq> select_contract_sql" "select_staked_sql \<noteq> select_all_contracts_sql"
  "select_staked_sql \<noteq> select_row_sql" "select_staked_sql \<noteq> select_reputation_sql"
  "select_verified_sql \<noteq> select_contract_sql" "select_verified_sql \<noteq> select_all_contracts_sql"
  "select_verified_sql \<noteq> select_row_sql" "select_verified_sql \<noteq> select_reputation_sql"
  "select_verified_sql \<noteq> select_staked_sql"
  by (simp_all add: statement_defs)

lemma param_simps [simp]: "param_name (param n v) = n" "param_value (param n v) = Some (SqlValue (Some v))"
  by (simp_all add: param_def)

lemmas sql_simps = bound_def values_row_def param_val_def text_of_def placeholders_sql
  statements_differ rows_with_key_def Let_def

section \<open>Contracts\<close>

definition peer_text :: "'w immudb \<Rightarrow> bool" where
  "peer_text db \<longleftrightarrow> (\<forall>p. peer_id_from_str db (to_base58 db p) = Inr p)"

definition contract_row :: "'w immudb \<Rightarrow> contract \<Rightarrow> sql_row" where
  "contract_row db c = map (\<lambda>v. SqlValue (Some v))
     [S (c_contract_uuid c), S (to_base58 db (c_peer_id c)), S (c_file_uuid c), S (c_file_hash c),
      N (c_upload_date c), N (c_ttl c), Bs (c_secret_n c), Bs (c_secret_m c), N (c_rows c), N (c_cols c)]"

lemma values_row_contract: "values_row upsert_contract_sql (contract_params db c) = contract_row db c"
  by (simp add: sql_simps contract_params_def contract_row_def)

lemma map_row_to_contract_row:
  "peer_text db \<Longrightarrow> map_row_to_contract db (contract_row db c) w = (Ok c, w)"
  by (simp add: map_row_to_contract_def contract_row_def string_at_def int_at_def bytes_at_def peer_at_def
      act_bind_def act_simps peer_text_def)

lemma act_collect_ok:
  assumes "\<And>x. x \<in> set xs \<Longrightarrow> f x w = (Ok (g x), w)"
  shows "act_collect f xs w = (Ok (map g xs), w)"
proof -
  have "act_fold (\<lambda>x acc. act_bind (f x) (\<lambda>y. act_return (acc @ [y]))) xs acc w = (Ok (acc @ map g xs), w)" for acc
    using assms by (induction xs arbitrary: acc) (simp_all add: act_bind_def act_simps)
  then show ?thesis by (simp add: act_collect_def)
qed

lemma autocommit_clock:
  "autocommit_spec db view \<Longrightarrow> view (snd (now_millis db w)) = view w \<and> view (snd (new_v4 db w)) = view w"
  by (simp add: autocommit_spec_def)

text \<open>The contract that is created: its id is a new UUID, its date the time of the clock in seconds.\<close>

definition created_contract :: "'w immudb \<Rightarrow> peer_id \<Rightarrow> uuid \<Rightarrow> string \<Rightarrow> int \<Rightarrow> bytes \<Rightarrow> bytes \<Rightarrow> int \<Rightarrow> int \<Rightarrow> 'w \<Rightarrow> contract" where
  "created_contract db p fu h ttl n m rows cols w = (case now_millis db w of (now, w1) \<Rightarrow>
     \<lparr>c_contract_uuid = fst (new_v4 db w1), c_peer_id = p, c_file_uuid = uuid_to_string db fu, c_file_hash = h,
      c_upload_date = as_i64 (now div 1000), c_ttl = ttl, c_secret_n = n, c_secret_m = m, c_rows = rows, c_cols = cols\<rparr>)"

lemma created_contract_simps [simp]:
  "c_peer_id (created_contract db p fu h ttl n m rows cols w) = p"
  "c_file_uuid (created_contract db p fu h ttl n m rows cols w) = uuid_to_string db fu"
  "c_file_hash (created_contract db p fu h ttl n m rows cols w) = h"
  "c_ttl (created_contract db p fu h ttl n m rows cols w) = ttl"
  "c_secret_n (created_contract db p fu h ttl n m rows cols w) = n"
  "c_secret_m (created_contract db p fu h ttl n m rows cols w) = m"
  "c_rows (created_contract db p fu h ttl n m rows cols w) = rows"
  "c_cols (created_contract db p fu h ttl n m rows cols w) = cols"
  by (simp_all add: created_contract_def split: prod.split)

lemma create_contract_spec:
  assumes "autocommit_spec db view" "create_contract db l p fu h ttl n m rows cols w = (Ok (), w')"
  shows "contracts_tbl (view w') = AList.update (uuid_to_string db fu)
      (contract_row db (created_contract db p fu h ttl n m rows cols w)) (contracts_tbl (view w))"
proof -
  obtain t w1 where t: "now_millis db w = (t, w1)" "since_epoch db w = (Ok t, w1)" "view w1 = view w"
    using assms(2) autocommit_clock [OF assms(1), of w] unfolding create_contract_def
    by (auto elim!: act_bind_OkE simp: since_epoch_def act_simps split: prod.splits if_splits)
  define c where "c = created_contract db p fu h ttl n m rows cols w"
  have "sql_execute db l upsert_contract_sql (contract_params db c) (snd (new_v4 db w1)) = (Ok (), w')"
    using assms(2) t(1,2) by (auto simp: create_contract_def act_bind_def c_def created_contract_def split: prod.splits)
  from sql_execute_spec [OF assms(1) this]
  have "exec_result upsert_contract_sql (contract_params db c) (view w) = Some (view w')"
    using autocommit_clock [OF assms(1), of w1] t(3) by auto
  then have "view w' = (view w)\<lparr>contracts_tbl :=
      AList.update (text_of (contract_row db c ! 2)) (contract_row db c) (contracts_tbl (view w))\<rparr>"
    by (auto simp: exec_result_def Let_def values_row_contract split: if_splits)
  then show ?thesis by (simp add: contract_row_def text_of_def c_def)
qed

lemma get_contracts_spec:
  assumes "autocommit_spec db view" "peer_text db" "map_of (contracts_tbl (view w)) fu = Some (contract_row db c)"
    and "get_contracts db l fu w = (r, w')"
  shows "r = Ok [c] \<or> (\<exists>e. r = Err e \<and> service_error e)"
proof -
  let ?q = "query_execute db l select_contract_sql [param ''file_uuid'' (S fu)]"
  obtain q v where q: "?q w = (q, v)" by (cases "?q w")
  have "q = Ok [contract_row db c] \<or> (\<exists>e. q = Err e \<and> service_error e)"
    using query_execute_spec [OF assms(1) q] assms(3) by (auto simp: query_ok_def sql_simps)
  then show ?thesis
    using q assms(4) act_collect_ok [of "[contract_row db c]" "map_row_to_contract db" v "\<lambda>_. c"]
      map_row_to_contract_row [OF assms(2)]
    by (auto simp: get_contracts_def act_simps)
qed

text \<open>
  C16: A contract that was stored can be read back: the contracts of its file are exactly the one
  stored last, in all its fields: the peer, hash, time to live, secrets and dimensions that were stored, the new UUID it was given
  and the date of the clock at that moment, unless the database refuses the query.
\<close>

theorem create_then_get_contracts:
  assumes "autocommit_spec db view" "peer_text db"
    and "create_contract db l p fu h ttl n m rows cols w = (Ok (), w')"
    and "get_contracts db l' (uuid_to_string db fu) w' = (r, w'')"
  shows "r = Ok [\<lparr>c_contract_uuid = fst (new_v4 db (snd (now_millis db w))), c_peer_id = p, c_file_uuid = uuid_to_string db fu,
        c_file_hash = h, c_upload_date = as_i64 (fst (now_millis db w) div 1000), c_ttl = ttl, c_secret_n = n,
        c_secret_m = m, c_rows = rows, c_cols = cols\<rparr>]
    \<or> (\<exists>e. r = Err e \<and> service_error e)"
proof -
  have "map_of (contracts_tbl (view w')) (uuid_to_string db fu)
      = Some (contract_row db (created_contract db p fu h ttl n m rows cols w))"
    using create_contract_spec [OF assms(1,3)] by (simp add: update_conv')
  from get_contracts_spec [OF assms(1,2) this assms(4)] show ?thesis
    by (simp add: created_contract_def split: prod.splits)
qed


section \<open>Claims\<close>

definition claim_row :: "'w immudb \<Rightarrow> verification_claim \<Rightarrow> sql_row" where
  "claim_row db c = map (\<lambda>v. SqlValue (Some v))
     [S (v_contract_uuid c), S (to_base58 db (v_verified_by_id c)), N (v_verification_time c), B (v_succeeded c)]"

lemma map_row_to_claim_row:
  "peer_text db \<Longrightarrow> map_row_to_verification_claim db (claim_row db c) w = (Ok c, w)"
  by (simp add: map_row_to_verification_claim_def claim_row_def string_at_def int_at_def bool_at_def peer_at_def
      act_bind_def act_simps peer_text_def)

lemma create_verified_claim_spec:
  assumes "autocommit_spec db view" "create_verified_claim db l cu p b w = (r, w')"
  shows "r = Ok () \<and> (\<exists>t. view w' = (view w)\<lparr>claims_tbl := AList.update (cu, to_base58 db p)
            (claim_row db \<lparr>v_contract_uuid = cu, v_verified_by_id = p, v_verification_time = t, v_succeeded = b\<rparr>)
            (claims_tbl (view w))\<rparr>)
       \<or> (\<exists>e. r = Err e) \<and> view w' = view w"
  using assms(2) unfolding create_verified_claim_def
proof (cases rule: act_bind_cases)
  case (1 now v)
  then have "view v = view w" using autocommit_clock [OF assms(1), of w]
    by (auto simp: since_epoch_def act_simps split: prod.splits if_splits)
  moreover have "exec_result upsert_claim_sql [param ''contract_uuid'' (S cu), param ''verified_by_id'' (S (to_base58 db p)),
      param ''verification_time'' (N (as_i64 now)), param ''succeeded'' (B b)] tb = Some (tb\<lparr>claims_tbl := AList.update (cu, to_base58 db p)
      (claim_row db \<lparr>v_contract_uuid = cu, v_verified_by_id = p, v_verification_time = as_i64 now, v_succeeded = b\<rparr>) (claims_tbl tb)\<rparr>)" for tb
    by (simp add: exec_result_def sql_simps claim_row_def)
  ultimately show ?thesis
    using sql_execute_spec [OF assms(1) 1(2)] by (metis option.inject)
qed (use autocommit_clock [OF assms(1), of w] in \<open>auto simp: since_epoch_def act_simps split: prod.splits if_splits\<close>)

text \<open>
  C28: A verifier's claims about a contract can be read back: after a claim is stored, the claims of
  the contract are its earlier claims by other verifiers and this one; an earlier claim of the same
  verifier is replaced.
\<close>

theorem create_then_get_claims:
  assumes "autocommit_spec db view" "peer_text db"
    and "create_verified_claim db l cu p b w = (Ok (), w')"
    and "distinct (map fst (claims_tbl (view w)))"
    and "\<forall>(k, row) \<in> set (claims_tbl (view w)). \<exists>c. row = claim_row db c \<and> k = (v_contract_uuid c, to_base58 db (v_verified_by_id c))"
    and "get_previous_verified db l' cu w' = (Ok claims, w'')"
  shows "\<exists>c \<in> set claims. v_contract_uuid c = cu \<and> v_verified_by_id c = p \<and> v_succeeded c = b
           \<and> (\<forall>c' \<in> set claims. v_verified_by_id c' = p \<longrightarrow> c' = c)"
proof -
  obtain t where t: "claims_tbl (view w') = AList.update (cu, to_base58 db p)
       (claim_row db \<lparr>v_contract_uuid = cu, v_verified_by_id = p, v_verification_time = t, v_succeeded = b\<rparr>) (claims_tbl (view w))"
    using create_verified_claim_spec [OF assms(1,3)] by auto
  define c where "c = \<lparr>v_contract_uuid = cu, v_verified_by_id = p, v_verification_time = t, v_succeeded = b\<rparr>"
  let ?q = "query_execute db l' select_verified_sql [param ''contract_uuid'' (S cu)]"
  obtain rows v where q: "?q w' = (Ok rows, v)" "act_collect (map_row_to_verification_claim db) rows v = (Ok claims, w'')"
    using assms(6) unfolding get_previous_verified_def by (rule act_bind_OkE)
  have rows: "set rows = {row. \<exists>x. ((cu, x), row) \<in> set (claims_tbl (view w'))}"
    using query_execute_spec [OF assms(1) q(1)] by (auto simp: query_ok_def sql_simps)
  have dist: "distinct (map fst (claims_tbl (view w')))"
    unfolding t by (rule distinct_update [OF assms(4)])
  have old: "\<exists>c. row = claim_row db c \<and> k = (v_contract_uuid c, to_base58 db (v_verified_by_id c))"
    if "(k, row) \<in> set (claims_tbl (view w'))" for k row
  proof (cases "k = (cu, to_base58 db p)")
    case True
    then have "map_of (claims_tbl (view w')) k = Some (claim_row db c)" by (simp add: t update_conv' c_def)
    with map_of_is_SomeI [OF dist that] True show ?thesis by (intro exI [of _ c]) (simp add: c_def)
  next
    case False
    then have "map_of (claims_tbl (view w)) k = Some row"
      using map_of_is_SomeI [OF dist that] by (simp add: t update_conv')
    then show ?thesis using assms(5) by (auto dest!: map_of_SomeD)
  qed
  have new: "((cu, to_base58 db p), claim_row db c) \<in> set (claims_tbl (view w'))"
    by (rule map_of_SomeD) (simp add: t update_conv' c_def)
  define g where "g row = (THE c. row = claim_row db c)" for row
  have inj: "claim_row db x = claim_row db y \<Longrightarrow> x = y" for x y
    using map_row_to_claim_row [OF assms(2)] by (metis outcome.inject(1) prod.inject)
  then have g: "g (claim_row db x) = x" for x unfolding g_def by blast
  have "act_collect (map_row_to_verification_claim db) rows v = (Ok (map g rows), v)"
    using rows old map_row_to_claim_row [OF assms(2)] by (intro act_collect_ok) (force simp: g)
  then have claims: "set claims = g ` set rows" using q(2) by auto
  show ?thesis
  proof (intro bexI [of _ c] conjI ballI impI)
    have "claim_row db c \<in> set rows" using rows new by blast
    then have "g (claim_row db c) \<in> set claims" unfolding claims by (rule imageI)
    then show "c \<in> set claims" by (simp only: g)
    fix c' assume "c' \<in> set claims" "v_verified_by_id c' = p"
    then obtain row where "row \<in> set rows" "c' = g row" unfolding claims by blast
    then obtain x where x: "((cu, x), row) \<in> set (claims_tbl (view w'))" using rows by blast
    from old [OF this] obtain d where "row = claim_row db d" by blast
    with \<open>c' = g row\<close> x have "((cu, x), claim_row db c') \<in> set (claims_tbl (view w'))" by (simp only: g)
    moreover from old [OF this] inj \<open>v_verified_by_id c' = p\<close> have "x = to_base58 db p" by blast
    ultimately show "c' = c"
      using new map_of_is_SomeI [OF dist] inj by (metis option.inject)
  qed (simp_all add: c_def)
qed

section \<open>Reputation\<close>

text \<open>Reputation and stake of a peer; a peer without a row has none.\<close>

definition rep_of :: "tables \<Rightarrow> string \<Rightarrow> int \<times> int" where
  "rep_of tb k = (case map_of (reputation_tbl tb) k of Some row \<Rightarrow> (number_at row 1, number_at row 2) | None \<Rightarrow> (0, 0))"

definition set_rep :: "string \<Rightarrow> int \<Rightarrow> int \<Rightarrow> tables \<Rightarrow> tables" where
  "set_rep k r s tb = tb\<lparr>reputation_tbl :=
     AList.update k (map (\<lambda>v. SqlValue (Some v)) [S k, N r, N s]) (reputation_tbl tb)\<rparr>"

lemma rep_of_set_rep: "rep_of (set_rep k r s tb) k' = (if k' = k then (r, s) else rep_of tb k')"
  by (simp add: rep_of_def set_rep_def update_conv' number_at_def)

text \<open>Rows of the reputation table have all three columns.\<close>

definition tables_wf :: "tables \<Rightarrow> bool" where
  "tables_wf tb \<longleftrightarrow> (\<forall>k row. map_of (reputation_tbl tb) k = Some row \<longrightarrow> length row = 3)"

lemma first_number_at_rows:
  assumes "rows = rows_with_key k (reputation_tbl tb)"
  shows "(first_number_at rows 1, first_number_at rows 2) = rep_of tb k"
  using assms by (simp add: rows_with_key_def rep_of_def first_number_at_def split: option.splits)

lemma get_reputation_spec:
  assumes "autocommit_spec db view" "tables_wf (view w)" "get_reputation db l p w = (r, w')"
  shows "view w' = view w \<and> (r = Ok (fst (rep_of (view w) (to_base58 db p))) \<or> (\<exists>e. r = Err e \<and> service_error e))"
proof -
  let ?q = "query_execute db l select_reputation_sql [param ''peer_id'' (S (to_base58 db p))]"
  obtain q v where q: "?q w = (q, v)" by (cases "?q w")
  from query_execute_spec [OF assms(1) q] consider
    rows where "q = Ok rows" "view v = view w"
      "query_ok select_reputation_sql [param ''peer_id'' (S (to_base58 db p))] (view w) rows"
    | e where "q = Err e" "service_error e" "view v = view w" by blast
  then show ?thesis
  proof cases
    case 1
    then have "rows = map (\<lambda>row. [row ! 1]) (rows_with_key (to_base58 db p) (reputation_tbl (view w)))"
      by (simp add: query_ok_def sql_simps)
    then have "first_number_at rows 0 = fst (rep_of (view w) (to_base58 db p))"
      using assms(2) by (auto simp: rows_with_key_def rep_of_def first_number_at_def number_at_def tables_wf_def
          split: option.splits)
    then show ?thesis using q 1 assms(3) by (auto simp: get_reputation_def act_simps)
  next
    case 2
    then show ?thesis using q assms(3) by (auto simp: get_reputation_def act_simps)
  qed
qed

lemma get_staked_spec:
  assumes "autocommit_spec db view" "tables_wf (view w)" "get_staked db l p w = (r, w')"
  shows "view w' = view w \<and> (r = Ok (snd (rep_of (view w) (to_base58 db p)))
           \<and> map_of (reputation_tbl (view w)) (to_base58 db p) \<noteq> None
       \<or> r = Err InvalidSql \<and> map_of (reputation_tbl (view w)) (to_base58 db p) = None
       \<or> (\<exists>e. r = Err e \<and> service_error e))"
proof -
  let ?q = "query_execute db l select_staked_sql [param ''peer_id'' (S (to_base58 db p))]"
  obtain q v where q: "?q w = (q, v)" by (cases "?q w")
  from query_execute_spec [OF assms(1) q] consider
    rows where "q = Ok rows" "view v = view w"
      "query_ok select_staked_sql [param ''peer_id'' (S (to_base58 db p))] (view w) rows"
    | e where "q = Err e" "service_error e" "view v = view w" by blast
  then show ?thesis
  proof cases
    case 1
    then have "rows = map (\<lambda>row. [row ! 2]) (rows_with_key (to_base58 db p) (reputation_tbl (view w)))"
      by (simp add: query_ok_def sql_simps)
    then show ?thesis using q 1 assms(2,3)
      by (auto simp: get_staked_def act_simps rows_with_key_def rep_of_def number_at_def tables_wf_def
          split: option.splits)
  next
    case 2
    then show ?thesis using q assms(3) by (auto simp: get_staked_def act_simps)
  qed
qed

text \<open>
  C34: Staking never succeeds and never changes the tables: the statement names a parameter
  \<^verbatim>\<open>@amount\<close> that the call does not bind.
\<close>

theorem stake_reputation_never_succeeds:
  assumes "autocommit_spec db view" "tables_wf (view w)" "stake_reputation db l p amount w = (r, w')"
  shows "r \<noteq> Ok () \<and> view w' = view w"
proof -
  from assms(3) show ?thesis unfolding stake_reputation_def
  proof (cases rule: act_bind_cases)
    case (1 rep v)
    have v: "view v = view w" using get_reputation_spec [OF assms(1,2) 1(1)] by simp
    have "q \<noteq> Ok () \<and> view v'' = view v'"
      if "sql_execute db l stake_sql [param ''peer_id'' x, param ''rep'' y, param ''staked'' z] v' = (q, v'')"
      for x y z v' q v''
      using sql_execute_spec [OF assms(1) that] by (auto simp: exec_result_def sql_simps)
    with 1(2) v show ?thesis
      by (fastforce simp: act_bind_def act_option_def act_simps split: if_splits option.splits)
  qed (use get_reputation_spec [OF assms(1,2)] in auto)
qed

text \<open>
  C29: Unstaking moves the amount from the stake to the reputation of the peer and touches nobody
  else; it is refused when the stake is too small, when the peer has no row, or by the database, and
  then changes nothing. The sum of reputation and stake is preserved.
\<close>

theorem unstake_reputation_moves_stake:
  assumes "autocommit_spec db view" "tables_wf (view w)" "unstake_reputation db l p amount w = (r, w')"
    and "rep_of (view w) (to_base58 db p) = (rep, staked)"
  shows "(r = Ok () \<longrightarrow> amount \<le> staked \<and> view w' = set_rep (to_base58 db p) (rep + amount) (staked - amount) (view w)
            \<and> rep + staked = fst (rep_of (view w') (to_base58 db p)) + snd (rep_of (view w') (to_base58 db p)))
       \<and> (r \<noteq> Ok () \<longrightarrow> view w' = view w)"
  using assms(3) unfolding unstake_reputation_def
proof (cases rule: act_bind_cases)
  case (1 rep' v)
  have v: "view v = view w" "rep' = rep" using get_reputation_spec [OF assms(1,2) 1(1)] assms(4) by auto
  have wf: "tables_wf (view v)" using assms(2) v by simp
  from 1(2) show ?thesis
  proof (cases rule: act_bind_cases)
    case (1 staked' v')
    have v': "view v' = view w" "staked' = staked" using get_staked_spec [OF assms(1) wf 1(1)] v assms(4) by auto
    have upd: "q = Ok () \<and> view v2 = set_rep (to_base58 db p) y z (view v1) \<or> q \<noteq> Ok () \<and> view v2 = view v1"
      if "sql_execute db l unstake_sql [param ''peer_id'' (S (to_base58 db p)), param ''rep'' (N y),
            param ''staked'' (N z)] v1 = (q, v2)" for y z v1 q v2
      using sql_execute_spec [OF assms(1) that] by (auto simp: exec_result_def sql_simps set_rep_def)
    show ?thesis using 1(2) v v'
      by (auto simp: act_bind_def act_option_def act_simps i64_add_def i64_sub_def rep_of_set_rep
          split: if_splits dest!: upd)
  qed (use get_staked_spec [OF assms(1) wf] v in auto)
qed (use get_reputation_spec [OF assms(1,2)] in auto)

section \<open>Transactions\<close>

lemma session_map_cases:
  assumes "metadata_faithful db"
  shows "(\<exists>e. session_map db l s w = (Err e, w)) \<or>
         (\<exists>a. session_map db l s w = (Ok [(''authorization'', a), (''sessionid'', s)], w))"
  using auth_map_cases [of db l w] assms
  by (cases "parse_metadata db s")
     (auto simp: session_map_def metadata_value_def metadata_faithful_def act_simps act_bind_def)

lemma tx_map_cases:
  assumes "metadata_faithful db"
  shows "(\<exists>e. tx_map db l s t w = (Err e, w)) \<or>
         (\<exists>a. tx_map db l s t w = (Ok [(''authorization'', a), (''sessionid'', s), (''transactionid'', t)], w))"
  using session_map_cases [OF assms, of l s w] assms
  by (cases "parse_metadata db t")
     (auto simp: tx_map_def metadata_value_def metadata_faithful_def act_simps act_bind_def)

lemma auth_map_result:
  "auth_map db l w = (r, w') \<Longrightarrow> w' = w \<and> ((\<exists>e. r = Err e) \<or> (\<exists>a. r = Ok [(''authorization'', a)]))"
  using auth_map_cases [of db l w] by auto

lemma session_map_result:
  "metadata_faithful db \<Longrightarrow> session_map db l s w = (r, w') \<Longrightarrow>
     w' = w \<and> ((\<exists>e. r = Err e) \<or> (\<exists>a. r = Ok [(''authorization'', a), (''sessionid'', s)]))"
  using session_map_cases [of db l s w] by auto

lemma tx_map_result:
  "metadata_faithful db \<Longrightarrow> tx_map db l s t w = (r, w') \<Longrightarrow> w' = w \<and> ((\<exists>e. r = Err e) \<or>
     (\<exists>a. r = Ok [(''authorization'', a), (''sessionid'', s), (''transactionid'', t)]))"
  using tx_map_cases [of db l s t w] by auto

lemma with_client_cases:
  assumes "with_client l m w = (r, w')"
  obtains "r = Err MutexIsNotMutable" "w' = w" | "m w = (r, w')"
  using assms by (auto simp: with_client_def act_simps split: option.splits)

lemma tx_request_cases:
  assumes "with_client l (act_bind (tx_map db l s t) (\<lambda>m. call wrap (f m))) w = (r, w')" "metadata_faithful db"
  obtains e where "r = Err e" "w' = w"
    | m q where "f m w = (q, w')" "session_of m = (s, t)" "map_of m ''transactionid'' \<noteq> None"
        "r = (case q of Inl e \<Rightarrow> Err (wrap e) | Inr x \<Rightarrow> Ok x)"
  using assms(1)
proof (cases rule: with_client_cases)
  case 2
  from tx_map_cases [OF assms(2), of l s t w] consider e where "tx_map db l s t w = (Err e, w)"
    | a where "tx_map db l s t w = (Ok [(''authorization'', a), (''sessionid'', s), (''transactionid'', t)], w)"
    by blast
  then show ?thesis
  proof cases
    case 1
    with 2 that(1) show ?thesis by (auto simp: act_simps)
  next
    case (2 a)
    with \<open>act_bind _ _ w = _\<close>
    have "call wrap (f [(''authorization'', a), (''sessionid'', s), (''transactionid'', t)]) w = (r, w')"
      by (simp add: act_simps)
    then show ?thesis by (cases rule: call_cases) (auto simp: session_of_def intro!: that(2))
  qed
qed (auto intro: that)

lemma query_execute_tx_spec:
  assumes "metadata_faithful db" "tx_spec db view txv" "txv w (s, t) = Some tb"
    and "query_execute_tx db l sql ps s t w = (r, w')"
  shows "view w' = view w \<and> r \<noteq> Panic \<and> (\<forall>rows. r = Ok rows \<longrightarrow> query_ok sql ps tb rows \<and> txv w' (s, t) = Some tb)"
  using assms(4) unfolding query_execute_tx_def
proof (rule tx_request_cases)
  fix m q assume m: "rpc_sql_query db m sql ps w = (q, w')" "session_of m = (s, t)" "map_of m ''transactionid'' \<noteq> None"
    "r = (case q of Inl e \<Rightarrow> Err (FailedTonicRequest e) | Inr x \<Rightarrow> Ok x)"
  from assms(2,3) m(1-3) have "view w' = view w \<and>
        (case q of Inr rows \<Rightarrow> query_ok sql ps tb rows \<and> txv w' (session_of m) = Some tb | Inl _ \<Rightarrow> True)"
    unfolding tx_spec_def by metis
  then show ?thesis using m by (auto split: sum.splits)
qed (use assms in auto)

lemma sql_execute_tx_spec:
  assumes "metadata_faithful db" "tx_spec db view txv" "txv w (s, t) = Some tb"
    and "sql_execute_tx db l sql ps s t w = (r, w')"
  shows "view w' = view w \<and> r \<noteq> Panic \<and>
    (r = Ok () \<longrightarrow> exec_result sql ps tb \<noteq> None \<and> txv w' (s, t) = exec_result sql ps tb) \<and>
    (r \<noteq> Ok () \<longrightarrow> txv w' (s, t) \<in> {Some tb, None})"
  using assms(4) unfolding sql_execute_tx_def
proof (rule tx_request_cases)
  fix m q assume m: "rpc_sql_exec db m sql ps w = (q, w')" "session_of m = (s, t)" "map_of m ''transactionid'' \<noteq> None"
    "r = (case q of Inl e \<Rightarrow> Err (FailedTonicRequest e) | Inr x \<Rightarrow> Ok x)"
  from assms(2,3) m(1-3) have "view w' = view w \<and>
        (case q of Inr _ \<Rightarrow> exec_result sql ps tb \<noteq> None \<and> txv w' (session_of m) = exec_result sql ps tb
         | Inl _ \<Rightarrow> txv w' (session_of m) \<in> {Some tb, None})"
    unfolding tx_spec_def by metis
  then show ?thesis using m by (auto split: sum.splits)
qed (use assms in auto)

lemma begin_tx_spec:
  assumes "metadata_faithful db" "tx_spec db view txv" "begin_tx db l w = (r, w')"
  shows "view w' = view w \<and> r \<noteq> Panic \<and> (\<forall>s t. r = Ok (s, t) \<longrightarrow> txv w' (s, t) = Some (view w))"
proof -
  have open_s: "view v' = view v" if "rpc_open_session db m u p d v = (q, v')" for m u p d v q v'
    using assms(2) that unfolding tx_spec_def by metis
  have new: "view v' = view v \<and> (\<forall>t. q = Inr t \<longrightarrow> txv v' (the (map_of m ''sessionid''), t) = Some (view v))"
    if "rpc_new_tx db m v = (q, v')" for m v q v'
  proof -
    from assms(2) that have "view v' = view v \<and>
        (case q of Inr t \<Rightarrow> txv v' (the (map_of m ''sessionid''), t) = Some (view v) | Inl _ \<Rightarrow> True)"
      unfolding tx_spec_def by metis
    then show ?thesis by (auto split: sum.splits)
  qed
  from assms(3) show ?thesis unfolding begin_tx_def
  proof (cases rule: with_client_cases)
    case 2
    then show ?thesis
      by (auto elim!: act_bind_cases call_cases simp: act_simps
          dest!: open_s new auth_map_result session_map_result [OF assms(1)])
  qed auto
qed

lemma end_tx_spec:
  assumes "metadata_faithful db" "tx_spec db view txv" "end_tx db l s t w = (r, w')"
  shows "r \<noteq> Panic \<and> view w' \<in> {view w, (case txv w (s, t) of Some tb \<Rightarrow> tb | None \<Rightarrow> view w)}
    \<and> (r = Ok () \<longrightarrow> view w' = (case txv w (s, t) of Some tb \<Rightarrow> tb | None \<Rightarrow> view w))"
proof -
  have commit: "view v' = (if isl q then view v else case txv v (session_of m) of Some tb \<Rightarrow> tb | None \<Rightarrow> view v)"
    if "rpc_commit db m v = (q, v')" for m v q v'
  proof -
    from assms(2) that have "case q of Inr _ \<Rightarrow> view v' = (case txv v (session_of m) of Some tb \<Rightarrow> tb | None \<Rightarrow> view v)
         | Inl _ \<Rightarrow> view v' = view v"
      unfolding tx_spec_def by metis
    then show ?thesis by (auto split: sum.splits)
  qed
  have close: "view v' = view v" if "rpc_close_session db m v = (q, v')" for m v q v'
    using assms(2) that unfolding tx_spec_def by metis
  from assms(3) show ?thesis unfolding end_tx_def
  proof (cases rule: with_client_cases)
    case 2
    then show ?thesis
      by (auto elim!: act_bind_cases call_cases simp: act_simps session_of_def
          dest!: commit close tx_map_result [OF assms(1)] session_map_result [OF assms(1)])
  qed auto
qed

lemma act_try_cases:
  assumes "act_try m f w = (r, w')"
  obtains x v where "m w = (Ok x, v)" "f (Inr x) v = (r, w')"
    | e v where "m w = (Err e, v)" "f (Inl e) v = (r, w')"
    | "m w = (Panic, w')" "r = Panic"
  using assms by (auto simp: act_try_def split: prod.splits outcome.splits)

lemma exec_upsert_reputation:
  "exec_result upsert_reputation_sql
     [param ''peer_id'' (S k), param ''reputation'' (N r), param ''staked'' (N s)] tb = Some (set_rep k r s tb)"
  by (simp add: exec_result_def sql_simps set_rep_def)

text \<open>
  The server takes the statement in an open transaction. A query that went through shows that the next statement of the transaction
  reaches the server.
\<close>

lemma tx_map_stable: "tx_map db l s t v = (Ok m, v') \<Longrightarrow> tx_map db l s t v2 = (Ok m, v2)"
  by (auto simp: tx_map_def session_map_def auth_map_def metadata_value_def act_result_def act_simps act_bind_def
      split: sum.splits)

definition tx_accepts :: "'w immudb \<Rightarrow> ('w \<Rightarrow> string \<times> string \<Rightarrow> tables option) \<Rightarrow> string \<Rightarrow> bool" where
  "tx_accepts db txv sql \<longleftrightarrow> (\<forall>m ps w. bound sql ps \<and> map_of m ''transactionid'' \<noteq> None \<and>
     txv w (session_of m) \<noteq> None \<longrightarrow> \<not> isl (fst (rpc_sql_exec db m sql ps w)))"

lemma sql_execute_tx_reaches:
  assumes "metadata_faithful db" "query_execute_tx db l sql' ps' s t v = (Ok rows, v')"
    and "tx_accepts db txv sql" "bound sql ps" "txv w (s, t) \<noteq> None"
  shows "\<exists>w'. sql_execute_tx db l sql ps s t w = (Ok (), w')"
proof -
  have c: "client l \<noteq> None"
    using assms(2) by (auto simp: query_execute_tx_def with_client_def act_simps split: option.splits)
  then have "act_bind (tx_map db l s t) (\<lambda>m. call FailedTonicRequest (rpc_sql_query db m sql' ps')) v = (Ok rows, v')"
    using assms(2) by (auto simp: query_execute_tx_def with_client_def)
  then obtain m v1 where m: "tx_map db l s t v = (Ok m, v1)" by (rule act_bind_OkE)
  have ids: "session_of m = (s, t)" "map_of m ''transactionid'' \<noteq> None"
    using tx_map_result [OF assms(1) m] by (auto simp: session_of_def)
  obtain q w' where q: "rpc_sql_exec db m sql ps w = (q, w')" by (cases "rpc_sql_exec db m sql ps w")
  with assms(3-5) ids have "\<not> isl q" unfolding tx_accepts_def by (metis fst_conv)
  then show ?thesis using q c tx_map_stable [OF m, of w]
    by (auto simp: sql_execute_tx_def with_client_def call_def act_result_def act_simps split: sum.splits)
qed

lemma increase_reputation_tables:
  assumes "metadata_faithful db" "tx_spec db view txv"
    and "increase_reputation db l p amount w = (r, w')"
    and "rep_of (view w) (to_base58 db p) = (rep, staked)"
  shows "view w' \<in> {view w, set_rep (to_base58 db p) (rep + amount) staked (view w)}
    \<and> (r = Ok () \<and> tx_accepts db txv upsert_reputation_sql
        \<longrightarrow> view w' = set_rep (to_base58 db p) (rep + amount) staked (view w))"
  using assms(3) unfolding increase_reputation_def
proof (cases rule: act_bind_cases)
  case (1 st v)
  obtain s t where st: "st = (s, t)" by (cases st)
  have v: "view v = view w" "txv v (s, t) = Some (view w)"
    using begin_tx_spec [OF assms(1,2) 1(1)] st by auto
  let ?k = "to_base58 db p"
  from 1(2) show ?thesis unfolding st prod.case
  proof (cases rule: act_bind_cases)
    case (1 rows v1)
    have v1: "view v1 = view w" "txv v1 (s, t) = Some (view w)" "query_ok select_row_sql [param ''peer_id'' (S ?k)] (view w) rows"
      using query_execute_tx_spec [OF assms(1,2) v(2) 1(1)] v(1) by auto
    then have "(first_number_at rows 1, first_number_at rows 2) = (rep, staked)"
      using assms(4) by (intro trans [OF first_number_at_rows assms(4)]) (simp add: query_ok_def sql_simps)
    then have body: "act_bind (act_option (i64_add rep amount)) (\<lambda>rep'.
        act_try (sql_execute_tx db l upsert_reputation_sql [param ''peer_id'' (S ?k), param ''reputation'' (N rep'),
          param ''staked'' (N staked)] s t) (\<lambda>_. end_tx db l s t)) v1 = (r, w')"
      using 1(2) by (simp add: Let_def)
    show ?thesis
    proof (cases "i64_add rep amount")
      case None
      then show ?thesis using body v1(1) by (simp add: act_simps)
    next
      case (Some rep')
      then have rep': "rep' = rep + amount" by (simp add: i64_add_def split: if_splits)
      let ?u = "sql_execute_tx db l upsert_reputation_sql [param ''peer_id'' (S ?k), param ''reputation'' (N rep'),
          param ''staked'' (N staked)] s t"
      obtain q v2 where q: "?u v1 = (q, v2)" by (cases "?u v1")
      note u = sql_execute_tx_spec [OF assms(1,2) v1(2) q, unfolded exec_upsert_reputation]
      have e: "end_tx db l s t v2 = (r, w')"
        using body q u Some by (cases q) (simp_all add: act_simps)
      have "q = Ok ()" if "tx_accepts db txv upsert_reputation_sql"
      proof -
        have "bound upsert_reputation_sql [param ''peer_id'' (S ?k), param ''reputation'' (N rep'), param ''staked'' (N staked)]"
          by (simp add: sql_simps)
        from sql_execute_tx_reaches [OF assms(1) 1(1) that this, of v1] v1(2) q show ?thesis by auto
      qed
      then show ?thesis using end_tx_spec [OF assms(1,2) e] u v1(1) rep'
        by (cases "q = Ok ()") auto
    qed
  qed (use query_execute_tx_spec [OF assms(1,2) v(2)] v in auto)
qed (use begin_tx_spec [OF assms(1,2)] in auto)

text \<open>
  C9: Changing a reputation is atomic and changes only the reputation of that peer: whatever the
  outcome, the committed tables are either untouched or have the reputation of the peer, and nothing
  else, changed by the amount. When the call reports success and the database does not refuse
  the statement, they are changed.
\<close>

theorem increase_reputation_atomic:
  assumes "metadata_faithful db" "tx_spec db view txv"
    and "increase_reputation db l p amount w = (r, w')"
    and "rep_of (view w) (to_base58 db p) = (rep, staked)"
  shows "view w' \<in> {view w, set_rep (to_base58 db p) (rep + amount) staked (view w)}
    \<and> (r = Ok () \<and> tx_accepts db txv upsert_reputation_sql
        \<longrightarrow> view w' = set_rep (to_base58 db p) (rep + amount) staked (view w))"
  using assms by (rule increase_reputation_tables)

section \<open>A database in memory\<close>

record mem_world =
  committed :: tables
  working :: "tables option"

definition empty_world :: mem_world where
  "empty_world = \<lparr>committed = \<lparr>contracts_tbl = [], reputation_tbl = [], claims_tbl = []\<rparr>, working = None\<rparr>"

definition query_rows :: "string \<Rightarrow> named_param list \<Rightarrow> tables \<Rightarrow> sql_row list option" where
  "query_rows sql ps tb =
     (let k = text_of (param_val ps (hd (placeholders sql))) in
      if \<not> bound sql ps then None
      else if sql = select_contract_sql then Some (rows_with_key k (contracts_tbl tb))
      else if sql = select_all_contracts_sql then Some (map snd (contracts_tbl tb))
      else if sql = select_row_sql then Some (rows_with_key k (reputation_tbl tb))
      else if sql = select_reputation_sql then Some (map (\<lambda>row. [row ! 1]) (rows_with_key k (reputation_tbl tb)))
      else if sql = select_staked_sql then Some (map (\<lambda>row. [row ! 2]) (rows_with_key k (reputation_tbl tb)))
      else if sql = select_verified_sql then Some (map snd (filter (\<lambda>((c, v), row). c = k) (claims_tbl tb)))
      else None)"

definition mem_exec :: "bool \<Rightarrow> metadata \<Rightarrow> string \<Rightarrow> named_param list \<Rightarrow> (mem_world, unit) rpc" where
  "mem_exec read_only m sql ps w =
     (if map_of m ''transactionid'' = None then
        (case exec_result sql ps (committed w) of
           None \<Rightarrow> (Inl ''rejected'', w) | Some tb \<Rightarrow> (Inr (), w\<lparr>committed := tb\<rparr>))
      else (case working w of None \<Rightarrow> (Inl ''no transaction'', w) | Some tb \<Rightarrow>
        if read_only then (Inl ''read only'', w) else
        (case exec_result sql ps tb of
           None \<Rightarrow> (Inl ''rejected'', w) | Some tb' \<Rightarrow> (Inr (), w\<lparr>working := Some tb'\<rparr>))))"

definition mem_query :: "metadata \<Rightarrow> string \<Rightarrow> named_param list \<Rightarrow> (mem_world, sql_row list) rpc" where
  "mem_query m sql ps w =
     (case (if map_of m ''transactionid'' = None then Some (committed w) else working w) of
        None \<Rightarrow> (Inl ''no transaction'', w)
      | Some tb \<Rightarrow> (case query_rows sql ps tb of None \<Rightarrow> (Inl ''rejected'', w) | Some rows \<Rightarrow> (Inr rows, w)))"

definition mem_commit :: "metadata \<Rightarrow> (mem_world, unit) rpc" where
  "mem_commit m w = (case working w of None \<Rightarrow> (Inl ''no transaction'', w)
     | Some tb \<Rightarrow> (Inr (), w\<lparr>committed := tb, working := None\<rparr>))"

definition mem_db :: "bool \<Rightarrow> mem_world immudb" where
  "mem_db read_only =
     \<lparr>rpc_connect = \<lambda>_ w. (Inr (), w), rpc_login = \<lambda>_ _ w. (Inr ''token'', w), rpc_set = \<lambda>_ _ w. (Inr (), w),
      rpc_get = \<lambda>_ _ w. (Inl ''no key'', w), rpc_create_database_v2 = \<lambda>_ _ _ w. (Inr (), w),
      rpc_use_database = \<lambda>_ _ w. (Inr ''token'', w), rpc_sql_exec = mem_exec read_only, rpc_sql_query = mem_query,
      rpc_open_session = \<lambda>_ _ _ _ w. (Inr ''session'', w),
      rpc_new_tx = \<lambda>_ w. (Inr ''tx'', w\<lparr>working := Some (committed w)\<rparr>), rpc_commit = mem_commit,
      rpc_close_session = \<lambda>_ w. (Inr (), w), parse_metadata = Inr, now_millis = \<lambda>w. (86400000, w),
      new_v4 = \<lambda>w. (''00000000-0000-4000-8000-000000000000'', w), to_base58 = \<lambda>p. (case p of PeerId bs \<Rightarrow> byte_string bs),
      peer_id_from_str = \<lambda>s. Inr (PeerId (as_bytes s)), uuid_to_string = \<lambda>u. replicate (unat u) CHR ''x''\<rparr>"

definition mem_ledger :: immu_ledger where
  "mem_ledger = \<lparr>token = ''token'', client = Some ()\<rparr>"

lemma query_rows_ok: "query_rows sql ps tb = Some rows \<Longrightarrow> query_ok sql ps tb rows"
  by (force simp: query_rows_def query_ok_def Let_def split: if_splits)

lemma mem_db_metadata: "metadata_faithful (mem_db ro)"
  by (simp add: metadata_faithful_def mem_db_def)

lemma mem_db_peer_text: "peer_text (mem_db ro)"
  by (simp add: peer_text_def mem_db_def split: peer_id.splits)

lemma mem_db_autocommit: "autocommit_spec (mem_db ro) committed"
  by (auto simp: autocommit_spec_def mem_db_def mem_exec_def mem_query_def dest: query_rows_ok
      split: option.splits sum.splits)

lemma mem_db_tx: "tx_spec (mem_db ro) committed (\<lambda>w _. working w)"
  by (auto simp: tx_spec_def mem_db_def mem_exec_def mem_query_def mem_commit_def dest: query_rows_ok
      split: option.splits sum.splits if_splits)

lemma mem_db_accepts: "tx_accepts (mem_db False) (\<lambda>w _. working w) upsert_reputation_sql"
  by (auto simp: tx_accepts_def mem_db_def mem_exec_def exec_result_def Let_def split: option.splits)

section \<open>Witnesses\<close>

abbreviation (input) stored_world :: mem_world where
  "stored_world \<equiv> snd (create_contract (mem_db False) mem_ledger (PeerId [7]) 2 ''hash'' 0 [1] [2] 56 1 empty_world)"

lemma stored_world_ok:
  "create_contract (mem_db False) mem_ledger (PeerId [7]) 2 ''hash'' 0 [1] [2] 56 1 empty_world = (Ok (), stored_world)"
  "is_ok (fst (get_contracts (mem_db False) mem_ledger (uuid_to_string (mem_db False) 2) stored_world))"
proof -
  have "is_ok (fst (create_contract (mem_db False) mem_ledger (PeerId [7]) 2 ''hash'' 0 [1] [2] 56 1 empty_world))"
    by code_simp
  then show "create_contract (mem_db False) mem_ledger (PeerId [7]) 2 ''hash'' 0 [1] [2] 56 1 empty_world = (Ok (), stored_world)"
    by (simp add: is_ok_unit prod_eq_iff)
qed code_simp

theorem create_then_get_contracts_witness:
  "\<exists>c. fst (get_contracts (mem_db False) mem_ledger (uuid_to_string (mem_db False) 2)
         (snd (create_contract (mem_db False) mem_ledger (PeerId [7]) 2 ''hash'' 0 [1] [2] 56 1 empty_world))) = Ok [c]
     \<and> c_peer_id c = PeerId [7] \<and> c_rows c = 56 \<and> c_upload_date c = 86400
     \<and> c_contract_uuid c = ''00000000-0000-4000-8000-000000000000''"
proof -
  let ?g = "get_contracts (mem_db False) mem_ledger (uuid_to_string (mem_db False) 2) stored_world"
  have "?g = (fst ?g, snd ?g)" by simp
  from create_then_get_contracts [OF mem_db_autocommit mem_db_peer_text stored_world_ok(1) this]
  show ?thesis using stored_world_ok(2) by (auto simp: mem_db_def as_i64_def)
qed

theorem increase_reputation_atomic_witness:
  "rep_of (committed (snd (increase_reputation (mem_db False) mem_ledger (PeerId [65]) 1 empty_world))) ''A'' = (1, 0)"
proof -
  let ?r = "increase_reputation (mem_db False) mem_ledger (PeerId [65]) 1 empty_world"
  have "is_ok (fst ?r)" by code_simp
  then have "?r = (Ok (), snd ?r)" by (simp add: is_ok_unit prod_eq_iff)
  moreover have k: "to_base58 (mem_db False) (PeerId [65]) = ''A''" by code_simp
  moreover have "rep_of (committed empty_world) ''A'' = (0, 0)" by code_simp
  ultimately show ?thesis
    using increase_reputation_atomic [OF mem_db_metadata mem_db_tx, of False mem_ledger "PeerId [65]" 1 empty_world "Ok ()"]
      mem_db_accepts by (simp add: rep_of_set_rep)
qed

text \<open>
  An error of the statement that writes a reputation is lost: the call goes on to commit, and
  reports success although nothing was written.
\<close>

lemma increase_reputation_hides_error:
  "is_ok (fst (increase_reputation (mem_db True) mem_ledger (PeerId [65]) 1 empty_world))
   \<and> rep_of (committed (snd (increase_reputation (mem_db True) mem_ledger (PeerId [65]) 1 empty_world))) ''A'' = (0, 0)"
  by code_simp

definition staked_world :: mem_world where
  "staked_world = empty_world\<lparr>committed := set_rep ''A'' 4 3 (committed empty_world)\<rparr>"

lemma staked_world_wf: "tables_wf (committed staked_world)" "rep_of (committed staked_world) ''A'' = (4, 3)"
  by (simp_all add: staked_world_def empty_world_def set_rep_def tables_wf_def rep_of_def number_at_def)

theorem stake_reputation_never_succeeds_witness:
  "fst (stake_reputation (mem_db False) mem_ledger (PeerId [65]) 2 staked_world) \<noteq> Ok ()"
  using stake_reputation_never_succeeds [OF mem_db_autocommit staked_world_wf(1)]
  by (metis prod.collapse)

theorem unstake_reputation_moves_stake_witness:
  "committed (snd (unstake_reputation (mem_db False) mem_ledger (PeerId [65]) 2 staked_world))
   = set_rep ''A'' 6 1 (committed staked_world)"
proof -
  let ?r = "unstake_reputation (mem_db False) mem_ledger (PeerId [65]) 2 staked_world"
  have "is_ok (fst ?r)" by code_simp
  then have "?r = (Ok (), snd ?r)" by (simp add: is_ok_unit prod_eq_iff)
  moreover have "to_base58 (mem_db False) (PeerId [65]) = ''A''" by code_simp
  ultimately show ?thesis
    using unstake_reputation_moves_stake [OF mem_db_autocommit staked_world_wf(1), of False mem_ledger "PeerId [65]" 2 "Ok ()"]
      staked_world_wf(2) by simp
qed

theorem create_then_get_claims_witness:
  "\<exists>claims. fst (get_previous_verified (mem_db False) mem_ledger ''c''
       (snd (create_verified_claim (mem_db False) mem_ledger ''c'' (PeerId [65]) True empty_world))) = Ok claims
     \<and> (\<exists>c \<in> set claims. v_contract_uuid c = ''c'' \<and> v_verified_by_id c = PeerId [65] \<and> v_succeeded c = True
           \<and> (\<forall>c' \<in> set claims. v_verified_by_id c' = PeerId [65] \<longrightarrow> c' = c))"
proof -
  define s where "s = create_verified_claim (mem_db False) mem_ledger ''c'' (PeerId [65]) True empty_world"
  define g where "g = get_previous_verified (mem_db False) mem_ledger ''c'' (snd s)"
  have "is_ok (fst s)" "is_ok (fst g)" unfolding g_def s_def by code_simp+
  then obtain claims where sg: "s = (Ok (), snd s)" "g = (Ok claims, snd g)"
    by (metis is_ok_unit is_okE prod.collapse)
  then have "create_verified_claim (mem_db False) mem_ledger ''c'' (PeerId [65]) True empty_world = (Ok (), snd s)"
    "get_previous_verified (mem_db False) mem_ledger ''c'' (snd s) = (Ok claims, snd g)"
    by (simp_all only: s_def [symmetric] g_def [symmetric])
  from create_then_get_claims [OF mem_db_autocommit mem_db_peer_text this(1) _ _ this(2)]
  have "\<exists>c \<in> set claims. v_contract_uuid c = ''c'' \<and> v_verified_by_id c = PeerId [65] \<and> v_succeeded c = True
           \<and> (\<forall>c' \<in> set claims. v_verified_by_id c' = PeerId [65] \<longrightarrow> c' = c)"
    by (simp add: empty_world_def)
  moreover have "fst g = Ok claims" by (subst sg(2)) (rule fst_conv)
  ultimately show ?thesis unfolding g_def s_def by blast
qed

end
