(* ===== verification/Verifier.thy ===== *)
theory Verifier
  imports Por Ledger_Spec Action_Rel
begin

text \<open>
  The verifier of \<^verbatim>\<open>src/verifier/mod.rs\<close>: the share of the UUID space it audits in each cycle, the
  audit of one contract with its reward or punishment, and the cycle that audits all contracts of
  the share and publishes the verdicts.

  The ledger is the one of \<open>Ledger\<close>. The request to the keeper goes through the swarm controller and is
  the argument \<open>request_verification\<close>; \<open>uuid_from_str\<close> is the parser of the \<^verbatim>\<open>uuid\<close> crate. The loop
  of \<^verbatim>\<open>start\<close> never ends on its own, so \<open>verifier_run n\<close> is its first \<open>n\<close> cycles.
\<close>

record verifier =
  iteration :: u128
  starting_uuid :: u128
  ending_uuid :: u128
  verifier_peer_id :: peer_id
  corrupt :: bool

section \<open>The share of the UUID space\<close>

definition share :: u128 where "share = - 1 div NUM_PEERS"

definition new_verifier :: "peer_id \<Rightarrow> bool \<Rightarrow> verifier" where
  "new_verifier peer c =
     \<lparr>iteration = 1, starting_uuid = 0, ending_uuid = share, verifier_peer_id = peer, corrupt = c\<rparr>"

definition next_iteration :: "verifier \<Rightarrow> verifier option" where
  "next_iteration v = do {
     it \<leftarrow> checked_add (iteration v) 1;
     (if it = NUM_PEERS + 1 then do {
        e \<leftarrow> checked_add 0 share;
        Some (v\<lparr>iteration := 0, starting_uuid := 0, ending_uuid := e\<rparr>) }
      else if it = NUM_PEERS then do {
        s \<leftarrow> checked_add (starting_uuid v) share;
        Some (v\<lparr>iteration := it, starting_uuid := s, ending_uuid := - 1\<rparr>) }
      else do {
        s \<leftarrow> checked_add (starting_uuid v) share;
        e \<leftarrow> checked_add s share;
        Some (v\<lparr>iteration := it, starting_uuid := s, ending_uuid := e\<rparr>) }) }"

definition in_share :: "verifier \<Rightarrow> u128 \<Rightarrow> bool" where
  "in_share v u \<longleftrightarrow> \<not> (u < starting_uuid v \<or> ending_uuid v < u)"

section \<open>Reward and punishment\<close>

definition reward_peer :: "'w immudb \<Rightarrow> immu_ledger \<Rightarrow> peer_id \<Rightarrow> ('w, unit) action" where
  "reward_peer db l peer = act_try (increase_reputation db l peer AUDIT_REWARD) (\<lambda>_. act_return ())"

definition punish_peer :: "'w immudb \<Rightarrow> immu_ledger \<Rightarrow> peer_id \<Rightarrow> ('w, unit) action" where
  "punish_peer db l peer =
     act_try (get_reputation db l peer) (\<lambda>rep.
     case rep of
       Inl _ \<Rightarrow> act_panic
     | Inr _ \<Rightarrow> act_try (decrease_reputation db l peer AUDIT_PENALTY) (\<lambda>_. act_return ()))"

section \<open>One contract\<close>

type_synonym 'w verification_request = "peer_id \<Rightarrow> string \<Rightarrow> u64 list \<Rightarrow> ('w, u64 list) action"

text \<open>The verdict on a contract: a response that passes the audit, and the reputation change.\<close>

definition audit_contract :: "'w immudb \<Rightarrow> immu_ledger \<Rightarrow> 'w verification_request \<Rightarrow> contract \<Rightarrow> ('w, bool) action" where
  "audit_contract db l request_verification c =
     (let cc = from_contract c in
      act_bind (act_option (make_challenge_vector cc)) (\<lambda>challenge.
      act_try (request_verification (c_peer_id c) (c_file_uuid c) challenge) (\<lambda>response.
      case response of
        Inr response \<Rightarrow>
          act_bind (act_option (audit cc challenge response)) (\<lambda>ok.
          if ok then act_bind (reward_peer db l (c_peer_id c)) (\<lambda>_. act_return True)
          else act_bind (punish_peer db l (c_peer_id c)) (\<lambda>_. act_return False))
      | Inl _ \<Rightarrow> act_bind (punish_peer db l (c_peer_id c)) (\<lambda>_. act_return False))))"

text \<open>The check of the latest earlier claim: it only logs, but a claim from the future is an error.\<close>

definition check_previous :: "'w immudb \<Rightarrow> immu_ledger \<Rightarrow> contract \<Rightarrow> bool \<Rightarrow> ('w, unit) action" where
  "check_previous db l c is_success =
     act_bind (get_previous_verified db l (c_contract_uuid c)) (\<lambda>previous.
     case sort_key (\<lambda>a. - v_verification_time a) previous of
       [] \<Rightarrow> act_return ()
     | latest # _ \<Rightarrow> (\<lambda>w. case now_millis db w of (now, w') \<Rightarrow>
         if now < v_verification_time latest then act_fail from_system_time_error w' else act_return () w'))"

definition verify_contract :: "'w immudb \<Rightarrow> immu_ledger \<Rightarrow> 'w verification_request \<Rightarrow> (string \<Rightarrow> uuid option) \<Rightarrow>
    verifier \<Rightarrow> contract \<Rightarrow> (string \<times> bool) list \<Rightarrow> ('w, (string \<times> bool) list) action" where
  "verify_contract db l request_verification uuid_from_str v c audits =
     (let uuid_uint = (case uuid_from_str (c_file_uuid c) of Some u \<Rightarrow> u | None \<Rightarrow> 0) in
      if uuid_uint < starting_uuid v \<or> ending_uuid v < uuid_uint then act_return audits
      else act_bind (audit_contract db l request_verification c) (\<lambda>is_success.
           act_bind (check_previous db l c is_success) (\<lambda>_.
           act_return (audits @ [(c_contract_uuid c, is_success)]))))"

section \<open>A cycle\<close>

definition publish :: "'w immudb \<Rightarrow> immu_ledger \<Rightarrow> verifier \<Rightarrow> string \<times> bool \<Rightarrow> unit \<Rightarrow> ('w, unit) action" where
  "publish db l v a u = (case a of (contract_uuid, is_success) \<Rightarrow>
     act_try (if \<not> corrupt v then create_verified_claim db l contract_uuid (verifier_peer_id v) is_success
              else create_verified_claim db l contract_uuid (verifier_peer_id v) (\<not> is_success))
       (\<lambda>_. act_return ()))"

definition verifier_cycle :: "'w immudb \<Rightarrow> immu_ledger \<Rightarrow> 'w verification_request \<Rightarrow> (string \<Rightarrow> uuid option) \<Rightarrow>
    verifier \<Rightarrow> ('w, verifier) action" where
  "verifier_cycle db l request_verification uuid_from_str v =
     act_bind (get_all_contracts db l) (\<lambda>contracts.
     act_bind (act_fold (verify_contract db l request_verification uuid_from_str v) contracts []) (\<lambda>audits.
     act_bind (act_option (next_iteration v)) (\<lambda>v'.
     act_bind (act_fold (publish db l v) audits ()) (\<lambda>_.
     act_return v'))))"

primrec verifier_run :: "'w immudb \<Rightarrow> immu_ledger \<Rightarrow> 'w verification_request \<Rightarrow> (string \<Rightarrow> uuid option) \<Rightarrow>
    nat \<Rightarrow> verifier \<Rightarrow> ('w, verifier) action" where
  "verifier_run db l req ufs 0 v = act_return v"
| "verifier_run db l req ufs (Suc n) v = act_bind (verifier_cycle db l req ufs v) (verifier_run db l req ufs n)"

section \<open>The cycle of shares\<close>

text \<open>The states that a verifier goes through.\<close>

inductive verifier_reachable :: "verifier \<Rightarrow> bool" where
  verifier_start: "verifier_reachable (new_verifier p c)"
| verifier_next: "verifier_reachable v \<Longrightarrow> next_iteration v = Some v' \<Longrightarrow> verifier_reachable v'"

inductive_cases verifier_reachableE: "verifier_reachable v"

lemma share_value: "share = 113427455640312821154458202477256070485"
  by (simp add: share_def NUM_PEERS_def)

definition verifier_states :: "(u128 \<times> u128 \<times> u128) set" where
  "verifier_states =
     {(1, 0, share), (2, share, 2 * share), (3, 2 * share, - 1), (0, 0, share), (1, share, 2 * share),
      (2, 2 * share, 3 * share), (3, 3 * share, - 1)}"

abbreviation (input) verifier_state :: "verifier \<Rightarrow> u128 \<times> u128 \<times> u128" where
  "verifier_state v \<equiv> (iteration v, starting_uuid v, ending_uuid v)"

lemma next_iteration_states:
  assumes "verifier_state v \<in> verifier_states"
  shows "\<exists>v'. next_iteration v = Some v' \<and> verifier_state v' \<in> verifier_states"
  using assms
  by (auto simp: verifier_states_def next_iteration_def share_value NUM_PEERS_def checked_add_def)

lemma verifier_reachable_states: "verifier_reachable v \<Longrightarrow> verifier_state v \<in> verifier_states"
proof (induction rule: verifier_reachable.induct)
  case (verifier_start p c)
  show ?case by (simp add: new_verifier_def verifier_states_def)
next
  case (verifier_next v v')
  then show ?case using next_iteration_states [of v] by auto
qed

text \<open>
  C18: The verifier's share never overflows and is always one of seven: a reachable verifier has a
  next iteration, and its iteration counter and range are in \<open>verifier_states\<close>.
\<close>

theorem verifier_shares:
  "verifier_reachable v \<Longrightarrow> verifier_state v \<in> verifier_states \<and> (\<exists>v'. next_iteration v = Some v')"
  using verifier_reachable_states next_iteration_states by blast

theorem verifier_shares_witness:
  "verifier_state (new_verifier (PeerId []) False) \<in> verifier_states
   \<and> (\<exists>v'. next_iteration (new_verifier (PeerId []) False) = Some v')"
  by (rule verifier_shares [OF verifier_start])

text \<open>The state after some cycles.\<close>

primrec nth_iteration :: "nat \<Rightarrow> verifier \<Rightarrow> verifier option" where
  "nth_iteration 0 v = Some v"
| "nth_iteration (Suc n) v = do { v' \<leftarrow> next_iteration v; nth_iteration n v' }"

lemma nth_iteration_add: "nth_iteration (m + n) v = do { v' \<leftarrow> nth_iteration m v; nth_iteration n v' }"
  by (induction m arbitrary: v) (auto split: bind_splits)

lemma next_iteration_from:
  "iteration v = 1 \<Longrightarrow> starting_uuid v = 0 \<Longrightarrow>
     next_iteration v = Some (v\<lparr>iteration := 2, starting_uuid := share, ending_uuid := 2 * share\<rparr>)"
  "iteration v = 2 \<Longrightarrow> starting_uuid v = share \<Longrightarrow>
     next_iteration v = Some (v\<lparr>iteration := 3, starting_uuid := 2 * share, ending_uuid := - 1\<rparr>)"
  "iteration v = 3 \<Longrightarrow> next_iteration v = Some (v\<lparr>iteration := 0, starting_uuid := 0, ending_uuid := share\<rparr>)"
  "iteration v = 0 \<Longrightarrow> starting_uuid v = 0 \<Longrightarrow>
     next_iteration v = Some (v\<lparr>iteration := 1, starting_uuid := share, ending_uuid := 2 * share\<rparr>)"
  "iteration v = 1 \<Longrightarrow> starting_uuid v = share \<Longrightarrow>
     next_iteration v = Some (v\<lparr>iteration := 2, starting_uuid := 2 * share, ending_uuid := 3 * share\<rparr>)"
  "iteration v = 2 \<Longrightarrow> starting_uuid v = 2 * share \<Longrightarrow>
     next_iteration v = Some (v\<lparr>iteration := 3, starting_uuid := 3 * share, ending_uuid := - 1\<rparr>)"
  by (simp_all add: next_iteration_def share_value NUM_PEERS_def checked_add_def)

lemma three_shares: "3 * share = - 1"
  by (simp add: share_value)

lemma shares_cover:
  "u \<le> share \<or> share \<le> u \<and> u \<le> 2 * share \<or> 2 * share \<le> u" for u :: u128
  by (meson linear)

lemma ex_le_3: "(\<exists>k\<le>3. P k) \<longleftrightarrow> P 0 \<or> P 1 \<or> P 2 \<or> P (3 :: nat)"
  by (auto simp: le_Suc_eq numeral_eq_Suc)

lemma nth_iteration_small:
  "nth_iteration 1 v = next_iteration v"
  "nth_iteration 2 v = do { v \<leftarrow> next_iteration v; next_iteration v }"
  "nth_iteration 3 v = do { v \<leftarrow> next_iteration v; v \<leftarrow> next_iteration v; next_iteration v }"
  by (simp_all add: numeral_eq_Suc split: bind_splits)

text \<open>
  C11: Every file is audited again and again: whatever state the verifier is in, its share contains
  any given UUID in the current cycle or in one of the next three.
\<close>

theorem every_uuid_covered:
  assumes "verifier_reachable v"
  shows "\<exists>k\<le>3. \<exists>v'. nth_iteration k v = Some v' \<and> in_share v' u"
proof -
  have "verifier_state v \<in> verifier_states" using verifier_reachable_states [OF assms] by simp
  then show ?thesis using shares_cover [of u] unfolding ex_le_3 nth_iteration_small verifier_states_def
    by (auto simp: next_iteration_from in_share_def not_less three_shares)
qed

theorem every_uuid_covered_witness:
  "\<exists>k\<le>3. \<exists>v'. nth_iteration k (new_verifier (PeerId []) True) = Some v' \<and> in_share v' 42"
  by (rule every_uuid_covered [OF verifier_start])

text \<open>
  C35: After the first round every fourth cycle is idle: the counter restarts at 0 instead of 1, so
  the cycle with counter 3 audits the UUID with all bits set and nothing else.
\<close>

theorem idle_cycle:
  "\<exists>v. nth_iteration (6 + 4 * k) (new_verifier p c) = Some v \<and> (\<forall>u. in_share v u \<longleftrightarrow> u = - 1)"
proof -
  have "\<exists>v. nth_iteration (6 + 4 * k) (new_verifier p c) = Some v \<and> verifier_state v = (3, 3 * share, - 1)"
  proof (induction k)
    case 0
    show ?case by (simp add: numeral_eq_Suc next_iteration_from new_verifier_def) 
  next
    case (Suc k)
    then obtain v where v: "nth_iteration (6 + 4 * k) (new_verifier p c) = Some v"
      "verifier_state v = (3, 3 * share, - 1)" by blast
    have "6 + 4 * Suc k = (6 + 4 * k) + (1 + 3)" by simp
    moreover obtain v' where v': "nth_iteration (1 + 3) v = Some v'" "verifier_state v' = (3, 3 * share, - 1)"
      unfolding nth_iteration_add nth_iteration_small using v(2) by (simp add: next_iteration_from)
    moreover have "nth_iteration ((6 + 4 * k) + (1 + 3)) (new_verifier p c) = Some v'"
      by (subst nth_iteration_add) (simp only: v(1) v'(1) bind.bind_lunit)
    ultimately show ?case by metis
  qed
  then show ?thesis by (auto simp: in_share_def three_shares not_less word_order.extremum_unique)
qed

section \<open>What a cycle audits\<close>

text \<open>The contracts of the share. A file name that is no UUID counts as the UUID 0.\<close>

definition audited_by :: "verifier \<Rightarrow> (string \<Rightarrow> uuid option) \<Rightarrow> contract \<Rightarrow> bool" where
  "audited_by v ufs c \<longleftrightarrow> in_share v (case ufs (c_file_uuid c) of Some u \<Rightarrow> u | None \<Rightarrow> 0)"

text \<open>
  The verdict on a contract in a state: that of the audit on what its keeper answers in this state to the challenge of the contract, and
  a negative one when the request fails.
\<close>

definition verdict_on :: "'w verification_request \<Rightarrow> contract \<Rightarrow> 'w \<Rightarrow> bool \<Rightarrow> bool" where
  "verdict_on req c s b \<longleftrightarrow> (\<exists>ch. make_challenge_vector (from_contract c) = Some ch \<and>
     (case fst (req (c_peer_id c) (c_file_uuid c) ch s) of
        Ok response \<Rightarrow> audit (from_contract c) ch response = Some b
      | Err _ \<Rightarrow> \<not> b
      | Panic \<Rightarrow> False))"

lemma audit_contract_verdict: "audit_contract db l req c w = (Ok b, w') \<Longrightarrow> verdict_on req c w b"
  by (auto simp: audit_contract_def verdict_on_def Let_def act_option_def act_simps elim!: act_bind_OkE act_try_cases
      split: option.splits if_splits)

lemma verify_contract_step:
  assumes "verify_contract db l req ufs v c audits w = (Ok audits', w')"
  shows "if audited_by v ufs c then \<exists>b. audits' = audits @ [(c_contract_uuid c, b)] \<and> verdict_on req c w b
    else audits' = audits"
  using assms
  by (auto simp: verify_contract_def audited_by_def in_share_def Let_def act_simps
      elim!: act_bind_OkE dest!: audit_contract_verdict split: if_splits)

lemma verify_contracts_extend:
  assumes "act_fold (verify_contract db l req ufs v) cs audits w = (Ok audits', w')"
  shows "\<exists>rest. audits' = audits @ rest \<and> map fst rest = map c_contract_uuid (filter (audited_by v ufs) cs)"
  using assms
proof (induction cs arbitrary: audits w)
  case (Cons c cs)
  from Cons.prems obtain a1 w1 where s: "verify_contract db l req ufs v c audits w = (Ok a1, w1)"
    "act_fold (verify_contract db l req ufs v) cs a1 w1 = (Ok audits', w')" by (auto elim: act_bind_OkE)
  from Cons.IH [OF s(2)] verify_contract_step [OF s(1)] show ?case by (auto split: if_splits)
qed (simp add: act_simps)

lemma verify_contracts_at:
  assumes "act_fold (verify_contract db l req ufs v) (pre @ c # post) [] w = (Ok audits, w')" "audited_by v ufs c"
  shows "\<exists>before s b after. act_fold (verify_contract db l req ufs v) pre [] w = (Ok before, s) \<and> verdict_on req c s b
    \<and> audits = before @ (c_contract_uuid c, b) # after"
proof -
  from assms(1) obtain before s a1 s1 where f: "act_fold (verify_contract db l req ufs v) pre [] w = (Ok before, s)"
    "verify_contract db l req ufs v c before s = (Ok a1, s1)"
    "act_fold (verify_contract db l req ufs v) post a1 s1 = (Ok audits, w')"
    by (auto simp: act_fold_append elim!: act_bind_OkE)
  with verify_contract_step [OF f(2)] verify_contracts_extend [OF f(3)] assms(2) show ?thesis by auto
qed

lemma verifier_cycle_steps:
  assumes "verifier_cycle db l req ufs v w = (Ok v', w')"
  obtains contracts w1 audits w2 where "get_all_contracts db l w = (Ok contracts, w1)"
    "act_fold (verify_contract db l req ufs v) contracts [] w1 = (Ok audits, w2)" "next_iteration v = Some v'"
    "act_fold (publish db l v) audits () w2 = (Ok (), w')"
  using assms by (auto simp: verifier_cycle_def act_option_def act_simps elim!: act_bind_OkE split: option.splits)

text \<open>
  C19: A completed cycle audits exactly the contracts of the verifier's share, each once and in the order in which the ledger returned them, and
  every verdict is the outcome of the proof of retrievability: the keeper named in the contract was sent the challenge of that contract for the file of
  that contract, in the state that the audits before it left, and the verdict is that of the audit on what it answered, or negative when the request
  failed. These verdicts are what is then published, and the verifier goes on to its next share.
\<close>

theorem cycle_audits_the_share:
  assumes "verifier_cycle db l req ufs v w = (Ok v', w')"
  shows "\<exists>contracts w1 audits w2. get_all_contracts db l w = (Ok contracts, w1)
    \<and> map fst audits = map c_contract_uuid (filter (audited_by v ufs) contracts)
    \<and> (\<forall>pre c post. contracts = pre @ c # post \<and> audited_by v ufs c \<longrightarrow>
        (\<exists>before s b after. act_fold (verify_contract db l req ufs v) pre [] w1 = (Ok before, s) \<and> verdict_on req c s b
          \<and> audits = before @ (c_contract_uuid c, b) # after))
    \<and> act_fold (publish db l v) audits () w2 = (Ok (), w') \<and> next_iteration v = Some v'"
proof -
  obtain contracts w1 audits w2 where s: "get_all_contracts db l w = (Ok contracts, w1)"
    "act_fold (verify_contract db l req ufs v) contracts [] w1 = (Ok audits, w2)" "next_iteration v = Some v'"
    "act_fold (publish db l v) audits () w2 = (Ok (), w')" using assms by (rule verifier_cycle_steps)
  with verify_contracts_extend [OF s(2)] verify_contracts_at [of db l req ufs v _ _ _ w1 audits w2] show ?thesis by auto
qed

section \<open>What a cycle leaves in the ledger\<close>

text \<open>Contracts and claims are untouched while reputations change.\<close>

definition same_claims :: "('w \<Rightarrow> tables) \<Rightarrow> 'w \<Rightarrow> 'w \<Rightarrow> bool" where
  "same_claims view s t \<longleftrightarrow> contracts_tbl (view t) = contracts_tbl (view s) \<and> claims_tbl (view t) = claims_tbl (view s)"

definition same_tables :: "('w \<Rightarrow> tables) \<Rightarrow> 'w \<Rightarrow> 'w \<Rightarrow> bool" where
  "same_tables view s t \<longleftrightarrow> view t = view s"

interpretation untouched: action_relation "same_tables view" for view :: "'w \<Rightarrow> tables"
  by unfold_locales (simp_all add: same_tables_def)

interpretation reputation_only: action_relation "same_claims view" for view :: "'w \<Rightarrow> tables"
  by unfold_locales (simp_all add: same_claims_def)

lemma untouched_same_claims: "relates (same_tables view) m \<Longrightarrow> relates (same_claims view) m"
  by (erule relates_mono) (simp add: same_claims_def same_tables_def)

lemma columns_untouched:
  "relates (same_tables view) (string_at row i)" "relates (same_tables view) (int_at row i)"
  "relates (same_tables view) (bytes_at row i)" "relates (same_tables view) (bool_at row i)"
  by (auto simp: string_at_def int_at_def bytes_at_def bool_at_def intro!: untouched.rel_basic
      split: option.split sql_value.split val.split)

lemma rows_untouched:
  "relates (same_tables view) (map_row_to_contract db row)"
  "relates (same_tables view) (map_row_to_verification_claim db row)"
  unfolding map_row_to_contract_def map_row_to_verification_claim_def peer_at_def
  by (intro untouched.rel_compose columns_untouched)+

lemma queries_untouched:
  assumes "autocommit_spec db view"
  shows "relates (same_tables view) (get_all_contracts db l)" "relates (same_tables view) (get_previous_verified db l cu)"
    "relates (same_tables view) (get_reputation db l p)"
proof -
  have q: "relates (same_tables view) (query_execute db l sql ps)" for sql ps
    using query_execute_spec [OF assms] unfolding same_tables_def by (blast intro: relatesI)
  show "relates (same_tables view) (get_all_contracts db l)" "relates (same_tables view) (get_previous_verified db l cu)"
    "relates (same_tables view) (get_reputation db l p)"
    unfolding get_all_contracts_def get_previous_verified_def get_reputation_def act_collect_def
    by (intro untouched.rel_compose rows_untouched q)+
qed

lemma check_previous_untouched:
  assumes "autocommit_spec db view"
  shows "relates (same_tables view) (check_previous db l c b)"
proof -
  have "relates (same_tables view) (\<lambda>w. case now_millis db w of (now, w') \<Rightarrow>
      if now < t then act_fail from_system_time_error w' else act_return () w')" for t
  proof (rule relatesI)
    fix s r u assume "(case now_millis db s of (now, w') \<Rightarrow>
      if now < t then act_fail from_system_time_error w' else act_return () w') = (r, u)"
    then have "u = snd (now_millis db s)" by (auto simp: act_simps split: prod.splits if_splits)
    with autocommit_clock [OF assms] show "same_tables view s u" by (simp add: same_tables_def)
  qed
  then show ?thesis unfolding check_previous_def
    by (intro untouched.rel_bind queries_untouched [OF assms]) (auto intro: untouched.rel_basic split: list.split)
qed

lemma reputation_same_claims:
  assumes "metadata_faithful db" "tx_spec db view txv"
  shows "relates (same_claims view) (increase_reputation db l p a)" "relates (same_claims view) (decrease_reputation db l p a)"
proof -
  show i: "relates (same_claims view) (increase_reputation db l p a)" for a
  proof (rule relatesI)
    fix s r t assume i: "increase_reputation db l p a s = (r, t)"
    obtain rep staked where "rep_of (view s) (to_base58 db p) = (rep, staked)" by (cases "rep_of (view s) (to_base58 db p)")
    from increase_reputation_tables [OF assms i this] show "same_claims view s t" by (auto simp: same_claims_def set_rep_def)
  qed
  show "relates (same_claims view) (decrease_reputation db l p a)"
    unfolding decrease_reputation_def by (intro reputation_only.rel_bind reputation_only.rel_option i)
qed

text \<open>The requests to keepers do not change the tables of the ledger.\<close>

definition requests_apart :: "('w \<Rightarrow> tables) \<Rightarrow> 'w verification_request \<Rightarrow> bool" where
  "requests_apart view req \<longleftrightarrow> (\<forall>p f ch s. view (snd (req p f ch s)) = view s)"

lemma verify_contracts_same_claims:
  assumes "autocommit_spec db view" "metadata_faithful db" "tx_spec db view txv" "requests_apart view req"
  shows "relates (same_claims view) (act_fold (verify_contract db l req ufs v) cs audits)"
proof -
  have r: "relates (same_claims view) (req p f ch)" for p f ch
    using assms(4) by (auto simp: relates_def same_claims_def requests_apart_def) (metis snd_conv)+
  note q = queries_untouched [OF assms(1), THEN untouched_same_claims] check_previous_untouched [OF assms(1), THEN untouched_same_claims]
  have "relates (same_claims view) (reward_peer db l p)" "relates (same_claims view) (punish_peer db l p)" for p
    unfolding reward_peer_def punish_peer_def
    by (auto intro!: reputation_only.rel_compose reputation_same_claims [OF assms(2,3)] q split: sum.split)
  then have "relates (same_claims view) (audit_contract db l req c)" for c
    unfolding audit_contract_def Let_def by (auto intro!: reputation_only.rel_compose r split: sum.split)
  then have "relates (same_claims view) (verify_contract db l req ufs v c audits)" for c audits
    unfolding verify_contract_def Let_def by (auto intro!: reputation_only.rel_compose q)
  then show ?thesis by (rule reputation_only.rel_fold)
qed

text \<open>The claim a verifier makes on its verdict; a corrupt one claims the opposite.\<close>

definition claim_of :: "verifier \<Rightarrow> string \<Rightarrow> bool \<Rightarrow> int \<Rightarrow> verification_claim" where
  "claim_of v cu b t = \<lparr>v_contract_uuid = cu, v_verified_by_id = verifier_peer_id v, v_verification_time = t, v_succeeded = (b \<noteq> corrupt v)\<rparr>"

lemma publish_spec:
  assumes "autocommit_spec db view" "publish db l v (cu, b) u w = (Ok (), w')"
  shows "contracts_tbl (view w') = contracts_tbl (view w) \<and>
    (claims_tbl (view w') = claims_tbl (view w) \<and> (\<exists>b s. fst (create_verified_claim db l cu (verifier_peer_id v) b s) \<noteq> Ok ()) \<or>
     (\<exists>t. claims_tbl (view w') = AList.update (cu, to_base58 db (verifier_peer_id v)) (claim_row db (claim_of v cu b t)) (claims_tbl (view w))))"
proof -
  obtain r where c: "create_verified_claim db l cu (verifier_peer_id v) (b \<noteq> corrupt v) w = (r, w')"
    using assms(2) by (auto simp: publish_def act_simps elim!: act_try_cases split: if_splits)
  from create_verified_claim_spec [OF assms(1) c] show ?thesis
  proof
    assume "(\<exists>e. r = Err e) \<and> view w' = view w"
    with c show ?thesis by (metis fst_conv outcome.distinct(1))
  qed (auto simp: claim_of_def)
qed

lemma publish_all:
  assumes "autocommit_spec db view" "act_fold (publish db l v) audits () w = (Ok (), w')"
  shows "contracts_tbl (view w') = contracts_tbl (view w)"
    and "map_of (claims_tbl (view w')) k = map_of (claims_tbl (view w)) k \<or> (\<exists>cu b t. (cu, b) \<in> set audits \<and>
      k = (cu, to_base58 db (verifier_peer_id v)) \<and> map_of (claims_tbl (view w')) k = Some (claim_row db (claim_of v cu b t)))"
    and "(\<And>cu b s. fst (create_verified_claim db l cu (verifier_peer_id v) b s) = Ok ()) \<Longrightarrow> map_of (rev audits) cu = Some b \<Longrightarrow>
      \<exists>t. map_of (claims_tbl (view w')) (cu, to_base58 db (verifier_peer_id v)) = Some (claim_row db (claim_of v cu b t))"
  using assms(2)
proof (induction audits arbitrary: w' cu b rule: rev_induct)
  case Nil
  { case 1 then show ?case by (simp add: act_simps) }
  { case 2 then show ?case by (simp add: act_simps) }
  { case 3 then show ?case by simp }
next
  case (snoc a audits)
  obtain x y where a: "a = (x, y)" by (cases a)
  have step: "\<exists>w1. act_fold (publish db l v) audits () w = (Ok (), w1) \<and> contracts_tbl (view w'') = contracts_tbl (view w1) \<and>
    (claims_tbl (view w'') = claims_tbl (view w1) \<and> (\<exists>b s. fst (create_verified_claim db l x (verifier_peer_id v) b s) \<noteq> Ok ()) \<or>
     (\<exists>t. claims_tbl (view w'') = AList.update (x, to_base58 db (verifier_peer_id v)) (claim_row db (claim_of v x y t)) (claims_tbl (view w1))))"
    if "act_fold (publish db l v) (audits @ [a]) () w = (Ok (), w'')" for w''
  proof -
    from that obtain w1 where "act_fold (publish db l v) audits () w = (Ok (), w1)" "publish db l v (x, y) () w1 = (Ok (), w'')"
      by (auto simp: act_fold_append a act_simps elim!: act_bind_OkE)
    with publish_spec [OF assms(1) this(2)] show ?thesis by blast
  qed
  { case 1
    then show ?case using step snoc.IH(1) by metis }
  { case 2
    from step [OF 2] obtain w1 where f: "act_fold (publish db l v) audits () w = (Ok (), w1)"
      and p: "claims_tbl (view w') = claims_tbl (view w1) \<or> (\<exists>t. claims_tbl (view w')
        = AList.update (x, to_base58 db (verifier_peer_id v)) (claim_row db (claim_of v x y t)) (claims_tbl (view w1)))" by blast
    from p show ?case
    proof
      assume "claims_tbl (view w') = claims_tbl (view w1)"
      with snoc.IH(2) [OF f] show ?thesis by auto
    next
      assume "\<exists>t. claims_tbl (view w')
        = AList.update (x, to_base58 db (verifier_peer_id v)) (claim_row db (claim_of v x y t)) (claims_tbl (view w1))"
      then obtain t where "claims_tbl (view w')
        = AList.update (x, to_base58 db (verifier_peer_id v)) (claim_row db (claim_of v x y t)) (claims_tbl (view w1))" ..
      then have u: "map_of (claims_tbl (view w')) k = (if k = (x, to_base58 db (verifier_peer_id v))
        then Some (claim_row db (claim_of v x y t)) else map_of (claims_tbl (view w1)) k)" by (simp add: update_conv')
      have "(x, y) \<in> set (audits @ [a])" by (simp add: a)
      with u snoc.IH(2) [OF f] show ?thesis by (cases "k = (x, to_base58 db (verifier_peer_id v))") (metis, auto)
    qed }
  { case 3
    have "\<not> (\<exists>b s. fst (create_verified_claim db l x (verifier_peer_id v) b s) \<noteq> Ok ())" using 3(1) by simp
    with step [OF 3(3)] obtain w1 t where f: "act_fold (publish db l v) audits () w = (Ok (), w1)"
      and p: "claims_tbl (view w') = AList.update (x, to_base58 db (verifier_peer_id v)) (claim_row db (claim_of v x y t)) (claims_tbl (view w1))"
      by blast
    show ?case
    proof (cases "cu = x")
      case True
      with 3(2) p show ?thesis by (auto simp: a update_conv')
    next
      case False
      with 3(2) have "map_of (rev audits) cu = Some b" by (simp add: a)
      with snoc.IH(3) [OF 3(1) _ f] p False show ?thesis by (auto simp: update_conv')
    qed }
qed

text \<open>
  C20: What a completed cycle leaves in the ledger: the contracts are those of before, and so is every claim but those of this verifier on the
  contracts it audited; each of these is unchanged or is the verdict of the cycle, turned into its opposite by a corrupt verifier. When
  the ledger takes every claim, the last verdict on every audited contract is on record.
\<close>

theorem cycle_publishes_verdicts:
  assumes "autocommit_spec db view" "metadata_faithful db" "tx_spec db view txv" "requests_apart view req"
    and "verifier_cycle db l req ufs v w = (Ok v', w')"
  shows "\<exists>contracts w1 audits w2. get_all_contracts db l w = (Ok contracts, w1)
    \<and> act_fold (verify_contract db l req ufs v) contracts [] w1 = (Ok audits, w2)
    \<and> contracts_tbl (view w') = contracts_tbl (view w)
    \<and> (\<forall>k. map_of (claims_tbl (view w')) k = map_of (claims_tbl (view w)) k \<or> (\<exists>cu b t. (cu, b) \<in> set audits \<and>
        k = (cu, to_base58 db (verifier_peer_id v)) \<and> map_of (claims_tbl (view w')) k = Some (claim_row db (claim_of v cu b t))))
    \<and> ((\<forall>cu b s. fst (create_verified_claim db l cu (verifier_peer_id v) b s) = Ok ()) \<longrightarrow>
        (\<forall>cu b. map_of (rev audits) cu = Some b \<longrightarrow> (\<exists>t.
          map_of (claims_tbl (view w')) (cu, to_base58 db (verifier_peer_id v)) = Some (claim_row db (claim_of v cu b t)))))"
proof -
  obtain contracts w1 audits w2 where s: "get_all_contracts db l w = (Ok contracts, w1)"
    "act_fold (verify_contract db l req ufs v) contracts [] w1 = (Ok audits, w2)"
    "act_fold (publish db l v) audits () w2 = (Ok (), w')" using assms(5) by (rule verifier_cycle_steps)
  have "same_claims view w w1" "same_claims view w1 w2"
    using relatesD [OF queries_untouched(1) [OF assms(1), THEN untouched_same_claims] s(1)]
      relatesD [OF verify_contracts_same_claims [OF assms(1-4)] s(2)] by simp_all
  then have t: "contracts_tbl (view w2) = contracts_tbl (view w)" "claims_tbl (view w2) = claims_tbl (view w)"
    by (simp_all add: same_claims_def)
  note p = publish_all [OF assms(1) s(3), unfolded t]
  show ?thesis by (rule exI [of _ contracts], rule exI [of _ w1], rule exI [of _ audits], rule exI [of _ w2])
    (intro conjI allI impI s(1,2) p(1,2), rule p(3), simp_all)
qed

section \<open>Reward and punishment\<close>



text \<open>
  Punishing a peer needs its reputation first: when the ledger cannot be queried at that
  moment, the verifier does not report an error but panics.
\<close>

lemma punish_panics_without_ledger:
  assumes "get_reputation db l peer w = (Err e, w')"
  shows "punish_peer db l peer w = (Panic, w')"
  using assms by (simp add: punish_peer_def act_simps)

section \<open>A verifier in memory\<close>

text \<open>Three contracts, of which the first and the last, whose file name is no UUID, are in the first share.\<close>

definition empty_contract :: "string \<Rightarrow> string \<Rightarrow> contract" where
  "empty_contract cu fu = \<lparr>c_contract_uuid = cu, c_peer_id = PeerId [65], c_file_uuid = fu, c_file_hash = [],
     c_upload_date = 0, c_ttl = 0, c_secret_n = [], c_secret_m = [], c_rows = 0, c_cols = 0\<rparr>"

definition three_contracts :: "contract list" where
  "three_contracts = [empty_contract ''a'' ''low'', empty_contract ''b'' ''high'', empty_contract ''c'' ''bad'']"

definition contracts_world :: mem_world where
  "contracts_world = empty_world\<lparr>committed := (committed empty_world)\<lparr>contracts_tbl :=
     map (\<lambda>c. (c_file_uuid c, contract_row (mem_db False) c)) three_contracts\<rparr>\<rparr>"

definition mem_uuids :: "string \<Rightarrow> uuid option" where
  "mem_uuids s = (if s = ''low'' then Some 5 else if s = ''high'' then Some (- 1) else None)"

abbreviation (input) mem_cycle :: "(verifier outcome \<times> mem_world)" where
  "mem_cycle \<equiv> verifier_cycle (mem_db False) mem_ledger (\<lambda>_ _ _. act_return []) mem_uuids (new_verifier (PeerId []) False) contracts_world"

lemma mem_contracts: "get_all_contracts (mem_db False) mem_ledger contracts_world = (Ok three_contracts, contracts_world)"
proof -
  let ?rows = "map (contract_row (mem_db False)) three_contracts"
  have "query_execute (mem_db False) mem_ledger select_all_contracts_sql [] contracts_world = (Ok ?rows, contracts_world)"
    by (simp add: query_execute_def with_client_def mem_ledger_def auth_map_def metadata_value_def call_def mem_db_def
        mem_query_def query_rows_def sql_simps act_bind_def act_simps Let_def contracts_world_def empty_world_def comp_def)
  then show ?thesis
    by (simp add: get_all_contracts_def act_bind_def act_collect_def map_row_to_contract_row [OF mem_db_peer_text] act_simps
        three_contracts_def)
qed

lemma mem_share: "map c_contract_uuid (filter (audited_by (new_verifier (PeerId []) False) mem_uuids) three_contracts) = [''a'', ''c'']"
  by (simp add: three_contracts_def empty_contract_def mem_uuids_def audited_by_def new_verifier_def in_share_def share_value)

lemma mem_claim_ok: "fst (create_verified_claim (mem_db False) mem_ledger cu p b s) = Ok ()"
  by (simp add: create_verified_claim_def since_epoch_def sql_execute_def with_client_def auth_map_def metadata_value_def
      call_def mem_ledger_def mem_db_def mem_exec_def exec_result_def act_bind_def act_simps Let_def sql_simps)

lemma mem_publish_ok: "\<exists>w'. act_fold (publish (mem_db False) mem_ledger v) audits () w = (Ok (), w')"
proof (induction audits arbitrary: w)
  case (Cons a audits)
  obtain cu b where a: "a = (cu, b)" by (cases a)
  have c: "create_verified_claim (mem_db False) mem_ledger cu (verifier_peer_id v) x w
      = (Ok (), snd (create_verified_claim (mem_db False) mem_ledger cu (verifier_peer_id v) x w))" for x
    using mem_claim_ok by (simp add: prod_eq_iff)
  have "\<exists>w1. publish (mem_db False) mem_ledger v (cu, b) () w = (Ok (), w1)"
    unfolding publish_def prod.case act_try_def using c [of b] c [of "\<not> b"] by (cases "corrupt v") (auto simp: act_simps split: prod.splits)
  with Cons.IH show ?case by (auto simp: a act_simps)
qed (simp add: act_simps)

lemma mem_cycle_ok: "\<exists>v'. mem_cycle = (Ok v', snd mem_cycle)"
proof -
  let ?v = "new_verifier (PeerId []) False"
  let ?f = "act_fold (verify_contract (mem_db False) mem_ledger (\<lambda>_ _ _. act_return []) mem_uuids ?v) three_contracts [] contracts_world"
  have "is_ok (fst ?f)" by code_simp
  from is_ok_pair [OF this] obtain audits w2 where f: "?f = (Ok audits, w2)" by blast
  obtain v' where "next_iteration ?v = Some v'" using next_iteration_from(1) [of ?v] by (simp add: new_verifier_def)
  then have "is_ok (fst mem_cycle)"
    using mem_publish_ok [of ?v audits w2] by (auto simp: verifier_cycle_def mem_contracts act_bind_def f act_simps)
  then show ?thesis by (rule is_ok_pair)
qed

theorem cycle_audits_the_share_witness:
  "\<exists>v' w' audits w2 b. verifier_cycle (mem_db False) mem_ledger (\<lambda>_ _ _. act_return []) mem_uuids (new_verifier (PeerId []) False)
       contracts_world = (Ok v', w') \<and> map fst audits = [''a'', ''c''] \<and> hd audits = (''a'', b)
     \<and> verdict_on (\<lambda>_ _ _. act_return []) (empty_contract ''a'' ''low'') contracts_world b
     \<and> act_fold (publish (mem_db False) mem_ledger (new_verifier (PeerId []) False)) audits () w2 = (Ok (), w')"
proof -
  let ?v = "new_verifier (PeerId []) False" and ?req = "\<lambda>_ _ _. act_return [] :: (mem_world, u64 list) action"
  obtain v' where c: "mem_cycle = (Ok v', snd mem_cycle)" using mem_cycle_ok ..
  from cycle_audits_the_share [OF c] obtain audits w2 where
    a: "map fst audits = map c_contract_uuid (filter (audited_by ?v mem_uuids) three_contracts)"
    "act_fold (publish (mem_db False) mem_ledger ?v) audits () w2 = (Ok (), snd mem_cycle)"
    and at: "\<forall>pre c post. three_contracts = pre @ c # post \<and> audited_by ?v mem_uuids c \<longrightarrow>
      (\<exists>before s b after. act_fold (verify_contract (mem_db False) mem_ledger ?req mem_uuids ?v) pre [] contracts_world = (Ok before, s)
        \<and> verdict_on ?req c s b \<and> audits = before @ (c_contract_uuid c, b) # after)"
    unfolding mem_contracts prod.inject outcome.inject by blast
  have "three_contracts = [] @ empty_contract ''a'' ''low'' # tl three_contracts" "audited_by ?v mem_uuids (empty_contract ''a'' ''low'')"
    "c_contract_uuid (empty_contract ''a'' ''low'') = ''a''"
    by (simp_all add: three_contracts_def empty_contract_def mem_uuids_def audited_by_def new_verifier_def in_share_def share_value)
  with at have "\<exists>before s b after. act_fold (verify_contract (mem_db False) mem_ledger ?req mem_uuids ?v) [] [] contracts_world = (Ok before, s)
        \<and> verdict_on ?req (empty_contract ''a'' ''low'') s b \<and> audits = before @ (''a'', b) # after" by metis
  then have "\<exists>b. hd audits = (''a'', b) \<and> verdict_on ?req (empty_contract ''a'' ''low'') contracts_world b"
    by (auto simp: act_simps)
  with a c mem_share show ?thesis by metis
qed

theorem cycle_publishes_verdicts_witness:
  "\<exists>b t. map_of (claims_tbl (committed (snd (verifier_cycle (mem_db False) mem_ledger (\<lambda>_ _ _. act_return []) mem_uuids
       (new_verifier (PeerId []) False) contracts_world)))) (''c'', to_base58 (mem_db False) (PeerId []))
     = Some (claim_row (mem_db False) (claim_of (new_verifier (PeerId []) False) ''c'' b t))"
proof -
  let ?v = "new_verifier (PeerId []) False" and ?req = "\<lambda>_ _ _. act_return [] :: (mem_world, u64 list) action"
  obtain v' where c: "mem_cycle = (Ok v', snd mem_cycle)" using mem_cycle_ok ..
  have "requests_apart committed ?req" by (simp add: requests_apart_def act_simps)
  then obtain audits w2 where
    f: "act_fold (verify_contract (mem_db False) mem_ledger ?req mem_uuids ?v) three_contracts [] contracts_world = (Ok audits, w2)"
    and p: "\<forall>cu b. map_of (rev audits) cu = Some b \<longrightarrow> (\<exists>t. map_of (claims_tbl (committed (snd mem_cycle)))
      (cu, to_base58 (mem_db False) (verifier_peer_id ?v)) = Some (claim_row (mem_db False) (claim_of ?v cu b t)))"
    using cycle_publishes_verdicts [OF mem_db_autocommit mem_db_metadata mem_db_tx _ c] mem_claim_ok
    unfolding mem_contracts prod.inject outcome.inject by blast
  have "''c'' \<in> fst ` set (rev audits)"
    using verify_contracts_extend [OF f] mem_share by (metis append_Nil list.set_intros list.set_map set_rev)
  then obtain b where "map_of (rev audits) ''c'' = Some b" by (metis map_of_eq_None_iff not_Some_eq)
  with p have "\<exists>t. map_of (claims_tbl (committed (snd mem_cycle))) (''c'', to_base58 (mem_db False) (verifier_peer_id ?v))
      = Some (claim_row (mem_db False) (claim_of ?v ''c'' b t))" by blast
  moreover have "verifier_peer_id ?v = PeerId []" by (simp add: new_verifier_def)
  ultimately show ?thesis by metis
qed



end
