(* ===== verification/Settings.thy ===== *)
theory Settings
  imports Peer_Id Malice Ledger Verifier
begin

text \<open>
  \<^verbatim>\<open>src/settings/mod.rs\<close>: the settings of a node, their defaults and accessors, and how they are loaded; and what the
  factories of storage, swarm and verifier and \<^verbatim>\<open>src/main.rs\<close> do with them before the node runs. Environment variables, files, the
  random numbers, the YAML writer and the config reader are parameters.
\<close>

section \<open>Settings\<close>

datatype storage_settings = LocalStore (ss_path: string) (ss_create: bool) | Docker

record swarm_settings =
  sw_keypair :: "string option"
  sw_leading_zeros :: nat
  sw_port :: nat
  sw_bootstrap :: "string list"

record verifier_settings =
  vs_enabled :: bool
  vs_corrupt :: bool

datatype ledger_settings = Immudb (ls_username: string) (ls_password: string) (ls_address: string)

record settings =
  set_storage :: storage_settings
  set_grpc_port :: nat
  set_swarm :: swarm_settings
  set_ledger :: ledger_settings
  set_malicious :: "malicious_behavior option"
  set_verifier :: verifier_settings
  set_por_enabled :: bool

definition storage_default :: storage_settings where
  "storage_default = LocalStore ''data'' True"

definition ledger_default :: ledger_settings where
  "ledger_default = Immudb [] [] ''127.0.0.1:3322''"

abbreviation (input) malicious_behavior_default :: malicious_behavior where
  "malicious_behavior_default \<equiv> NoMalice"

definition settings_malicious_behavior :: "settings \<Rightarrow> malicious_behavior" where
  "settings_malicious_behavior s = (case set_malicious s of Some b \<Rightarrow> b | None \<Rightarrow> malicious_behavior_default)"

definition CONFIG_DIR :: string where "CONFIG_DIR = ''config''"
definition DATA_DIR :: string where "DATA_DIR = ''data''"
definition BASE_CONFIG :: string where "BASE_CONFIG = ''config/base.yaml''"

record 'w system_env =
  env_var :: "string \<Rightarrow> string option"
  path_exists :: "string \<Rightarrow> 'w \<Rightarrow> bool"
  write_file :: "string \<Rightarrow> string \<Rightarrow> 'w \<Rightarrow> (ext_error + unit) \<times> 'w"
  create_dir_all :: "string \<Rightarrow> 'w \<Rightarrow> (ext_error + unit) \<times> 'w"
  gen_range :: "nat \<Rightarrow> nat \<Rightarrow> 'w \<Rightarrow> nat \<times> 'w"
  settings_to_yaml :: "settings \<Rightarrow> ext_error + string"
  read_config :: "string list \<Rightarrow> 'w \<Rightarrow> ext_error + settings"

definition random_port :: "'w system_env \<Rightarrow> 'w \<Rightarrow> nat \<times> 'w" where
  "random_port env = gen_range env 5000 10000"

text \<open>\<^verbatim>\<open>Settings::new\<close>: the search for a key pair may not end.\<close>

definition settings_new :: "'w system_env \<Rightarrow> ('w, 'k) keys \<Rightarrow> string \<Rightarrow> 'w \<Rightarrow> (settings \<times> 'w) option" where
  "settings_new env g config_name w =
     (case random_port env w of (grpc_port, w1) \<Rightarrow>
      do { (k, w2) \<leftarrow> keypair_with_leading_zeros g DEFAULT_LEADING_ZEROS w1;
           (case random_port env w2 of (port, w3) \<Rightarrow>
            Some (\<lparr>set_storage = LocalStore (DATA_DIR @ ''/'' @ config_name) True, set_grpc_port = grpc_port,
                   set_swarm = \<lparr>sw_keypair = Some (keypair_to_base64_proto g k), sw_leading_zeros = DEFAULT_LEADING_ZEROS,
                     sw_port = port, sw_bootstrap = []\<rparr>,
                   set_ledger = Immudb ''immudb'' ''immudb'' ''127.0.0.1:3322'', set_malicious = Some NoMalice,
                   set_verifier = \<lparr>vs_enabled = True, vs_corrupt = False\<rparr>, set_por_enabled = True\<rparr>, w3)) })"

text \<open>
  \<^verbatim>\<open>SettingsProvider::invoke\<close>: a missing file of the environment is written first, errors of writing it are dropped; the sources
  of the configuration are the base file where it exists, the file of the environment, and the variables with prefix \<^verbatim>\<open>KISS\<close>.
\<close>

definition settings_provider :: "'w system_env \<Rightarrow> ('w, 'k) keys \<Rightarrow> 'w \<Rightarrow> ((error_kind + settings) \<times> 'w) option" where
  "settings_provider env g w =
     (let env_conf = (case env_var env ''ENV'' of Some e \<Rightarrow> e | None \<Rightarrow> ''dev'');
          file_name = CONFIG_DIR @ ''/'' @ env_conf @ ''.yaml'' in
      do { w1 \<leftarrow> (if path_exists env file_name w then Some w
                  else do { (s, w1) \<leftarrow> settings_new env g env_conf w;
                            Some (snd (write_file env file_name
                              (case settings_to_yaml env s of Inr y \<Rightarrow> y | Inl _ \<Rightarrow> []) w1)) });
           Some (case read_config env ((if path_exists env BASE_CONFIG w1 then [BASE_CONFIG] else [])
                     @ [CONFIG_DIR @ ''/'' @ env_conf]) w1 of
                   Inl e \<Rightarrow> Inl (ConfigErr e) | Inr s \<Rightarrow> Inr s, w1) })"

section \<open>Factories\<close>

text \<open>\<^verbatim>\<open>LocalStorage::new\<close> and \<^verbatim>\<open>StorageProvider::invoke\<close>; \<open>open_prefix\<close> is the object store.\<close>

definition local_storage_new :: "'w system_env \<Rightarrow> (string \<Rightarrow> 'w \<Rightarrow> (ext_error + 's) \<times> 'w) \<Rightarrow> string \<Rightarrow> bool \<Rightarrow> ('w, 's) action" where
  "local_storage_new env open_prefix prefix create =
     act_bind (\<lambda>w. if create \<and> \<not> path_exists env prefix w
        then (case create_dir_all env prefix w of (r, w') \<Rightarrow> act_result FilesystemErr r w') else (Ok (), w)) (\<lambda>_ w.
     case open_prefix prefix w of (r, w') \<Rightarrow> act_result LocalStorageFail r w')"

definition storage_provider :: "'w system_env \<Rightarrow> (string \<Rightarrow> 'w \<Rightarrow> (ext_error + 's) \<times> 'w) \<Rightarrow> settings \<Rightarrow> ('w, 's) action" where
  "storage_provider env open_prefix s = (case set_storage s of
     LocalStore path create \<Rightarrow> local_storage_new env open_prefix path create
   | Docker \<Rightarrow> act_panic)"

text \<open>The key pair of the node, as the verifier, the swarm and \<^verbatim>\<open>main\<close> get it.\<close>

definition decode_keypair :: "('w, 'k) keys \<Rightarrow> string \<Rightarrow> error_kind + 'k" where
  "decode_keypair g t = (case b64np_decode g t of
     Inl e \<Rightarrow> Inl (KeypairBase64DecodeError e)
   | Inr b \<Rightarrow> (case from_protobuf g b of Inl e \<Rightarrow> Inl (KeypairBase64DecodingError e) | Inr k \<Rightarrow> Inr k))"

definition swarm_keypair :: "('w, 'k) keys \<Rightarrow> settings \<Rightarrow> 'w \<Rightarrow> ((error_kind + 'k) \<times> 'w) option" where
  "swarm_keypair g s w = (case sw_keypair (set_swarm s) of
     Some t \<Rightarrow> Some (decode_keypair g t, w)
   | None \<Rightarrow> do { (k, w') \<leftarrow> keypair_with_leading_zeros g DEFAULT_LEADING_ZEROS w; Some (Inr k, w') })"

definition verifier_provider :: "('w, 'k) keys \<Rightarrow> ('k \<Rightarrow> peer_id) \<Rightarrow> settings \<Rightarrow> error_kind + verifier" where
  "verifier_provider g peer_of s = (case sw_keypair (set_swarm s) of
     Some t \<Rightarrow> (case decode_keypair g t of Inl e \<Rightarrow> Inl e
       | Inr k \<Rightarrow> Inr (new_verifier (peer_of k) (vs_corrupt (set_verifier s))))
   | None \<Rightarrow> Inl (Generic ''verifier requires a peer id in the config''))"

text \<open>\<^verbatim>\<open>start\<close> of \<^verbatim>\<open>main.rs\<close>: the reputation is read once a second; \<open>n\<close> rounds of it.\<close>

primrec reputation_rounds :: "nat \<Rightarrow> 'w immudb \<Rightarrow> immu_ledger \<Rightarrow> peer_id \<Rightarrow> ('w, unit) action" where
  "reputation_rounds 0 db l p = act_return ()"
| "reputation_rounds (Suc n) db l p = act_bind (get_reputation db l p) (\<lambda>_. reputation_rounds n db l p)"

definition main_start :: "('w, 'k) keys \<Rightarrow> ('k \<Rightarrow> peer_id) \<Rightarrow> 'w immudb \<Rightarrow> immu_ledger \<Rightarrow> settings \<Rightarrow> nat \<Rightarrow> ('w, unit) action" where
  "main_start g peer_of db l s n = (case sw_keypair (set_swarm s) of
     Some t \<Rightarrow> (case decode_keypair g t of
        Inl _ \<Rightarrow> act_fail (Generic ''eval requires a peer id in the config'')
      | Inr k \<Rightarrow> reputation_rounds n db l (peer_of k))
   | None \<Rightarrow> act_fail (Generic ''verifier requires a peer id in the config''))"

section \<open>The first start of a node\<close>

lemma keypair_found:
  assumes "keypair_with_leading_zeros g z w = Some (k, w')"
  shows "leading_zeros_ok g z k"
proof -
  have "keypair_with_leading_zeros g z w = Some y \<Longrightarrow> leading_zeros_ok g z (fst y)" for y
    by (rule keypair_with_leading_zeros.raw_induct [of "\<lambda>g z w y. leading_zeros_ok g z (fst y)"])
       (auto split: prod.splits if_splits)
  from this [OF assms] show ?thesis by simp
qed

text \<open>The codecs of key pairs invert their encoders.\<close>

definition keys_ok :: "('w, 'k) keys \<Rightarrow> bool" where
  "keys_ok g \<longleftrightarrow> (\<forall>b. b64np_decode g (b64np_encode g b) = Inr b) \<and>
     (\<forall>k. \<exists>b. to_protobuf g k = Inr b \<and> from_protobuf g b = Inr k)"

lemma decode_keypair_text: "keys_ok g \<Longrightarrow> decode_keypair g (keypair_to_base64_proto g k) = Inr k"
  unfolding keys_ok_def decode_keypair_def keypair_to_base64_proto_def by (metis (no_types, lifting) sum.case(2))

text \<open>The settings that were written are read back: no other source overrides them.\<close>

definition config_kept :: "'w system_env \<Rightarrow> ('w, 'k) keys \<Rightarrow> string \<Rightarrow> 'w \<Rightarrow> bool" where
  "config_kept env g env_conf w0 \<longleftrightarrow> (\<forall>s w. settings_new env g env_conf w0 = Some (s, w) \<longrightarrow> (\<exists>y w'. settings_to_yaml env s = Inr y \<and>
     write_file env (CONFIG_DIR @ ''/'' @ env_conf @ ''.yaml'') y w = (Inr (), w') \<and>
     (\<forall>base. read_config env (base @ [CONFIG_DIR @ ''/'' @ env_conf]) w' = Inr s)))"

text \<open>
  C25: On its first start a node writes settings with which it can run: the swarm and the verifier get the same new key pair,
  whose hashed public key starts with two zeros, the ports are between 5000 and 9999, and proofs
  of retrievability are enabled.
\<close>

theorem first_start_configures_node:
  assumes "keys_ok g" "config_kept env g env_conf w" "env_var env ''ENV'' = Some env_conf"
    and "\<not> path_exists env (CONFIG_DIR @ ''/'' @ env_conf @ ''.yaml'') w"
    and "\<And>a b w. a < b \<Longrightarrow> a \<le> fst (gen_range env a b w) \<and> fst (gen_range env a b w) < b"
    and "settings_provider env g w = Some (r, w1)"
  shows "\<exists>s k. r = Inr s \<and> swarm_keypair g s v = Some (Inr k, v) \<and> leading_zeros_ok g DEFAULT_LEADING_ZEROS k
    \<and> verifier_provider g peer_of s = Inr (new_verifier (peer_of k) False) \<and> set_por_enabled s
    \<and> 5000 \<le> set_grpc_port s \<and> set_grpc_port s < 10000 \<and> 5000 \<le> sw_port (set_swarm s) \<and> sw_port (set_swarm s) < 10000"
proof -
  from assms(3,4,6) obtain s w2 where new: "settings_new env g env_conf w = Some (s, w2)"
    and w1: "w1 = snd (write_file env (CONFIG_DIR @ ''/'' @ env_conf @ ''.yaml'')
        (case settings_to_yaml env s of Inr y \<Rightarrow> y | Inl _ \<Rightarrow> []) w2)"
    and r: "r = (case read_config env ((if path_exists env BASE_CONFIG w1 then [BASE_CONFIG] else [])
        @ [CONFIG_DIR @ ''/'' @ env_conf]) w1 of Inl e \<Rightarrow> Inl (ConfigErr e) | Inr s \<Rightarrow> Inr s)"
    by (auto simp: settings_provider_def Let_def split: bind_splits if_splits)
  from assms(2) obtain y w' where y: "settings_to_yaml env s = Inr y"
    "write_file env (CONFIG_DIR @ ''/'' @ env_conf @ ''.yaml'') y w2 = (Inr (), w')"
    "\<And>base. read_config env (base @ [CONFIG_DIR @ ''/'' @ env_conf]) w' = Inr s"
    using new unfolding config_kept_def by blast
  have "r = Inr s" using w1 y by (simp add: r)
  from new obtain k w3 w4 where k: "keypair_with_leading_zeros g DEFAULT_LEADING_ZEROS w3 = Some (k, w4)"
    and s: "sw_keypair (set_swarm s) = Some (keypair_to_base64_proto g k)" "set_verifier s = \<lparr>vs_enabled = True, vs_corrupt = False\<rparr>"
      "set_por_enabled s" "set_grpc_port s = fst (random_port env w)" "sw_port (set_swarm s) = fst (random_port env w4)"
    by (auto simp: settings_new_def split: prod.splits bind_splits)
  have "5000 \<le> fst (random_port env v) \<and> fst (random_port env v) < 10000" for v
    unfolding random_port_def by (rule assms(5)) simp
  with \<open>r = Inr s\<close> s keypair_found [OF k] decode_keypair_text [OF assms(1)] show ?thesis
    by (auto simp: swarm_keypair_def verifier_provider_def)
qed

definition mem_settings :: settings where
  "mem_settings = \<lparr>set_storage = LocalStore ''data/dev'' True, set_grpc_port = 5000,
     set_swarm = \<lparr>sw_keypair = Some ''d'', sw_leading_zeros = 2, sw_port = 5000, sw_bootstrap = []\<rparr>,
     set_ledger = Immudb ''immudb'' ''immudb'' ''127.0.0.1:3322'', set_malicious = Some NoMalice,
     set_verifier = \<lparr>vs_enabled = True, vs_corrupt = False\<rparr>, set_por_enabled = True\<rparr>"

definition mem_system :: "nat system_env" where
  "mem_system = \<lparr>env_var = \<lambda>_. Some ''dev'', path_exists = \<lambda>_ _. False, write_file = \<lambda>_ _ w. (Inr (), w),
     create_dir_all = \<lambda>_ w. (Inr (), w), gen_range = \<lambda>a _ w. (a, w), settings_to_yaml = \<lambda>_. Inr ''yaml'',
     read_config = \<lambda>_ _. Inr mem_settings\<rparr>"

lemma mem_settings_new: "settings_new mem_system mem_keys ''dev'' 98 = Some (mem_settings, 101)"
proof -
  have "keypair_with_leading_zeros mem_keys 2 98 = Some (100, 101)"
    by (subst search_step, subst search_step, subst search_step) (simp add: mem_keys_zeros)
  moreover have "keypair_to_base64_proto mem_keys 100 = ''d''" by code_simp
  ultimately show ?thesis
    by (simp add: settings_new_def random_port_def mem_system_def mem_settings_def DEFAULT_LEADING_ZEROS_def DATA_DIR_def)
qed

lemma mem_keys_ok: "keys_ok mem_keys"
  by (auto simp: keys_ok_def mem_keys_def)

theorem first_start_configures_node_witness:
  "\<exists>s k. fst (the (settings_provider mem_system mem_keys 98)) = Inr s
     \<and> swarm_keypair mem_keys s 0 = Some (Inr k, 0) \<and> leading_zeros_ok mem_keys DEFAULT_LEADING_ZEROS k"
proof -
  have k: "config_kept mem_system mem_keys ''dev'' 98"
    by (auto simp: config_kept_def mem_settings_new) (simp_all add: mem_system_def)
  have e: "env_var mem_system ''ENV'' = Some ''dev''" "\<not> path_exists mem_system p w"
    "a < b \<Longrightarrow> a \<le> fst (gen_range mem_system a b w) \<and> fst (gen_range mem_system a b w) < b" for p w a b
    by (simp_all add: mem_system_def)
  have "\<exists>r w1. settings_provider mem_system mem_keys 98 = Some (r, w1)"
    by (simp add: settings_provider_def Let_def e mem_settings_new)
  then obtain r w1 where p: "settings_provider mem_system mem_keys 98 = Some (r, w1)" by blast
  from first_start_configures_node [OF mem_keys_ok k e(1,2,3) p, of 0 "\<lambda>k. PeerId [k]"] p show ?thesis by auto
qed

end
