(* ===== verification/Por_Tests.thy ===== *)
theory Por_Tests
  imports Por_Audit
begin

text \<open>
  The tests of \<^verbatim>\<open>src/verifier/por.rs\<close>. They build both configurations with an \<^verbatim>\<open>init\<close> of their own, an older
  form of the two \<^verbatim>\<open>from_file\<close> functions; the two forms agree, so that what the tests show holds of the code in
  use. A test is a value \<open>Some ()\<close> when it passes and \<open>None\<close> when it panics, an assertion included.
  The benches run the same functions and assert nothing.
\<close>

definition assert :: "bool \<Rightarrow> unit option" where
  "assert b = (if b then Some () else None)"

definition tests_init :: "bytes \<Rightarrow> (client_config \<times> server_config) option" where
  "tests_init file = do {
     l \<leftarrow> checked_sub (length file) 1;
     let num_chunks = 1 + l div BYTES_UNDER_P;
     let rows = grid_rows num_chunks;
     c \<leftarrow> checked_div (num_chunks - 1) rows;
     let cols = 1 + c;
     vector_u \<leftarrow> rand_vector cols 2020;
     let file_extended = extend_file (BYTES_UNDER_P * rows) file;
     partials1 \<leftarrow> foldM (client_row file_extended rows vector_u) [0..<cols] (replicate rows 0);
     Some (\<lparr>cc_rows = rows, cc_cols = cols, secret_m_vector = vector_u, secret_n_vector = map reduce partials1\<rparr>,
           \<lparr>sc_rows = rows, sc_cols = cols, sc_file = file\<rparr>) }"

definition tests_audit :: "client_config \<Rightarrow> server_config \<Rightarrow> bool option" where
  "tests_audit client server = do {
     challenge \<leftarrow> make_challenge_vector client;
     response \<leftarrow> fulfill_challenge server challenge;
     audit client challenge response }"

definition test_init :: "unit option" where
  "test_init = do {
     (client_config, server_config) \<leftarrow> tests_init alphabet;
     assert (cc_rows client_config = 56);
     assert (cc_cols client_config = 1);
     assert (secret_m_vector client_config = [57829946736570845]);
     assert (secret_n_vector client_config =
       [120891374367124132, 131035456404565768, 141179538442007404, 22254200296736808] @ replicate 52 0);
     assert (sc_rows server_config = 56);
     assert (sc_cols server_config = 1);
     assert (sc_file server_config = alphabet) }"

definition test_audit :: "unit option" where
  "test_audit = do {
     (client, server) \<leftarrow> tests_init alphabet;
     b \<leftarrow> tests_audit client server;
     assert b }"

definition test_audit_separate :: "unit option" where
  "test_audit_separate = do {
     client \<leftarrow> client_from_file alphabet;
     server \<leftarrow> server_from_file alphabet;
     b \<leftarrow> tests_audit client server;
     assert b }"

text \<open>The debugging test does not look at the verdict.\<close>

definition test_audit_abc_for_debugging :: "unit option" where
  "test_audit_abc_for_debugging = do {
     client \<leftarrow> client_from_file [97, 98, 99];
     server \<leftarrow> server_from_file [97, 98, 99];
     challenge \<leftarrow> make_challenge_vector client;
     response \<leftarrow> fulfill_challenge server challenge;
     verdict \<leftarrow> audit client challenge response;
     Some () }"

definition test_audit_10mb :: "unit option" where
  "test_audit_10mb = do {
     (client, server) \<leftarrow> tests_init (concat (replicate 400000 alphabet));
     b \<leftarrow> tests_audit client server;
     assert b }"

definition test_audit_100mb :: "unit option" where
  "test_audit_100mb = do {
     (client, server) \<leftarrow> tests_init (concat (replicate 4000000 alphabet));
     b \<leftarrow> tests_audit client server;
     assert b }"

section \<open>The two forms of the configuration agree\<close>

lemma tests_init_eq:
  "tests_init file = do { cc \<leftarrow> client_from_file file; sc \<leftarrow> server_from_file file; Some (cc, sc) }"
  by (auto simp: tests_init_def client_from_file_def server_from_file_def dims_def Let_def split: Option.bind_splits)

lemma run_audit_eq: "run_audit original stored =
    do { cc \<leftarrow> client_from_file original; sc \<leftarrow> server_from_file stored; tests_audit cc sc }"
  by (simp add: run_audit_def tests_audit_def)

lemma audit_test_eq:
  "do { (client, server) \<leftarrow> tests_init file; b \<leftarrow> tests_audit client server; assert b } =
     Option.bind (run_audit file file) assert"
  by (auto simp: tests_init_eq run_audit_eq split: Option.bind_splits)

section \<open>The tests pass\<close>

lemma alphabet_accepted: "run_audit alphabet alphabet = Some True"
proof -
  let ?u = "map word_of_int (take 1 samples_2020) :: u64 list" and ?c = "map word_of_int (take 56 samples_20) :: u64 list"
  have ch: "chunk alphabet 0 = 29104508263162465" "chunk alphabet (Suc 0) = 31082559864203624"
    "chunk alphabet 2 = 33060611465244783" "chunk alphabet 3 = 526023948150"
    using alphabet_chunks(1) by (simp_all add: upt_rec numeral_2_eq_2 numeral_3_eq_3)
  have "bilinear alphabet 56 ?u ?c = (\<Sum>j<56. chunk alphabet j * unat (?c ! j) * unat (?u ! 0))"
    by (simp add: bilinear_def samples_2020_def)
  also have "\<dots> = (\<Sum>j<4. chunk alphabet j * unat (?c ! j) * unat (?u ! 0))"
    by (intro sum.mono_neutral_right) (auto simp: alphabet_chunks not_less)
  also have "\<dots> mod p57 \<noteq> 0"
    by (simp add: ch samples_2020_def samples_20_def lessThan_nat_numeral lessThan_Suc)
  finally show ?thesis
    using honest_run_audit [OF _ _ alphabet_dims vectors_1] by (auto simp: alphabet_length)
qed

text \<open>
  The tests on small files pass: the configuration of the alphabet has exactly the expected rows, columns
  and secret vectors, and the audits of an honest keeper accept it, with the configurations of the tests and with those of the code in use.
\<close>

lemma por_tests_pass:
  "test_init = Some () \<and> test_audit = Some () \<and> test_audit_separate = Some () \<and>
   test_audit_abc_for_debugging = Some ()"
proof (intro conjI)
  obtain cc where cc: "client_from_file alphabet = Some cc" "cc_rows cc = 56" "cc_cols cc = 1"
    "secret_m_vector cc = map word_of_int (take 1 samples_2020)"
    "map unat (secret_n_vector cc) = [120891374367124132, 131035456404565768, 141179538442007404, 22254200296736808] @ replicate 52 0"
    using client_from_file_ok [OF _ _ alphabet_dims vectors_1(1)] unfolding alphabet_secret alphabet_length
    by (simp only: zero_less_numeral) auto
  have "map unat (secret_n_vector cc) = map unat
      ([120891374367124132, 131035456404565768, 141179538442007404, 22254200296736808] @ replicate 52 0 :: u64 list)"
    unfolding cc(5) by (simp add: map_replicate)
  then have n: "secret_n_vector cc = [120891374367124132, 131035456404565768, 141179538442007404, 22254200296736808] @ replicate 52 0"
    by (simp only: inj_map_eq_map [OF inj_unsigned])
  have "server_from_file alphabet = Some \<lparr>sc_rows = 56, sc_cols = 1, sc_file = alphabet\<rparr>"
    by (simp add: server_from_file_def alphabet_dims)
  then show "test_init = Some ()"
    using cc n by (simp add: test_init_def tests_init_eq assert_def samples_2020_def)
  show "test_audit = Some ()"
    unfolding test_audit_def audit_test_eq by (simp add: alphabet_accepted assert_def)
  show "test_audit_separate = Some ()"
    using alphabet_accepted unfolding test_audit_separate_def run_audit_eq
    by (auto simp: assert_def split: Option.bind_splits)
  have d: "dims (length ([97, 98, 99] :: bytes)) = Some (56, 1)"
    using dims_small(1) [of "length ([97, 98, 99] :: bytes)"] by simp
  then have "run_audit [97, 98, 99] [97, 98, 99] \<noteq> None" using honest_run_audit [OF _ _ d vectors_1] by auto
  then show "test_audit_abc_for_debugging = Some ()"
    by (auto simp: test_audit_abc_for_debugging_def run_audit_def split: Option.bind_splits)
qed

text \<open>The tests on large files end with a verdict.\<close>

lemma large_test_runs:
  assumes "0 < k" "26 * k \<le> 2 ^ 30"
  shows "\<exists>b. do { (client, server) \<leftarrow> tests_init (concat (replicate k alphabet)); tests_audit client server } = Some b"
proof -
  let ?f = "concat (replicate k alphabet)"
  have l: "length ?f = 26 * k" by (simp add: length_concat alphabet_length sum_list_replicate)
  have "do { (client, server) \<leftarrow> tests_init ?f; tests_audit client server } = run_audit ?f ?f"
    by (auto simp: tests_init_eq run_audit_eq split: Option.bind_splits)
  then show ?thesis using run_audit_returns [of ?f ?f] assms l by simp
qed

end
