(* ===== verification/Por_Benches.thy ===== *)
theory Por_Benches
  imports Por_Tests
begin

text \<open>
  The benches of \<^verbatim>\<open>src/verifier/por.rs\<close>. The bencher runs a closure as often as it needs for its measurement; a bench is \<open>Some ()\<close> when all
  runs end and \<open>None\<close> when one panics. The time a run takes is not modelled.
\<close>

primrec bench_iter :: "nat \<Rightarrow> 'a option \<Rightarrow> unit option" where
  "bench_iter 0 inner = Some ()"
| "bench_iter (Suc n) inner = do { x \<leftarrow> inner; bench_iter n inner }"

definition alphabet_repeat :: "nat \<Rightarrow> bytes" where
  "alphabet_repeat k = concat (replicate k alphabet)"

section \<open>Building the configurations\<close>

definition bench_init :: "nat \<Rightarrow> nat \<Rightarrow> unit option" where
  "bench_init k n = bench_iter n (tests_init (alphabet_repeat k))"

definition bench_init_1mb :: "nat \<Rightarrow> unit option" where "bench_init_1mb = bench_init (40000 * 1)"
definition bench_init_10mb :: "nat \<Rightarrow> unit option" where "bench_init_10mb = bench_init 400000"
definition bench_init_100mb :: "nat \<Rightarrow> unit option" where "bench_init_100mb = bench_init 4000000"

primrec random_bytes :: "('w \<Rightarrow> u8 \<times> 'w) \<Rightarrow> nat \<Rightarrow> 'w \<Rightarrow> bytes" where
  "random_bytes gen 0 w = []"
| "random_bytes gen (Suc n) w = (case gen w of (b, w') \<Rightarrow> b # random_bytes gen n w')"

definition bench_100mb_init_random :: "('w \<Rightarrow> u8 \<times> 'w) \<Rightarrow> 'w \<Rightarrow> nat \<Rightarrow> unit option" where
  "bench_100mb_init_random gen w n =
     (let size_in_bytes = 1024 * 1024 * 100; random_bytes = random_bytes gen size_in_bytes w
      in bench_iter n (tests_init random_bytes))"

section \<open>The whole audit and its parts\<close>

definition bench_audit :: "nat \<Rightarrow> nat \<Rightarrow> unit option" where
  "bench_audit k n = do {
     (client, server) \<leftarrow> tests_init (alphabet_repeat k);
     bench_iter n (tests_audit client server) }"

definition bench_audit_1mb :: "nat \<Rightarrow> unit option" where "bench_audit_1mb = bench_audit 40000"
definition bench_audit_10mb :: "nat \<Rightarrow> unit option" where "bench_audit_10mb = bench_audit 400000"
definition bench_audit_100mb :: "nat \<Rightarrow> unit option" where "bench_audit_100mb = bench_audit 4000000"

definition bench_client_make_challenge :: "nat \<Rightarrow> nat \<Rightarrow> unit option" where
  "bench_client_make_challenge k n = do {
     (client, _) \<leftarrow> tests_init (alphabet_repeat k);
     bench_iter n (make_challenge_vector client) }"

definition bench_client_make_challenge_1mb :: "nat \<Rightarrow> unit option" where
  "bench_client_make_challenge_1mb = bench_client_make_challenge (40000 * 1)"
definition bench_client_make_challenge_10mb :: "nat \<Rightarrow> unit option" where
  "bench_client_make_challenge_10mb = bench_client_make_challenge 400000"
definition bench_client_make_challenge_100mb :: "nat \<Rightarrow> unit option" where
  "bench_client_make_challenge_100mb = bench_client_make_challenge 4000000"

definition bench_audit_client :: "nat \<Rightarrow> nat \<Rightarrow> unit option" where
  "bench_audit_client k n = do {
     (client, server) \<leftarrow> tests_init (alphabet_repeat k);
     challenge \<leftarrow> make_challenge_vector client;
     response \<leftarrow> fulfill_challenge server challenge;
     bench_iter n (audit client challenge response) }"

definition bench_audit_client_1mb :: "nat \<Rightarrow> unit option" where "bench_audit_client_1mb = bench_audit_client (40000 * 1)"
definition bench_audit_client_10mb :: "nat \<Rightarrow> unit option" where "bench_audit_client_10mb = bench_audit_client 400000"
definition bench_audit_client_100mb :: "nat \<Rightarrow> unit option" where "bench_audit_client_100mb = bench_audit_client 4000000"

definition bench_server_response :: "nat \<Rightarrow> nat \<Rightarrow> unit option" where
  "bench_server_response k n = do {
     (client, server) \<leftarrow> tests_init (alphabet_repeat k);
     challenge \<leftarrow> make_challenge_vector client;
     bench_iter n (fulfill_challenge server challenge) }"

text \<open>The sizes are those of the code: the first of these runs on 104 megabytes and the last on 1040.\<close>

definition bench_server_response_1mb :: "nat \<Rightarrow> unit option" where "bench_server_response_1mb = bench_server_response (40000 * 100)"
definition bench_server_response_10mb :: "nat \<Rightarrow> unit option" where "bench_server_response_10mb = bench_server_response 400000"
definition bench_server_response_100mb :: "nat \<Rightarrow> unit option" where "bench_server_response_100mb = bench_server_response 40000000"

section \<open>No bench panics\<close>

lemma bench_iter_Some: "bench_iter n (Some x) = Some ()"
  by (induction n) simp_all

lemma alphabet_repeat_length [simp]: "length (alphabet_repeat k) = 26 * k"
  by (simp add: alphabet_repeat_def length_concat alphabet_length sum_list_replicate)

text \<open>
  On every file up to one gigabyte, and the file of the largest bench has 26 times 40000000 bytes, each
  of the measured functions returns as often as the bencher calls it.
\<close>

lemma benches_end:
  assumes "0 < k" "26 * k \<le> 2 ^ 30"
  shows "bench_init k n = Some ()" "bench_audit k n = Some ()" "bench_client_make_challenge k n = Some ()"
    "bench_audit_client k n = Some ()" "bench_server_response k n = Some ()"
proof -
  obtain b where "run_audit (alphabet_repeat k) (alphabet_repeat k) = Some b"
    using run_audit_returns [of "alphabet_repeat k" "alphabet_repeat k"] assms by auto
  then obtain cc sc ch resp where x: "client_from_file (alphabet_repeat k) = Some cc" "server_from_file (alphabet_repeat k) = Some sc"
    "make_challenge_vector cc = Some ch" "fulfill_challenge sc ch = Some resp" "audit cc ch resp = Some b"
    by (auto simp: run_audit_def split: Option.bind_splits)
  then have i: "tests_init (alphabet_repeat k) = Some (cc, sc)" "tests_audit cc sc = Some b"
    by (simp_all add: tests_init_eq tests_audit_def)
  show "bench_init k n = Some ()" "bench_audit k n = Some ()" "bench_client_make_challenge k n = Some ()"
    "bench_audit_client k n = Some ()" "bench_server_response k n = Some ()"
    by (simp_all add: bench_init_def bench_audit_def bench_client_make_challenge_def bench_audit_client_def
        bench_server_response_def i x bench_iter_Some)
qed

text \<open>So none of the benches panics, however often the bencher runs it.\<close>

lemma benches_run:
  "bench_init_1mb n = Some ()" "bench_init_10mb n = Some ()" "bench_init_100mb n = Some ()"
  "bench_audit_1mb n = Some ()" "bench_audit_10mb n = Some ()" "bench_audit_100mb n = Some ()"
  "bench_client_make_challenge_1mb n = Some ()" "bench_client_make_challenge_10mb n = Some ()"
  "bench_client_make_challenge_100mb n = Some ()"
  "bench_audit_client_1mb n = Some ()" "bench_audit_client_10mb n = Some ()" "bench_audit_client_100mb n = Some ()"
  "bench_server_response_1mb n = Some ()" "bench_server_response_10mb n = Some ()" "bench_server_response_100mb n = Some ()"
  by (simp_all add: bench_init_1mb_def bench_init_10mb_def bench_init_100mb_def bench_audit_1mb_def bench_audit_10mb_def
      bench_audit_100mb_def bench_client_make_challenge_1mb_def bench_client_make_challenge_10mb_def
      bench_client_make_challenge_100mb_def bench_audit_client_1mb_def bench_audit_client_10mb_def
      bench_audit_client_100mb_def bench_server_response_1mb_def bench_server_response_10mb_def
      bench_server_response_100mb_def benches_end)

lemma random_bytes_length [simp]: "length (random_bytes gen n w) = n"
  by (induction n arbitrary: w) (simp_all split: prod.split)

lemma random_bench_runs: "bench_100mb_init_random gen w n = Some ()"
proof -
  let ?f = "random_bytes gen (1024 * 1024 * 100) w"
  have "length ?f = 1024 * 1024 * 100" by (rule random_bytes_length)
  then obtain b where "run_audit ?f ?f = Some b" using run_audit_returns [of ?f ?f] by auto
  then have "tests_init ?f \<noteq> None" by (auto simp: run_audit_def tests_init_eq split: Option.bind_splits)
  then show ?thesis by (auto simp: bench_100mb_init_random_def Let_def bench_iter_Some)
qed

end
