(* ===== verification/Key_Tests.thy ===== *)
theory Key_Tests
  imports Settings Por_Benches
begin

text \<open>
  The tests and benches of \<^verbatim>\<open>src/p2p/peer_id.rs\<close>. They take the view of a key pair as an Ed25519 pair, the parameter \<open>ed25519\<close>. A test that
  searches for a key pair may not end, so \<open>None\<close> is here a panic or a search that does not end; the theorems show that it is neither.
\<close>

record ('k, 'e) ed25519 =
  try_into_ed25519 :: "'k \<Rightarrow> 'e option"
  ed_public :: "'e \<Rightarrow> bytes"
  ed_secret :: "'e \<Rightarrow> bytes"

definition generate_keypair :: "('w, 'k) keys \<Rightarrow> 'w \<Rightarrow> 'k \<times> 'w" where
  "generate_keypair g w = generate g w"

definition test_encode_decode :: "('w, 'k) keys \<Rightarrow> ('k, 'e) ed25519 \<Rightarrow> 'w \<Rightarrow> unit option" where
  "test_encode_decode g ed w =
     (let keypair = fst (generate_keypair g w);
          encoded = keypair_to_base64_proto g keypair;
          decoded = keypair_from_base64_proto g encoded in
      do { original \<leftarrow> try_into_ed25519 ed keypair;
           decoded \<leftarrow> (case decoded of Inr k \<Rightarrow> Some k | Inl _ \<Rightarrow> None);
           decoded \<leftarrow> try_into_ed25519 ed decoded;
           assert (ed_public ed original = ed_public ed decoded);
           assert (ed_secret ed original = ed_secret ed decoded) })"

definition test_with_leading_zeros :: "('w, 'k) keys \<Rightarrow> ('k, 'e) ed25519 \<Rightarrow> 'w \<Rightarrow> unit option" where
  "test_with_leading_zeros g ed w = do {
     (keypair, w') \<leftarrow> keypair_with_leading_zeros g 2 w;
     public \<leftarrow> try_into_ed25519 ed keypair;
     let hashed = hash g (ed_public ed public);
     assert (list_all (\<lambda>c. c = CHR ''0'') (take 2 hashed)) }"

text \<open>A bench runs the search again and again, each run from where the generator was left.\<close>

primrec bench_peer_id :: "nat \<Rightarrow> nat \<Rightarrow> ('w, 'k) keys \<Rightarrow> 'w \<Rightarrow> unit option" where
  "bench_peer_id z 0 g w = Some ()"
| "bench_peer_id z (Suc n) g w = do { (keypair, w') \<leftarrow> keypair_with_leading_zeros g z w; bench_peer_id z n g w' }"

definition bench_peer_id_1_leading_zero :: "nat \<Rightarrow> ('w, 'k) keys \<Rightarrow> 'w \<Rightarrow> unit option" where
  "bench_peer_id_1_leading_zero = bench_peer_id 1"
definition bench_peer_id_2_leading_zero :: "nat \<Rightarrow> ('w, 'k) keys \<Rightarrow> 'w \<Rightarrow> unit option" where
  "bench_peer_id_2_leading_zero = bench_peer_id 2"
definition bench_peer_id_3_leading_zero :: "nat \<Rightarrow> ('w, 'k) keys \<Rightarrow> 'w \<Rightarrow> unit option" where
  "bench_peer_id_3_leading_zero = bench_peer_id 3"

section \<open>The tests pass\<close>

text \<open>Every key pair is an Ed25519 pair with the same public key.\<close>

definition ed25519_ok :: "('w, 'k) keys \<Rightarrow> ('k, 'e) ed25519 \<Rightarrow> bool" where
  "ed25519_ok g ed \<longleftrightarrow> (\<forall>k. \<exists>e. try_into_ed25519 ed k = Some e \<and> ed_public ed e = public_bytes g k)"

lemma keypair_text_roundtrip: "keys_ok g \<Longrightarrow> keypair_from_base64_proto g (keypair_to_base64_proto g k) = Inr k"
  unfolding keys_ok_def keypair_from_base64_proto_def keypair_to_base64_proto_def Let_def
  by (metis (no_types, lifting) sum.case(2))

text \<open>Ending of the search rests on a generator that gives a fitting key pair after finitely many tries, from every state.\<close>

lemma key_tests_pass:
  assumes "keys_ok g" "ed25519_ok g ed" "\<And>w. \<exists>n. leading_zeros_ok g 2 (fst (generate g (after g n w)))"
  shows "test_encode_decode g ed w = Some ()" "test_with_leading_zeros g ed w = Some ()" "bench_peer_id_2_leading_zero n g w = Some ()"
proof -
  have ends: "\<exists>k v. keypair_with_leading_zeros g 2 w = Some (k, v)" for w
    using assms(3) [of w] keypair_search_first [of g 2] by (metis surj_pair)
  obtain e where "try_into_ed25519 ed (fst (generate g w)) = Some e" using assms(2) unfolding ed25519_ok_def by blast
  then show "test_encode_decode g ed w = Some ()"
    by (simp add: test_encode_decode_def generate_keypair_def keypair_text_roundtrip [OF assms(1)] assert_def)
  obtain k v where k: "keypair_with_leading_zeros g 2 w = Some (k, v)" using ends by blast
  obtain e where "try_into_ed25519 ed k = Some e" "ed_public ed e = public_bytes g k" using assms(2) unfolding ed25519_ok_def by blast
  then show "test_with_leading_zeros g ed w = Some ()"
    using k keypair_found [OF k] by (simp add: test_with_leading_zeros_def leading_zeros_ok_def assert_def)
  show "bench_peer_id_2_leading_zero n g w = Some ()"
    unfolding bench_peer_id_2_leading_zero_def
  proof (induction n arbitrary: w)
    case (Suc n)
    from ends [of w] Suc show ?case by auto
  qed simp
qed

end
