(* ===== verification/Controller.thy ===== *)
theory Controller
  imports Swarm
begin

text \<open>
  The controller of \<^verbatim>\<open>src/p2p/controller.rs\<close>: every operation sends a command with the sender of a oneshot
  channel to the swarm, waits for the receiver that the swarm hands out on it, and then for the result.

  \<open>'w link\<close> is the part of tokio it uses: making a oneshot channel, sending on the bounded channel of commands,
  and waiting on the two receivers. Waiting fails when the sender was dropped. \<open>system_link\<close> is this link
  to the swarm of \<open>Swarm\<close>: the caller waits while the loop goes through a script, an arbitrary interleaving of
  commands, events and dropped receivers.
\<close>

section \<open>Operations\<close>

record 'w link =
  link_oneshot :: "'w \<Rightarrow> chan \<times> 'w"
  link_send :: "command_to_swarm \<Rightarrow> 'w \<Rightarrow> bool \<times> 'w"
  link_receiver :: "chan \<Rightarrow> 'w \<Rightarrow> chan option \<times> 'w"
  link_result :: "chan \<Rightarrow> 'w \<Rightarrow> reply option \<times> 'w"

definition link_call :: "('w \<Rightarrow> 'a \<times> 'w) \<Rightarrow> ('w, 'a) action" where
  "link_call f w = (case f w of (x, w') \<Rightarrow> (Ok x, w'))"

text \<open>Send the command, wait for the receiver, wait for the result.\<close>

definition send_and_wait :: "'w link \<Rightarrow> (chan \<Rightarrow> command_to_swarm) \<Rightarrow> ('w, reply) action" where
  "send_and_wait link command =
     act_bind (link_call (link_oneshot link)) (\<lambda>sender.
     act_bind (link_call (link_send link (command sender))) (\<lambda>sent.
     if \<not> sent then act_fail (from_send_error (command sender)) else
     act_bind (link_call (link_receiver link sender)) (\<lambda>receiving_channel.
     case receiving_channel of
       None \<Rightarrow> act_fail from_recv_error
     | Some c \<Rightarrow>
         act_bind (link_call (link_result link c)) (\<lambda>result.
         case result of None \<Rightarrow> act_fail from_recv_error | Some r \<Rightarrow> act_return r))))"

text \<open>
  The channels of the source are typed by their result; a result of another type, which they cannot carry,
  is a panic here.
\<close>

definition unit_result :: "reply \<Rightarrow> ('w, unit) action" where
  "unit_result r = (case r of ReplyUnit x \<Rightarrow> act_result (\<lambda>e. e) x | _ \<Rightarrow> act_panic)"

definition controller_put :: "'w link \<Rightarrow> string \<Rightarrow> bytes \<Rightarrow> ('w, unit) action" where
  "controller_put link key value = act_bind (send_and_wait link (CmdPutLocal key value)) unit_result"

definition controller_put_to :: "'w link \<Rightarrow> string \<Rightarrow> bytes \<Rightarrow> peer_id list \<Rightarrow> ('w, unit) action" where
  "controller_put_to link key value peer_ids =
     act_bind (send_and_wait link (CmdPutRemote key value peer_ids)) unit_result"

definition controller_start_providing :: "'w link \<Rightarrow> string \<Rightarrow> ('w, unit) action" where
  "controller_start_providing link key = act_bind (send_and_wait link (CmdStartProviding key)) unit_result"

definition controller_get :: "'w link \<Rightarrow> string \<Rightarrow> ('w, query_get_response) action" where
  "controller_get link key = act_bind (send_and_wait link (CmdGet key))
     (\<lambda>r. case r of ReplyGet x \<Rightarrow> act_result (\<lambda>e. e) x | _ \<Rightarrow> act_panic)"

definition controller_get_providers :: "'w link \<Rightarrow> string \<Rightarrow> ('w, peer_id set) action" where
  "controller_get_providers link key = act_bind (send_and_wait link (CmdGetProviders key))
     (\<lambda>r. case r of ReplyProviders x \<Rightarrow> act_result (\<lambda>e. e) x | _ \<Rightarrow> act_panic)"

definition controller_get_closest_peers :: "'w link \<Rightarrow> uuid \<Rightarrow> ('w, peer_id list) action" where
  "controller_get_closest_peers link key = act_bind (send_and_wait link (CmdGetClosestPeers key))
     (\<lambda>r. case r of ReplyPeers x \<Rightarrow> act_result (\<lambda>e. e) x | _ \<Rightarrow> act_panic)"

definition controller_request_verification :: "'w link \<Rightarrow> peer_id \<Rightarrow> string \<Rightarrow> u64 list \<Rightarrow> ('w, u64 list) action" where
  "controller_request_verification link peer file_uuid challenge_vector =
     act_bind (send_and_wait link (CmdRequestVerification peer file_uuid challenge_vector))
     (\<lambda>r. case r of
        ReplyVerification x \<Rightarrow> act_bind (act_result (\<lambda>e. e) x) (\<lambda>resp. act_return (vr_response_vector resp))
      | _ \<Rightarrow> act_panic)"

section \<open>The link to the swarm\<close>

text \<open>
  \<open>script\<close> is the rest of the node's life: \<open>NextCommand\<close> takes the next command out of the mailbox, \<open>Other\<close> is an
  input from elsewhere. When it is over, or a handler failed, the swarm is gone and its senders are dropped.
\<close>

datatype script_item = NextCommand | Other input

record 'w system =
  sys_node :: "'w node"
  mailbox :: "command_to_swarm list"
  script :: "script_item list"
  running :: bool
  next_resp :: chan

definition sys_input :: "'w system \<Rightarrow> script_item \<Rightarrow> input option" where
  "sys_input s i = (case i of
     NextCommand \<Rightarrow> (case mailbox s of [] \<Rightarrow> None | c # _ \<Rightarrow> Some (Instruction (Some c)))
   | Other inp \<Rightarrow> Some inp)"

definition sys_advance :: "'w behaviour \<Rightarrow> 'w storage_env \<Rightarrow> peer_id \<Rightarrow> script_item \<Rightarrow> 'w system \<Rightarrow> 'w system" where
  "sys_advance beh env lp i s =
     (case sys_input s i of
        None \<Rightarrow> s
      | Some inp \<Rightarrow>
          (case swarm_step beh env lp inp (sys_node s) of (r, n') \<Rightarrow>
             s\<lparr>sys_node := n', mailbox := (if i = NextCommand then tl (mailbox s) else mailbox s), running := is_ok r\<rparr>))"

text \<open>The loop goes on until \<open>ready\<close> gives a value.\<close>

fun sys_await :: "'w behaviour \<Rightarrow> 'w storage_env \<Rightarrow> peer_id \<Rightarrow> ('w node \<Rightarrow> 'a option) \<Rightarrow> script_item list \<Rightarrow>
    'w system \<Rightarrow> 'a option \<times> 'w system" where
  "sys_await beh env lp ready rest s =
     (case ready (sys_node s) of
        Some x \<Rightarrow> (Some x, s\<lparr>script := rest\<rparr>)
      | None \<Rightarrow>
          if \<not> running s then (None, s\<lparr>script := rest\<rparr>)
          else (case rest of
                  [] \<Rightarrow> (None, s\<lparr>script := [], running := False\<rparr>)
                | i # rest' \<Rightarrow> sys_await beh env lp ready rest' (sys_advance beh env lp i s)))"

declare sys_await.simps [simp del]

definition system_link :: "'w behaviour \<Rightarrow> 'w storage_env \<Rightarrow> peer_id \<Rightarrow> 'w system link" where
  "system_link beh env lp =
     \<lparr>link_oneshot = \<lambda>s. (next_resp s, s\<lparr>next_resp := next_resp s + 1\<rparr>),
      link_send = \<lambda>c s. (running s, if running s then s\<lparr>mailbox := mailbox s @ [c]\<rparr> else s),
      link_receiver = \<lambda>resp s. sys_await beh env lp (\<lambda>n. handed n resp) (script s) s,
      link_result = \<lambda>c s. sys_await beh env lp (\<lambda>n. replies n c) (script s) s\<rparr>"

end
