(* ===== verification/Grpc.thy ===== *)
theory Grpc
  imports Ledger_Spec Por Controller Hasher
begin

text \<open>
  The service of \<^verbatim>\<open>src/grpc/mod.rs\<close>: every method of \<^verbatim>\<open>KissService\<close>. A method
  returns \<open>Inl\<close> a status or \<open>Inr\<close> a response, or panics; the errors of the ledger and of the controller are turned into
  a status where they occur, so no method returns \<open>Err\<close>.

  \<open>'w controller\<close> are the operations of the controller the methods call; \<open>link_controller\<close> is the one of
  \<open>Controller\<close>. \<open>'w host\<close> extends the hasher with the UUID generator and parser, the clock, the
  iteration order of a hash set and the text of an error.
\<close>

section \<open>Requests, responses and status\<close>

datatype status_code = Unknown | Internal | NotFound | DataLoss | InvalidArgument

datatype status = Status status_code string

type_synonym ('w, 'a) grpc_method = "('w, status + 'a) action"

record store_request =
  st_name :: string
  st_content :: bytes
  st_ttl :: int

record retrieve_response =
  rr_name :: string
  rr_content :: bytes

record put_to_request =
  pt_content :: bytes
  pt_ttl :: int
  pt_peer_uuids :: "string list"

record verification_for_peer =
  vp_peer_id :: string
  vp_verified :: bool

record 'w controller =
  ctl_put_to :: "string \<Rightarrow> bytes \<Rightarrow> peer_id list \<Rightarrow> ('w, unit) action"
  ctl_get :: "string \<Rightarrow> ('w, query_get_response) action"
  ctl_get_providers :: "string \<Rightarrow> ('w, peer_id set) action"
  ctl_get_closest_peers :: "uuid \<Rightarrow> ('w, peer_id list) action"
  ctl_start_providing :: "string \<Rightarrow> ('w, unit) action"
  ctl_request_verification :: "peer_id \<Rightarrow> string \<Rightarrow> u64 list \<Rightarrow> ('w, u64 list) action"

definition link_controller :: "'w link \<Rightarrow> 'w controller" where
  "link_controller link =
     \<lparr>ctl_put_to = controller_put_to link, ctl_get = controller_get link,
      ctl_get_providers = controller_get_providers link, ctl_get_closest_peers = controller_get_closest_peers link,
      ctl_start_providing = controller_start_providing link,
      ctl_request_verification = controller_request_verification link\<rparr>"

record 'w host = hasher_env +
  new_uuid :: "'w \<Rightarrow> uuid \<times> 'w"
  uuid_from_str :: "string \<Rightarrow> ext_error + uuid"
  system_now :: "'w \<Rightarrow> int \<times> 'w"
  set_iter :: "peer_id set \<Rightarrow> peer_id list"
  error_text :: "error_kind \<Rightarrow> string"

record 'w inner =
  swarm_controller :: "'w controller"
  database :: "'w immudb"
  ledger :: immu_ledger
  por_enabled :: bool
  host_of :: "'w host"

definition reply_status :: "status_code \<Rightarrow> string \<Rightarrow> ('w, 'a) grpc_method" where
  "reply_status code msg = act_return (Inl (Status code msg))"

definition respond :: "'a \<Rightarrow> ('w, 'a) grpc_method" where
  "respond x = act_return (Inr x)"

text \<open>\<^verbatim>\<open>m.map_err(|e| status)?\<close> followed by the rest of the method.\<close>

definition or_status :: "('w, 'a) action \<Rightarrow> (error_kind \<Rightarrow> status) \<Rightarrow> ('a \<Rightarrow> ('w, 'b) grpc_method) \<Rightarrow> ('w, 'b) grpc_method" where
  "or_status m st k = act_try m (\<lambda>r. case r of Inl e \<Rightarrow> act_return (Inl (st e)) | Inr x \<Rightarrow> k x)"

definition status_of :: "'w inner \<Rightarrow> status_code \<Rightarrow> string \<Rightarrow> error_kind \<Rightarrow> status" where
  "status_of inn code prefix e = Status code (prefix @ error_text (host_of inn) e)"

definition read_host :: "('w \<Rightarrow> 'a \<times> 'w) \<Rightarrow> ('w, 'a) action" where
  "read_host f w = (case f w of (x, w') \<Rightarrow> (Ok x, w'))"

section \<open>Methods\<close>

definition verify_contract_for :: "'w inner \<Rightarrow> string \<Rightarrow> contract \<Rightarrow> verification_for_peer list \<Rightarrow>
    ('w, verification_for_peer list) action" where
  "verify_contract_for inn file_uuid contract result =
     (let client = from_contract contract;
          verdict = (\<lambda>v. act_return (result @ [\<lparr>vp_peer_id = to_base58 (database inn) (c_peer_id contract), vp_verified = v\<rparr>])) in
      act_bind (act_option (make_challenge_vector client)) (\<lambda>challenge.
      act_try (ctl_request_verification (swarm_controller inn) (c_peer_id contract) file_uuid challenge) (\<lambda>response.
      case response of
        Inr response \<Rightarrow> act_bind (act_option (audit client challenge response)) verdict
      | Inl _ \<Rightarrow> verdict False)))"

definition verify_file :: "'w inner \<Rightarrow> string \<Rightarrow> ('w, verification_for_peer list) grpc_method" where
  "verify_file inn file_uuid =
     or_status (get_contracts (database inn) (ledger inn) file_uuid) (status_of inn Unknown '''') (\<lambda>contracts.
     act_bind (act_fold (verify_contract_for inn file_uuid) contracts []) respond)"

text \<open>The loop that writes a contract, at most \<open>n\<close> times; \<open>Inl\<close> is the text of the last error.\<close>

primrec write_contract :: "nat \<Rightarrow> 'w host \<Rightarrow> ('w, unit) action \<Rightarrow> string \<Rightarrow> ('w, string + unit) action" where
  "write_contract 0 h m last_error = act_return (Inl last_error)"
| "write_contract (Suc n) h m last_error = act_try m (\<lambda>res. case res of
     Inl e \<Rightarrow> write_contract n h m (error_text h e)
   | Inr _ \<Rightarrow> act_return (Inr ()))"

text \<open>The contracts of a file with the peers that keep it; a failed one ends the method.\<close>

fun store_contracts :: "'w inner \<Rightarrow> uuid \<Rightarrow> string \<Rightarrow> store_request \<Rightarrow> peer_id list \<Rightarrow> ('w, unit) grpc_method" where
  "store_contracts inn file_uuid file_hash request [] = respond ()"
| "store_contracts inn file_uuid file_hash request (peer # peers) =
     act_bind (act_option (client_from_file (st_content request))) (\<lambda>client_config.
     case to_contract client_config of (secret_n, secret_m, rows, cols) \<Rightarrow>
     act_bind (write_contract 10 (host_of inn) (create_contract (database inn) (ledger inn) peer file_uuid file_hash
         (st_ttl request) secret_n secret_m rows cols) []) (\<lambda>res.
     case res of
       Inl last_error \<Rightarrow> reply_status Internal (''failed to write contract to immudb: '' @ last_error)
     | Inr _ \<Rightarrow> store_contracts inn file_uuid file_hash request peers))"

definition grpc_store :: "'w inner \<Rightarrow> store_request \<Rightarrow> ('w, string) grpc_method" where
  "grpc_store inn request =
     act_bind (read_host (system_now (host_of inn))) (\<lambda>start_time.
     act_bind (read_host (new_uuid (host_of inn))) (\<lambda>file_uuid.
     or_status (ctl_get_closest_peers (swarm_controller inn) file_uuid) (status_of inn Internal ''no closest peers '')
       (\<lambda>closest_peers.
     or_status (ctl_put_to (swarm_controller inn) (uuid_to_string (database inn) file_uuid) (st_content request)
         (take REPLICATION_FACTOR closest_peers)) (status_of inn Internal '''') (\<lambda>_.
     act_bind (if por_enabled inn
         then store_contracts inn file_uuid (hash (host_of inn) (st_content request)) request
                (take REPLICATION_FACTOR closest_peers)
         else respond ()) (\<lambda>res.
     case res of
       Inl st \<Rightarrow> act_return (Inl st)
     | Inr _ \<Rightarrow>
         act_bind (read_host (system_now (host_of inn))) (\<lambda>now.
         if now < start_time then act_panic else respond (uuid_to_string (database inn) file_uuid)))))))"

definition grpc_retrieve :: "'w inner \<Rightarrow> string \<Rightarrow> ('w, retrieve_response) grpc_method" where
  "grpc_retrieve inn name =
     or_status (get_contract (database inn) (ledger inn) name) (status_of inn Unknown '''') (\<lambda>contract.
     or_status (ctl_get (swarm_controller inn) name) (status_of inn NotFound ''failed getting from swarm: '') (\<lambda>res.
     if hash (host_of inn) (qg_file res) \<noteq> c_file_hash contract then reply_status DataLoss ''file has been modified''
     else respond \<lparr>rr_name = name, rr_content = qg_file res\<rparr>))"

definition grpc_get_providers :: "'w inner \<Rightarrow> string \<Rightarrow> ('w, string \<times> string list) grpc_method" where
  "grpc_get_providers inn name =
     or_status (ctl_get_providers (swarm_controller inn) name) (status_of inn Internal '''') (\<lambda>providers.
     respond (name, map (to_base58 (database inn)) (set_iter (host_of inn) providers)))"

definition grpc_get_closest_peers :: "'w inner \<Rightarrow> string \<Rightarrow> ('w, string \<times> string list) grpc_method" where
  "grpc_get_closest_peers inn uuid =
     (case uuid_from_str (host_of inn) uuid of
        Inl e \<Rightarrow> reply_status InvalidArgument e
      | Inr file_uuid \<Rightarrow>
          or_status (ctl_get_closest_peers (swarm_controller inn) file_uuid) (status_of inn Internal '''') (\<lambda>peers.
          respond (uuid, map (to_base58 (database inn)) peers)))"

definition grpc_verify :: "'w inner \<Rightarrow> string \<Rightarrow> ('w, string) grpc_method" where
  "grpc_verify inn path =
     or_status (ctl_get (swarm_controller inn) path) (status_of inn NotFound ''failed to get file from swarm: '') (\<lambda>res.
     respond (hash (host_of inn) (qg_file res)))"

definition grpc_start_providing :: "'w inner \<Rightarrow> string \<Rightarrow> ('w, string) grpc_method" where
  "grpc_start_providing inn uuid =
     or_status (ctl_start_providing (swarm_controller inn) uuid) (status_of inn Internal '''') (\<lambda>_. respond uuid)"

text \<open>\<^verbatim>\<open>PeerId::from_str\<close> on every element: the first error wins.\<close>

primrec parse_peers :: "'w immudb \<Rightarrow> string list \<Rightarrow> status + peer_id list" where
  "parse_peers db [] = Inr []"
| "parse_peers db (x # xs) = (case peer_id_from_str db x of
     Inl e \<Rightarrow> Inl (Status InvalidArgument e)
   | Inr p \<Rightarrow> (case parse_peers db xs of Inl st \<Rightarrow> Inl st | Inr ps \<Rightarrow> Inr (p # ps)))"

fun put_to_contracts :: "'w inner \<Rightarrow> (peer_id \<Rightarrow> ('w, unit) action) \<Rightarrow> peer_id list \<Rightarrow> ('w, unit) grpc_method" where
  "put_to_contracts inn create [] = respond ()"
| "put_to_contracts inn create (peer # peers) =
     or_status (create peer) (status_of inn Unknown '''') (\<lambda>_. put_to_contracts inn create peers)"

definition grpc_put_to :: "'w inner \<Rightarrow> put_to_request \<Rightarrow> ('w, string) grpc_method" where
  "grpc_put_to inn request =
     (let file_hash = hash (host_of inn) (pt_content request) in
      case parse_peers (database inn) (pt_peer_uuids request) of
        Inl st \<Rightarrow> act_return (Inl st)
      | Inr peers \<Rightarrow>
          act_bind (read_host (new_uuid (host_of inn))) (\<lambda>file_uuid.
          act_bind (act_option (client_from_file (pt_content request))) (\<lambda>client_config.
          case to_contract client_config of (secret_n, secret_m, rows, cols) \<Rightarrow>
          act_bind (put_to_contracts inn (\<lambda>peer. create_contract (database inn) (ledger inn) peer file_uuid file_hash
              (pt_ttl request) secret_n secret_m rows cols) peers) (\<lambda>res.
          case res of
            Inl st \<Rightarrow> act_return (Inl st)
          | Inr _ \<Rightarrow>
              (case parse_peers (database inn) (pt_peer_uuids request) of
                 Inl st \<Rightarrow> act_return (Inl st)
               | Inr peer_uuids \<Rightarrow>
                   or_status (ctl_put_to (swarm_controller inn) (uuid_to_string (database inn) file_uuid) (pt_content request) peer_uuids)
                     (status_of inn Internal '''') (\<lambda>_. respond (uuid_to_string (database inn) file_uuid)))))))"

end
