(* ===== verification/Grpc_Spec.thy ===== *)
theory Grpc_Spec
  imports Grpc Por_Audit
begin

text \<open>
  What the service guarantees: a stored file was put to its closest peers and has a contract, the content that is retrieved has the hash of the
  content that was stored, a file stored without proofs of retrievability cannot be retrieved, and a failed
  \<^verbatim>\<open>put_to\<close> leaves its contracts behind.
\<close>

section \<open>Contracts\<close>

text \<open>The contract that is on record for a file.\<close>

definition on_record :: "'w immudb \<Rightarrow> tables \<Rightarrow> string \<Rightarrow> contract \<Rightarrow> bool" where
  "on_record db tb fu c \<longleftrightarrow> map_of (contracts_tbl tb) fu = Some (contract_row db c)"

lemma get_contract_spec:
  assumes "autocommit_spec db view" "peer_text db" "get_contract db l fu w = (Ok c, w')" "on_record db (view w) fu c'"
  shows "c = c'"
proof -
  let ?q = "query_execute db l select_contract_sql [param ''file_uuid'' (S fu)]"
  obtain q v where q: "?q w = (q, v)" by (cases "?q w")
  have "q = Ok [contract_row db c'] \<or> (\<exists>e. q = Err e \<and> service_error e)"
    using query_execute_spec [OF assms(1) q] assms(4) by (auto simp: query_ok_def sql_simps on_record_def)
  then show ?thesis
    using q assms(3) map_row_to_contract_row [OF assms(2)] by (auto simp: get_contract_def act_simps)
qed

lemma get_contract_none:
  assumes "autocommit_spec db view" "map_of (contracts_tbl (view w)) fu = None"
  shows "\<exists>e w'. get_contract db l fu w = (Err e, w')"
proof -
  let ?q = "query_execute db l select_contract_sql [param ''file_uuid'' (S fu)]"
  obtain q v where q: "?q w = (q, v)" by (cases "?q w")
  have "q = Ok [] \<or> (\<exists>e. q = Err e \<and> service_error e)"
    using query_execute_spec [OF assms(1) q] assms(2) by (auto simp: query_ok_def sql_simps)
  then show ?thesis using q by (auto simp: get_contract_def act_simps)
qed

lemma write_contract_OkE:
  assumes "write_contract n h m s w = (Ok (Inr ()), w')"
  obtains v where "m v = (Ok (), w')"
  using assms
proof (induction n arbitrary: s w)
  case (Suc n)
  obtain q v where m: "m w = (q, v)" by (cases "m w")
  with Suc show ?case by (cases q) (auto simp: act_simps)
qed (simp add: act_simps)

text \<open>The fields of a contract that depend on the file.\<close>

definition contract_of :: "contract \<Rightarrow> string \<Rightarrow> int \<Rightarrow> client_config \<Rightarrow> bool" where
  "contract_of c fh ttl cc \<longleftrightarrow> c_file_hash c = fh \<and> c_ttl c = ttl \<and> (c_secret_n c, c_secret_m c, c_rows c, c_cols c) = to_contract cc"

lemma create_contract_on_record:
  assumes "autocommit_spec db view" "create_contract db l p u fh ttl n m rows cols w = (Ok (), w')"
    "to_contract cc = (n, m, rows, cols)"
  shows "\<exists>c. on_record db (view w') (uuid_to_string db u) c \<and> c_peer_id c = p \<and> c_file_uuid c = uuid_to_string db u \<and> contract_of c fh ttl cc"
  using create_contract_spec [OF assms(1,2)] assms(3)
  by (intro exI [of _ "created_contract db p u fh ttl n m rows cols w"])
     (simp add: on_record_def contract_of_def update_conv')

lemma store_contracts_on_record:
  assumes "autocommit_spec (database inn) view" "peers \<noteq> []"
    and "store_contracts inn u fh request peers w = (Ok (Inr ()), w')"
  shows "\<exists>c cc. client_from_file (st_content request) = Some cc \<and> contract_of c fh (st_ttl request) cc
    \<and> on_record (database inn) (view w') (uuid_to_string (database inn) u) c \<and> c_peer_id c = last peers
    \<and> c_file_uuid c = uuid_to_string (database inn) u"
  using assms(2,3)
proof (induction peers arbitrary: w)
  case (Cons peer peers)
  from Cons.prems(2) obtain cc where cc: "client_from_file (st_content request) = Some cc"
    by (auto simp: act_option_def act_simps elim!: act_bind_OkE split: option.splits)
  obtain n m rows cols where f: "to_contract cc = (n, m, rows, cols)" by (cases "to_contract cc")
  from Cons.prems(2) cc f obtain v where
    c: "write_contract 10 (host_of inn) (create_contract (database inn) (ledger inn) peer u fh (st_ttl request) n m rows cols) [] w
        = (Ok (Inr ()), v)" and s: "store_contracts inn u fh request peers v = (Ok (Inr ()), w')"
    by (auto simp: act_simps act_option_def reply_status_def elim!: act_bind_OkE split: sum.splits)
  from c obtain v' where "create_contract (database inn) (ledger inn) peer u fh (st_ttl request) n m rows cols v' = (Ok (), v)"
    by (rule write_contract_OkE)
  from create_contract_on_record [OF assms(1) this f] cc Cons.IH [OF _ s] s show ?case
    by (cases "peers = []") (auto simp: respond_def act_simps)
qed simp

lemma or_status_InrE:
  assumes "or_status m st k w = (Ok (Inr y), w')"
  obtains x v where "m w = (Ok x, v)" "k x v = (Ok (Inr y), w')"
  using assms by (auto simp: or_status_def act_try_def act_simps split: prod.splits outcome.splits)

section \<open>Storing and retrieving\<close>

text \<open>The rest of the node's world does not change the tables of the ledger.\<close>

definition tables_apart :: "('w \<Rightarrow> tables) \<Rightarrow> 'w inner \<Rightarrow> bool" where
  "tables_apart view inn \<longleftrightarrow>
     (\<forall>w. view (snd (system_now (host_of inn) w)) = view w \<and> view (snd (new_uuid (host_of inn) w)) = view w) \<and>
     (\<forall>u w. view (snd (ctl_get_closest_peers (swarm_controller inn) u w)) = view w) \<and>
     (\<forall>k v ps w. view (snd (ctl_put_to (swarm_controller inn) k v ps w)) = view w) \<and>
     (\<forall>k w. view (snd (ctl_get (swarm_controller inn) k w)) = view w) \<and>
     (\<forall>p f c w. view (snd (ctl_request_verification (swarm_controller inn) p f c w)) = view w)"

lemma read_host_bind: "act_bind (read_host f) k w = k (fst (f w)) (snd (f w))"
  by (simp add: act_bind_def read_host_def split: prod.split)

lemma grpc_store_steps:
  assumes "grpc_store inn request w = (Ok (Inr name), w1)" "tables_apart view inn"
  obtains u peers y v v' w0 where "ctl_get_closest_peers (swarm_controller inn) u y = (Ok peers, v)"
    "name = uuid_to_string (database inn) u" "view v' = view w"
    "(if por_enabled inn then store_contracts inn u (hash (host_of inn) (st_content request)) request
        (take REPLICATION_FACTOR peers) else respond ()) v' = (Ok (Inr ()), w0)" "view w1 = view w0"
    "(u, y) = new_uuid (host_of inn) (snd (system_now (host_of inn) w))"
    "ctl_put_to (swarm_controller inn) name (st_content request) (take REPLICATION_FACTOR peers) v = (Ok (), v')"
proof -
  define h where "h = host_of inn"
  define ctl where "ctl = swarm_controller inn"
  define t where "t = fst (system_now h w)"
  define u where "u = fst (new_uuid h (snd (system_now h w)))"
  define y where "y = snd (new_uuid h (snd (system_now h w)))"
  define key where "key = uuid_to_string (database inn) u"
  define wr where "wr peers = (if por_enabled inn then store_contracts inn u (hash h (st_content request)) request
        (take REPLICATION_FACTOR peers) else respond ())" for peers
  define finish where "finish = (\<lambda>res :: status + unit. case res of Inl st \<Rightarrow> act_return (Inl st)
     | Inr _ \<Rightarrow> act_bind (read_host (system_now h)) (\<lambda>now. if now < t then act_panic else respond key))"
  have "or_status (ctl_get_closest_peers ctl u) (status_of inn Internal ''no closest peers '') (\<lambda>peers.
     or_status (ctl_put_to ctl key (st_content request) (take REPLICATION_FACTOR peers)) (status_of inn Internal [])
       (\<lambda>_. act_bind (wr peers) finish)) y = (Ok (Inr name), w1)"
    using assms(1) by (simp only: grpc_store_def read_host_bind h_def [symmetric] ctl_def [symmetric] t_def [symmetric]
        u_def [symmetric] y_def [symmetric] key_def [symmetric] wr_def [symmetric] finish_def [symmetric])
  then obtain peers v where c: "ctl_get_closest_peers ctl u y = (Ok peers, v)" and "or_status (ctl_put_to ctl key (st_content request)
      (take REPLICATION_FACTOR peers)) (status_of inn Internal []) (\<lambda>_. act_bind (wr peers) finish) v = (Ok (Inr name), w1)"
    by (rule or_status_InrE)
  then obtain z v' where p: "ctl_put_to ctl key (st_content request) (take REPLICATION_FACTOR peers) v = (Ok z, v')"
    and "act_bind (wr peers) finish v' = (Ok (Inr name), w1)" by (elim or_status_InrE)
  then obtain res w0 where w0: "wr peers v' = (Ok res, w0)" "finish res w0 = (Ok (Inr name), w1)"
    by (elim act_bind_OkE)
  have n: "res = Inr ()" "name = key" "w1 = snd (system_now h w0)"
    using w0(2) by (auto simp: finish_def read_host_bind act_simps respond_def split: sum.splits if_splits)
  have vs: "view y = view w" "view v = view y" "view v' = view v" "view w1 = view w0"
    using assms(2) c p n(3) unfolding tables_apart_def h_def ctl_def y_def by (metis snd_conv)+
  show ?thesis
  proof (rule that [OF c [unfolded ctl_def]])
    show "name = uuid_to_string (database inn) u" by (simp only: n(2) key_def)
    show "view v' = view w" "view w1 = view w0" by (simp_all only: vs)
    show "(if por_enabled inn then store_contracts inn u (hash (host_of inn) (st_content request)) request
        (take REPLICATION_FACTOR peers) else respond ()) v' = (Ok (Inr ()), w0)"
      using w0(1) unfolding n(1) wr_def h_def .
    show "(u, y) = new_uuid (host_of inn) (snd (system_now (host_of inn) w))" by (simp add: u_def y_def h_def)
    show "ctl_put_to (swarm_controller inn) name (st_content request) (take REPLICATION_FACTOR peers) v = (Ok (), v')"
      using p by (simp add: n(2) ctl_def)
  qed
qed

lemma grpc_store_record:
  assumes "autocommit_spec (database inn) view" "tables_apart view inn" "por_enabled inn"
    and "grpc_store inn request w = (Ok (Inr name), w1)"
  shows "\<exists>u y peers v v'. (u, y) = new_uuid (host_of inn) (snd (system_now (host_of inn) w))
    \<and> name = uuid_to_string (database inn) u
    \<and> ctl_get_closest_peers (swarm_controller inn) u y = (Ok peers, v)
    \<and> ctl_put_to (swarm_controller inn) name (st_content request) (take REPLICATION_FACTOR peers) v = (Ok (), v')
    \<and> (if peers = [] then view w1 = view w
       else \<exists>c cc. client_from_file (st_content request) = Some cc
         \<and> contract_of c (hash (host_of inn) (st_content request)) (st_ttl request) cc
         \<and> c_file_uuid c = name \<and> c_peer_id c = last (take REPLICATION_FACTOR peers)
         \<and> on_record (database inn) (view w1) name c)"
proof -
  obtain u peers y v v' w0 where s: "ctl_get_closest_peers (swarm_controller inn) u y = (Ok peers, v)"
    "name = uuid_to_string (database inn) u" "view v' = view w"
    "(if por_enabled inn then store_contracts inn u (hash (host_of inn) (st_content request)) request
        (take REPLICATION_FACTOR peers) else respond ()) v' = (Ok (Inr ()), w0)" "view w1 = view w0"
    "(u, y) = new_uuid (host_of inn) (snd (system_now (host_of inn) w))"
    "ctl_put_to (swarm_controller inn) name (st_content request) (take REPLICATION_FACTOR peers) v = (Ok (), v')"
    using assms(4,2) by (rule grpc_store_steps)
  have sc: "store_contracts inn u (hash (host_of inn) (st_content request)) request (take REPLICATION_FACTOR peers) v' = (Ok (Inr ()), w0)"
    using s(4) assms(3) by simp
  have "view w1 = view w" if "peers = []" using sc that s(3,5) by (simp add: respond_def act_simps)
  moreover have "take REPLICATION_FACTOR peers \<noteq> []" if "peers \<noteq> []" using that by (simp add: REPLICATION_FACTOR_def)
  note store_contracts_on_record [OF assms(1) this sc, folded s(2,5)]
  ultimately have "if peers = [] then view w1 = view w
       else \<exists>c cc. client_from_file (st_content request) = Some cc
         \<and> contract_of c (hash (host_of inn) (st_content request)) (st_ttl request) cc
         \<and> c_file_uuid c = name \<and> c_peer_id c = last (take REPLICATION_FACTOR peers)
         \<and> on_record (database inn) (view w1) name c"
    by (cases "peers = []") auto
  with s(1,2,6,7) show ?thesis by blast
qed

text \<open>
  C8: A successful store did its work: for the fresh UUID that is returned as the name, the content was put to the first peers
  of those closest to it, up to the replication factor, and the ledger has a contract under the name, with the hash, time to live and secrets of the
  content and the last of these peers. If no peer is close, the store succeeds as well, and leaves nothing in the ledger.
\<close>

theorem store_puts_and_records:
  assumes "autocommit_spec (database inn) view" "tables_apart view inn" "por_enabled inn"
    and "grpc_store inn request w = (Ok (Inr name), w1)"
  shows "\<exists>u y peers v v'. (u, y) = new_uuid (host_of inn) (snd (system_now (host_of inn) w))
    \<and> name = uuid_to_string (database inn) u
    \<and> ctl_get_closest_peers (swarm_controller inn) u y = (Ok peers, v)
    \<and> ctl_put_to (swarm_controller inn) name (st_content request) (take REPLICATION_FACTOR peers) v = (Ok (), v')
    \<and> (if peers = [] then view w1 = view w
       else \<exists>c cc. client_from_file (st_content request) = Some cc
         \<and> contract_of c (hash (host_of inn) (st_content request)) (st_ttl request) cc
         \<and> c_file_uuid c = name \<and> c_peer_id c = last (take REPLICATION_FACTOR peers)
         \<and> on_record (database inn) (view w1) name c)"
  using assms by (rule grpc_store_record)

lemma grpc_store_on_record:
  assumes "grpc_store inn request w = (Ok (Inr name), w1)" "tables_apart view inn" "autocommit_spec (database inn) view"
    "por_enabled inn" "\<And>u v v'. ctl_get_closest_peers (swarm_controller inn) u v \<noteq> (Ok [], v')"
  shows "\<exists>c cc. client_from_file (st_content request) = Some cc
    \<and> contract_of c (hash (host_of inn) (st_content request)) (st_ttl request) cc \<and> on_record (database inn) (view w1) name c"
  using grpc_store_record [OF assms(3,2,4,1)] assms(5) by (auto split: if_splits)

text \<open>
  C7: What is retrieved under a name has the hash of what was stored under it, as long as the ledger keeps
  the contract: content the keepers changed is never returned, up to collisions of SHA3-256. This needs proofs of retrievability
  to be enabled when the file is stored, since the hash is kept in the contract.
\<close>

theorem retrieved_content_has_stored_hash:
  assumes "autocommit_spec (database inn) view" "peer_text (database inn)" "tables_apart view inn" "por_enabled inn"
    and "\<And>u v v'. ctl_get_closest_peers (swarm_controller inn) u v \<noteq> (Ok [], v')"
    and "grpc_store inn request w = (Ok (Inr name), w1)"
    and "map_of (contracts_tbl (view w2)) name = map_of (contracts_tbl (view w1)) name"
    and "grpc_retrieve inn name w2 = (Ok (Inr resp), w3)"
  shows "rr_name resp = name \<and> hash (host_of inn) (rr_content resp) = hash (host_of inn) (st_content request)"
proof -
  obtain c cc where c: "contract_of c (hash (host_of inn) (st_content request)) (st_ttl request) cc"
    "on_record (database inn) (view w2) name c"
    using grpc_store_on_record [OF assms(6,3,1,4,5)] assms(7) by (auto simp: on_record_def)
  from assms(8) obtain c' v and q :: query_get_response where g: "get_contract (database inn) (ledger inn) name w2 = (Ok c', v)"
    and r: "hash (host_of inn) (qg_file q) = c_file_hash c'" "resp = \<lparr>rr_name = name, rr_content = qg_file q\<rparr>"
    by (auto simp: grpc_retrieve_def reply_status_def respond_def act_simps elim!: or_status_InrE split: if_splits)
  have "c' = c" by (rule get_contract_spec [OF assms(1,2) g c(2)])
  with r c(1) show ?thesis by (simp add: contract_of_def)
qed

text \<open>
  C30: A file stored while proofs of retrievability are disabled cannot be retrieved: no contract is
  written, and retrieving fails without one.
\<close>

theorem stored_without_por_is_lost:
  assumes "autocommit_spec (database inn) view" "tables_apart view inn" "\<not> por_enabled inn"
    and "grpc_store inn request w = (Ok (Inr name), w1)" "map_of (contracts_tbl (view w)) name = None"
    and "contracts_tbl (view w2) = contracts_tbl (view w1)"
  shows "\<exists>e w3. grpc_retrieve inn name w2 = (Ok (Inl (Status Unknown (error_text (host_of inn) e))), w3)"
proof -
  obtain u peers y v v' w0 where "view v' = view w" "view w1 = view w0" and
    "(if por_enabled inn then store_contracts inn u (hash (host_of inn) (st_content request)) request
        (take REPLICATION_FACTOR peers) else respond ()) v' = (Ok (Inr ()), w0)"
    using assms(4,2) by (rule grpc_store_steps)
  then have "view w1 = view w" using assms(3) by (simp add: respond_def act_simps)
  then obtain e w3 where "get_contract (database inn) (ledger inn) name w2 = (Err e, w3)"
    using get_contract_none [OF assms(1), of w2 name "ledger inn"] assms(5,6) by auto
  then show ?thesis by (auto simp: grpc_retrieve_def or_status_def status_of_def act_simps)
qed

section \<open>Putting to given peers\<close>

lemma parse_peers_Nil: "parse_peers db xs = Inr [] \<longleftrightarrow> xs = []"
  by (cases xs) (auto split: sum.splits)

lemma parse_peers_status: "parse_peers db xs = Inl (Status code msg) \<Longrightarrow> code = InvalidArgument"
  by (induction xs) (auto split: sum.splits)

lemma put_to_contracts_result:
  assumes "put_to_contracts inn create peers w = (Ok r, w')"
  shows "(\<exists>msg. r = Inl (Status Unknown msg)) \<or>
    (r = Inr () \<and> (peers \<noteq> [] \<longrightarrow> (\<exists>v. create (last peers) v = (Ok (), w'))))"
  using assms
proof (induction peers arbitrary: w)
  case (Cons peer peers)
  obtain q v where q: "create peer w = (q, v)" by (cases "create peer w")
  show ?case
  proof (cases q)
    case (Ok x)
    with q Cons.prems have "put_to_contracts inn create peers v = (Ok r, w')" by (simp add: or_status_def act_simps)
    with Cons.IH [OF this] q Ok show ?thesis by (cases "peers = []") (auto simp: respond_def act_simps)
  qed (use q Cons.prems in \<open>auto simp: or_status_def status_of_def act_simps\<close>)
qed (simp add: respond_def act_simps)

text \<open>
  C31: When putting a file to given peers fails in the swarm, its contract stays in the ledger:
  contracts are written first and not taken back, so the peers are audited for a file they never received.
\<close>

theorem failed_put_to_leaves_contract:
  assumes "autocommit_spec (database inn) view" "tables_apart view inn" "pt_peer_uuids request \<noteq> []"
    and "grpc_put_to inn request w = (Ok (Inl (Status Internal msg)), w')"
  shows "\<exists>u c cc. client_from_file (pt_content request) = Some cc
    \<and> on_record (database inn) (view w') (uuid_to_string (database inn) u) c
    \<and> contract_of c (hash (host_of inn) (pt_content request)) (pt_ttl request) cc"
proof -
  define db where "db = database inn"
  define fh where "fh = hash (host_of inn) (pt_content request)"
  define u where "u = fst (new_uuid (host_of inn) w)"
  obtain peers where peers: "parse_peers db (pt_peer_uuids request) = Inr peers"
    using assms(4) parse_peers_status by (force simp: grpc_put_to_def Let_def act_simps db_def split: sum.splits)
  obtain cc where cc: "client_from_file (pt_content request) = Some cc"
  proof (cases "client_from_file (pt_content request)")
    case None
    with assms(4) peers have False
      by (simp add: grpc_put_to_def Let_def read_host_bind act_bind_def [of "act_option None"] act_simps db_def)
    then show ?thesis ..
  qed auto
  obtain n m rows cols where f: "to_contract cc = (n, m, rows, cols)" by (cases "to_contract cc")
  define create where "create = (\<lambda>peer. create_contract db (ledger inn) peer u fh (pt_ttl request) n m rows cols)"
  define y where "y = snd (new_uuid (host_of inn) w)"
  have b: "act_bind (put_to_contracts inn create peers) (\<lambda>res. case res of Inl st \<Rightarrow> act_return (Inl st) | Inr _ \<Rightarrow>
        or_status (ctl_put_to (swarm_controller inn) (uuid_to_string db u) (pt_content request) peers)
          (status_of inn Internal []) (\<lambda>_. respond (uuid_to_string db u))) y = (Ok (Inl (Status Internal msg)), w')"
    using assms(4) peers cc f
    by (simp add: grpc_put_to_def Let_def read_host_bind act_simps db_def fh_def u_def create_def y_def cong: sum.case_cong)
  then obtain r v where r: "put_to_contracts inn create peers y = (Ok r, v)"
    and k: "(case r of Inl st \<Rightarrow> act_return (Inl st) | Inr _ \<Rightarrow>
        or_status (ctl_put_to (swarm_controller inn) (uuid_to_string db u) (pt_content request) peers)
          (status_of inn Internal []) (\<lambda>_. respond (uuid_to_string db u))) v = (Ok (Inl (Status Internal msg)), w')"
    by (elim act_bind_OkE)
  have "peers \<noteq> []" using peers assms(3) parse_peers_Nil by metis
  with put_to_contracts_result [OF r] k obtain v0 where c: "r = Inr ()" "create (last peers) v0 = (Ok (), v)"
    by (auto simp: act_simps)
  have "w' = snd (ctl_put_to (swarm_controller inn) (uuid_to_string db u) (pt_content request) peers v)"
    using k c(1) by (auto simp: or_status_def act_try_def respond_def act_simps split: prod.splits outcome.splits)
  then have "view w' = view v" using assms(2) by (simp add: tables_apart_def)
  with create_contract_on_record [OF assms(1) c(2) [unfolded create_def db_def] f] cc show ?thesis
    by (auto simp: fh_def)
qed

section \<open>A service in memory\<close>

text \<open>A node whose one peer stores \<^verbatim>\<open>abc\<close> and answers challenges from it; \<open>por\<close> and the outcome of storing are given.\<close>

definition abc :: bytes where "abc = [97, 98, 99]"

definition mem_host :: "mem_world host" where
  "mem_host = \<lparr>sha3_256 = \<lambda>b. b, hex_encode = byte_string, new_uuid = \<lambda>w. (2, w), uuid_from_str = \<lambda>_. Inr 2,
     system_now = \<lambda>w. (0, w), set_iter = \<lambda>_. [], error_text = \<lambda>_. ''error''\<rparr>"

definition mem_controller :: "bool \<Rightarrow> mem_world controller" where
  "mem_controller put_ok = \<lparr>ctl_put_to = \<lambda>_ _ _. if put_ok then act_return () else act_fail UnknownError,
     ctl_get = \<lambda>_. act_return \<lparr>qg_file = abc, qg_origin_peer_id = PeerId [7]\<rparr>,
     ctl_get_providers = \<lambda>_. act_return {}, ctl_get_closest_peers = \<lambda>_. act_return [PeerId [7]],
     ctl_start_providing = \<lambda>_. act_return (),
     ctl_request_verification = \<lambda>_ _ challenge.
       act_bind (act_option (server_from_file abc)) (\<lambda>server. act_option (fulfill_challenge server challenge))\<rparr>"

definition mem_inner :: "bool \<Rightarrow> bool \<Rightarrow> mem_world inner" where
  "mem_inner por put_ok = \<lparr>swarm_controller = mem_controller put_ok, database = mem_db False, ledger = mem_ledger,
     por_enabled = por, host_of = mem_host\<rparr>"

lemma mem_inner_simps [simp]:
  "database (mem_inner por put_ok) = mem_db False" "ledger (mem_inner por put_ok) = mem_ledger"
  "por_enabled (mem_inner por put_ok) = por" "host_of (mem_inner por put_ok) = mem_host"
  "swarm_controller (mem_inner por put_ok) = mem_controller put_ok"
  by (simp_all add: mem_inner_def)

lemma mem_tables_apart: "tables_apart committed (mem_inner por put_ok)"
  by (auto simp: tables_apart_def mem_host_def mem_controller_def act_simps act_bind_def act_option_def
      split: prod.splits outcome.splits option.splits)

lemma mem_closest: "ctl_get_closest_peers (swarm_controller (mem_inner por put_ok)) u v \<noteq> (Ok [], v')"
  by (simp add: mem_controller_def act_simps)

lemma mem_create_contract: "\<exists>w'. create_contract (mem_db False) mem_ledger p u fh ttl n m rows cols w = (Ok (), w')"
  by (simp add: create_contract_def since_epoch_def sql_execute_def with_client_def auth_map_def metadata_value_def
      call_def mem_ledger_def mem_db_def mem_exec_def exec_result_def act_bind_def act_simps Let_def contract_params_def
      sql_simps)

lemma abc_configured: "\<exists>cc. client_from_file abc = Some cc"
  using client_from_file_ok [of abc] dims_small(1) [of "length abc"] vectors_1 by (auto simp: abc_def)

lemma write_contract_Ok: "m w = (Ok (), w') \<Longrightarrow> write_contract (Suc k) h m s w = (Ok (Inr ()), w')"
  by (simp add: act_simps)

lemma mem_store: "\<exists>w1. grpc_store (mem_inner por True) \<lparr>st_name = ''f'', st_content = abc, st_ttl = 9\<rparr> w = (Ok (Inr ''xx''), w1)"
proof -
  obtain cc where cc: "client_from_file abc = Some cc" using abc_configured ..
  obtain n m rows cols where f: "to_contract cc = (n, m, rows, cols)" by (cases "to_contract cc")
  obtain w1 where c: "create_contract (mem_db False) mem_ledger (PeerId [7]) 2 (hash mem_host abc) 9 n m rows cols w = (Ok (), w1)"
    using mem_create_contract by blast
  have "store_contracts (mem_inner True True) 2 (hash mem_host abc) \<lparr>st_name = ''f'', st_content = abc, st_ttl = 9\<rparr> [PeerId [7]] w
      = (Ok (Inr ()), w1)"
    using write_contract_Ok [where m = "create_contract (mem_db False) mem_ledger (PeerId [7]) 2 (hash mem_host abc) 9 n m rows cols"
        and w = w and w' = w1 and k = 9] c by (simp add: cc f act_simps act_bind_def respond_def eval_nat_numeral)
  then have sc: "store_contracts (mem_inner True True) 2 (hash mem_host abc) \<lparr>st_name = ''f'', st_content = abc, st_ttl = 9\<rparr>
      (take REPLICATION_FACTOR [PeerId [7]]) w = (Ok (Inr ()), w1)" by (simp add: REPLICATION_FACTOR_def)
  have u: "uuid_to_string (mem_db False) 2 = ''xx''" by code_simp
  have h: "system_now mem_host v = (0, v)" "new_uuid mem_host v = (2, v)" for v by (simp_all add: mem_host_def)
  show ?thesis
    by (cases por) (simp_all add: grpc_store_def read_host_def h u sc or_status_def mem_controller_def act_simps
        act_bind_def respond_def del: store_contracts.simps take_Cons_numeral)
qed

lemma mem_put_to: "\<exists>w'. grpc_put_to (mem_inner por False) \<lparr>pt_content = abc, pt_ttl = 9, pt_peer_uuids = [''A'']\<rparr> w
    = (Ok (Inl (Status Internal ''error'')), w')"
proof -
  obtain cc where cc: "client_from_file abc = Some cc" using abc_configured ..
  obtain n m rows cols where f: "to_contract cc = (n, m, rows, cols)" by (cases "to_contract cc")
  define p where "p = PeerId (as_bytes ''A'')"
  obtain w1 where c: "create_contract (mem_db False) mem_ledger p 2 (hash mem_host abc) 9 n m rows cols w = (Ok (), w1)"
    using mem_create_contract by blast
  have p: "peer_id_from_str (mem_db False) ''A'' = Inr p" by (simp add: mem_db_def p_def)
  have u: "new_uuid mem_host w = (2, w)" "error_text mem_host e = ''error''" for w e by (simp_all add: mem_host_def)
  show ?thesis
    by (simp add: grpc_put_to_def Let_def p read_host_def u cc f c act_bind_def act_simps or_status_def status_of_def mem_controller_def
        respond_def)
qed

lemma mem_get_contract:
  assumes "on_record (mem_db ro) (committed w) fu c"
  shows "get_contract (mem_db ro) mem_ledger fu w = (Ok c, w)"
proof -
  have "query_execute (mem_db ro) mem_ledger select_contract_sql [param ''file_uuid'' (S fu)] w = (Ok [contract_row (mem_db ro) c], w)"
    using assms by (simp add: query_execute_def with_client_def mem_ledger_def auth_map_def metadata_value_def call_def mem_db_def
        mem_query_def query_rows_def rows_with_key_def on_record_def sql_simps act_bind_def act_simps Let_def)
  then show ?thesis by (simp add: get_contract_def act_bind_def map_row_to_contract_row [OF mem_db_peer_text])
qed

lemma mem_closest_peers: "ctl_get_closest_peers (swarm_controller (mem_inner por put_ok)) u y = (Ok peers, v) \<Longrightarrow> peers = [PeerId [7]]"
  by (simp add: mem_controller_def act_simps)

lemma mem_store_record:
  "\<exists>w1 c. grpc_store (mem_inner True True) \<lparr>st_name = ''f'', st_content = abc, st_ttl = 9\<rparr> empty_world = (Ok (Inr ''xx''), w1)
     \<and> on_record (mem_db False) (committed w1) ''xx'' c \<and> c_file_uuid c = ''xx'' \<and> c_peer_id c = PeerId [7] \<and> c_ttl c = 9"
proof -
  define inn where "inn = mem_inner True True"
  define req where "req = \<lparr>st_name = ''f'', st_content = abc, st_ttl = 9\<rparr>"
  obtain w1 where s: "grpc_store inn req empty_world = (Ok (Inr ''xx''), w1)" using mem_store unfolding inn_def req_def by blast
  have i: "autocommit_spec (database inn) committed" "tables_apart committed inn" "por_enabled inn"
    by (simp_all add: inn_def mem_db_autocommit mem_tables_apart)
  from grpc_store_record [OF i s] mem_closest_peers [of True True, folded inn_def]
  obtain c cc where "contract_of c (hash (host_of inn) (st_content req)) (st_ttl req) cc"
    "c_file_uuid c = ''xx''" "c_peer_id c = last (take REPLICATION_FACTOR [PeerId [7]])" "on_record (database inn) (committed w1) ''xx'' c"
    by (auto split: if_splits)
  then have "on_record (mem_db False) (committed w1) ''xx'' c \<and> c_file_uuid c = ''xx'' \<and> c_peer_id c = PeerId [7] \<and> c_ttl c = 9"
    by (simp add: inn_def req_def contract_of_def REPLICATION_FACTOR_def)
  with s show ?thesis unfolding inn_def req_def by blast
qed

theorem store_puts_and_records_witness:
  "\<exists>w1 y v v'. grpc_store (mem_inner True True) \<lparr>st_name = ''f'', st_content = abc, st_ttl = 9\<rparr> empty_world = (Ok (Inr ''xx''), w1)
     \<and> ctl_get_closest_peers (mem_controller True) 2 y = (Ok [PeerId [7]], v)
     \<and> ctl_put_to (mem_controller True) ''xx'' abc (take REPLICATION_FACTOR [PeerId [7]]) v = (Ok (), v')"
proof -
  define inn where "inn = mem_inner True True"
  define req where "req = \<lparr>st_name = ''f'', st_content = abc, st_ttl = 9\<rparr>"
  obtain w1 where s: "grpc_store inn req empty_world = (Ok (Inr ''xx''), w1)" using mem_store unfolding inn_def req_def by blast
  have i: "autocommit_spec (database inn) committed" "tables_apart committed inn" "por_enabled inn"
    by (simp_all add: inn_def mem_db_autocommit mem_tables_apart)
  from store_puts_and_records [OF i s] obtain u y peers v v' where p: "(u, y) = new_uuid (host_of inn) (snd (system_now (host_of inn) empty_world))"
    "ctl_get_closest_peers (swarm_controller inn) u y = (Ok peers, v)"
    "ctl_put_to (swarm_controller inn) ''xx'' (st_content req) (take REPLICATION_FACTOR peers) v = (Ok (), v')" by blast
  from p(1) have "u = 2" by (simp add: inn_def mem_host_def)
  moreover have "peers = [PeerId [7]]" using p(2) mem_closest_peers [of True True u y] unfolding inn_def by simp
  ultimately show ?thesis using s p(2,3) unfolding inn_def req_def by auto
qed

theorem retrieved_content_has_stored_hash_witness:
  "\<exists>w1 resp w3. grpc_store (mem_inner True True) \<lparr>st_name = ''f'', st_content = abc, st_ttl = 9\<rparr> empty_world = (Ok (Inr ''xx''), w1)
     \<and> grpc_retrieve (mem_inner True True) ''xx'' w1 = (Ok (Inr resp), w3) \<and> hash mem_host (rr_content resp) = ''abc''"
proof -
  define inn where "inn = mem_inner True True"
  define req where "req = \<lparr>st_name = ''f'', st_content = abc, st_ttl = 9\<rparr>"
  obtain w1 where s: "grpc_store inn req empty_world = (Ok (Inr ''xx''), w1)" using mem_store unfolding inn_def req_def by blast
  have i: "autocommit_spec (database inn) committed" "peer_text (database inn)" "tables_apart committed inn" "por_enabled inn"
    by (simp_all add: inn_def mem_db_autocommit mem_db_peer_text mem_tables_apart)
  note closest = mem_closest [of True True, folded inn_def]
  obtain c cc where "on_record (mem_db False) (committed w1) ''xx'' c" "contract_of c (hash mem_host abc) 9 cc"
    using grpc_store_on_record [OF s i(3,1,4) closest] by (auto simp: inn_def req_def)
  then obtain resp w3 where r: "grpc_retrieve inn ''xx'' w1 = (Ok (Inr resp), w3)"
    by (simp add: grpc_retrieve_def or_status_def act_try_def mem_get_contract inn_def mem_controller_def act_simps respond_def contract_of_def)
  have "hash mem_host abc = ''abc''" by code_simp
  with retrieved_content_has_stored_hash [OF i closest s refl r] s r show ?thesis by (auto simp: inn_def req_def)
qed

theorem stored_without_por_is_lost_witness:
  "\<exists>w1 w3. grpc_store (mem_inner False True) \<lparr>st_name = ''f'', st_content = abc, st_ttl = 9\<rparr> empty_world = (Ok (Inr ''xx''), w1)
     \<and> grpc_retrieve (mem_inner False True) ''xx'' w1 = (Ok (Inl (Status Unknown ''error'')), w3)"
proof -
  define inn where "inn = mem_inner False True"
  obtain w1 where s: "grpc_store inn \<lparr>st_name = ''f'', st_content = abc, st_ttl = 9\<rparr> empty_world = (Ok (Inr ''xx''), w1)"
    using mem_store unfolding inn_def by blast
  have i: "autocommit_spec (database inn) committed" "tables_apart committed inn" "\<not> por_enabled inn"
    by (simp_all add: inn_def mem_db_autocommit mem_tables_apart)
  have "map_of (contracts_tbl (committed empty_world)) ''xx'' = None" by (simp add: empty_world_def)
  from stored_without_por_is_lost [OF i s this refl] s show ?thesis by (auto simp: inn_def mem_host_def)
qed

theorem failed_put_to_leaves_contract_witness:
  "\<exists>w' u c. grpc_put_to (mem_inner True False) \<lparr>pt_content = abc, pt_ttl = 9, pt_peer_uuids = [''A'']\<rparr> empty_world
      = (Ok (Inl (Status Internal ''error'')), w') \<and> on_record (mem_db False) (committed w') (uuid_to_string (mem_db False) u) c"
proof -
  define inn where "inn = mem_inner True False"
  obtain w' where p: "grpc_put_to inn \<lparr>pt_content = abc, pt_ttl = 9, pt_peer_uuids = [''A'']\<rparr> empty_world
      = (Ok (Inl (Status Internal ''error'')), w')" using mem_put_to unfolding inn_def by blast
  have i: "autocommit_spec (database inn) committed" "tables_apart committed inn"
    by (simp_all add: inn_def mem_db_autocommit mem_tables_apart)
  from failed_put_to_leaves_contract [OF i _ p] p show ?thesis unfolding inn_def by auto
qed

end
