(* ===== verification/Caller.thy ===== *)
theory Caller
  imports Controller Swarm_Runs
begin

text \<open>
  A caller of the controller gets the answer to its own query, whatever else the swarm does while the
  caller waits. Both waits are followed through the loop: until the swarm hands out the receiver, and until
  a result is sent on it. \<open>entered\<close> are the entries a command makes in the tables, \<open>answered_by\<close> the events that answer an entry; \<open>send_and_wait_own\<close>
  says for every operation that its result is an answer to its own entry.
\<close>

section \<open>Steps that do not touch a channel\<close>

definition untouched :: "chan \<Rightarrow> 'w node \<Rightarrow> 'w node \<Rightarrow> bool" where
  "untouched c n n' \<longleftrightarrow> (c < next_chan n \<longrightarrow> c < next_chan n' \<and> replies n' c = replies n c \<and>
     (\<forall>s q. slots n' s = Some q \<longrightarrow> sender q = c \<longrightarrow> slots n s = Some q))"

interpretation untouched: action_relation "untouched c" for c
  by unfold_locales (auto simp: untouched_def)

lemma untouched_lift: "relates (untouched c) (lift_outside m)" "relates (untouched c) (lift_pure f)"
  by (auto simp: relates_def untouched_def lift_outside_def lift_pure_def split: prod.splits)

lemma untouched_deleted: "relates (untouched c) (\<lambda>n. (Ok (g n), n\<lparr>deleted_files := h n\<rparr>))"
  by (auto simp: relates_def untouched_def)

lemma untouched_open:
  assumes "\<And>x. fills x (f x)" shows "relates (untouched c) (act_bind (open_channel resp) f)"
proof (rule relatesI)
  fix n r n' assume b: "act_bind (open_channel resp) f n = (r, n')"
  define n1 where "n1 = n\<lparr>next_chan := next_chan n + 1, handed := (handed n)(resp \<mapsto> next_chan n)\<rparr>"
  have n1: "slots n1 = slots n" "next_chan n1 = next_chan n + 1" "replies n1 = replies n" by (simp_all add: n1_def)
  from b consider "n' = n\<lparr>next_chan := next_chan n + 1\<rparr>" | "f (next_chan n) n1 = (r, n')"
    by (auto simp: act_bind_def open_channel_simp n1_def split: if_splits)
  then show "untouched c n n'"
  proof cases
    case 2
    with assms [of "next_chan n", unfolded fills_def] n1 show ?thesis
      unfolding untouched_def by (fastforce split: if_splits)
  qed (simp add: untouched_def)
qed

lemma message_request_untouched: "relates (untouched c) (handle_reqres_message_request beh env request channel)"
  unfolding handle_reqres_message_request_def
  by (auto intro!: untouched.rel_compose untouched_lift untouched_deleted split: sum.split option.split)

lemma handle_controller_event_untouched: "relates (untouched c) (handle_controller_event beh env cmd)"
proof -
  have "relates (untouched c) (handle_controller_request_verification beh p f cv resp)"
    "relates (untouched c) (handle_controller_start_providing beh k resp)"
    "relates (untouched c) (handle_controller_get_providers beh k resp)"
    "relates (untouched c) (handle_controller_get_closest_peers beh u resp)"
    "relates (untouched c) (handle_controller_put_record_to beh k v ps resp)"
    "relates (untouched c) (handle_controller_put beh env k v resp)"
    "relates (untouched c) (handle_controller_get beh k resp)" for p f cv resp k u v ps
    unfolding controller_handlers
    by (intro untouched_open fills_bind fills_insert outside_only_lift frame.rel_result; simp)+
  then show ?thesis unfolding handle_controller_event_def
    by (auto intro!: untouched.rel_compose split: option.split command_to_swarm.split)
qed

section \<open>The owner of a channel\<close>

text \<open>
  Which events answer a pending entry, and with what: the entry is that of a query or a request under the id of the
  event, and the event is of the kind the entry waits for.
\<close>

definition record_answer :: "peer_id \<Rightarrow> ext_error + get_record_ok \<Rightarrow> error_kind + query_get_response" where
  "record_answer lp message = (case message of
     Inr (FoundRecord r peer) \<Rightarrow> Inr \<lparr>qg_file = rec_value r, qg_origin_peer_id = (case peer of Some p \<Rightarrow> p | None \<Rightarrow> lp)\<rparr>
   | Inr _ \<Rightarrow> Inl (SwarmGetRecordUnknownError ''unexpected GetRecord result'')
   | Inl err \<Rightarrow> Inl (SwarmGetRecordError err))"

definition put_answer :: "ext_error + unit \<Rightarrow> error_kind + unit" where
  "put_answer message = (case message of Inr _ \<Rightarrow> Inr () | Inl err \<Rightarrow> Inl (SwarmPutRecordError err))"

definition providers_answer :: "get_providers_ok \<Rightarrow> error_kind + peer_id set" where
  "providers_answer message = (case message of FoundProviders ps \<Rightarrow> Inr ps | NoAdditionalProviders \<Rightarrow> Inl NoProvidersFound)"

abbreviation reqres :: "reqres_event \<Rightarrow> input" where
  "reqres ev \<equiv> Event (BehaviourEvent (ReqRes ev))"

inductive answered_by :: "peer_id \<Rightarrow> input \<Rightarrow> query_id + request_id \<Rightarrow> query_response \<Rightarrow> reply \<Rightarrow> bool" for lp where
  get: "answered_by lp (progressed (GetRecord message) i) (Inl i) (QGet c) (ReplyGet (record_answer lp message))"
| put: "answered_by lp (progressed (PutRecord message) i) (Inl i) (QPut c) (ReplyUnit (put_answer message))"
| put_to: "answered_by lp (progressed (PutRecord message) i) (Inl i) (QPutTo c) (ReplyUnit (put_answer message))"
| providers: "answered_by lp (progressed (GetProviders (Inr found)) i) (Inl i) (QGetProviders c) (ReplyProviders (providers_answer found))"
| peers: "answered_by lp (progressed (GetClosestPeers (Inr ps)) i) (Inl i) (QGetClosestPeers c) (ReplyPeers (Inr ps))"
| providing: "answered_by lp (progressed (StartProviding (Inr u)) i) (Inl i) (QStartProviding c) (ReplyUnit (Inr ()))"
| response: "answered_by lp (reqres (MessageResponse i a)) (Inr i) (QVerificationRequest c) (ReplyVerification (Inr a))"
| inbound: "answered_by lp (reqres (InboundFailure p i e)) (Inr i) (QVerificationRequest c) (ReplyVerification (Inl (RequestInboundFailure e)))"
| outbound: "answered_by lp (reqres (OutboundFailure p i e)) (Inr i) (QVerificationRequest c) (ReplyVerification (Inl (RequestOutboundFailure e)))"

text \<open>A channel waits in the tables only in entries of \<open>E\<close>.\<close>

definition owner :: "chan \<Rightarrow> (query_id + request_id \<Rightarrow> query_response \<Rightarrow> bool) \<Rightarrow> 'w node \<Rightarrow> bool" where
  "owner c E n \<longleftrightarrow> c < next_chan n \<and> (\<forall>s q. slots n s = Some q \<longrightarrow> sender q = c \<longrightarrow> E s q)"

lemma owner_untouched: "untouched c n n' \<Longrightarrow> owner c E n \<Longrightarrow> owner c E n' \<and> replies n' c = replies n c"
  unfolding untouched_def owner_def by blast

text \<open>The handlers of results take an entry out of its table and answer it with a reply that \<open>P\<close> allows, or leave it at that.\<close>

definition answers_with :: "(query_response \<Rightarrow> reply \<Rightarrow> bool) \<Rightarrow> (query_response option \<Rightarrow> ('w node, unit) action) \<Rightarrow> bool" where
  "answers_with P f \<longleftrightarrow> (\<forall>q. (\<exists>p e x. q = Some p \<and> P p x \<and> f q = send_reply e (sender p) x) \<or> f q = act_return () \<or> (\<exists>e. f q = act_fail e))"

definition takes :: "query_id + request_id \<Rightarrow> ('w node, query_response option) action" where
  "takes s = (case s of Inl i \<Rightarrow> take_query i | Inr i \<Rightarrow> take_request i)"

lemma takes_simp: "\<exists>n1. takes s n = (Ok (slots n s), n1) \<and> slots n1 = (slots n)(s := None) \<and> next_chan n1 = next_chan n \<and>
    replies n1 = replies n"
  by (cases s) (simp_all add: takes_def slots_taken)

lemma handler_owner:
  assumes "owner c E n" "h = act_bind (takes s) f" "answers_with P f" "h n = (r, n')"
  shows "untouched c n n' \<or> (owner c E n' \<and> (\<exists>q x. E s q \<and> P q x \<and> replies n' c = Some x))"
proof -
  obtain n1 where t: "takes s n = (Ok (slots n s), n1)" and n1: "slots n1 = (slots n)(s := None)" "next_chan n1 = next_chan n"
    "replies n1 = replies n" using takes_simp by metis
  then have "f (slots n s) n1 = (r, n')" using assms(2,4) by (simp add: act_bind_def)
  with assms(3) consider p e x where "slots n s = Some p" "P p x" "send_reply e (sender p) x n1 = (r, n')" | "n' = n1"
    by (auto simp: answers_with_def act_simps dest!: spec [of _ "slots n s"])
  then show ?thesis
  proof cases
    case 1
    then consider "n' = n1" | "n' = n1\<lparr>replies := (replies n1)(sender p \<mapsto> x)\<rparr>" by (auto simp: send_reply_def split: if_splits)
    then show ?thesis
    proof cases
      case 2
      with 1 n1 assms(1) show ?thesis
        by (cases "sender p = c") (auto simp: owner_def untouched_def split: if_splits)
    qed (use n1 in \<open>auto simp: untouched_def split: if_splits\<close>)
  qed (use n1 in \<open>auto simp: untouched_def split: if_splits\<close>)
qed

lemma handler_shapes:
  "\<exists>f. handle_get_record lp m1 j = act_bind (takes (Inl j)) f \<and> answers_with (answered_by lp (progressed (GetRecord m1) j) (Inl j)) f"
  "\<exists>f. handle_put_record m2 j = act_bind (takes (Inl j)) f \<and> answers_with (answered_by lp (progressed (PutRecord m2) j) (Inl j)) f"
  "\<exists>f. handle_get_providers m3 j = act_bind (takes (Inl j)) f \<and> answers_with (answered_by lp (progressed (GetProviders m3) j) (Inl j)) f"
  "\<exists>f. handle_get_closest_peers m4 j = act_bind (takes (Inl j)) f \<and> answers_with (answered_by lp (progressed (GetClosestPeers m4) j) (Inl j)) f"
  "\<exists>f. handle_start_providing m5 j = act_bind (takes (Inl j)) f \<and> answers_with (answered_by lp (progressed (StartProviding m5) j) (Inl j)) f"
  "\<exists>f. handle_reqres_message_response a j = act_bind (takes (Inr j)) f \<and> answers_with (answered_by lp (reqres (MessageResponse j a)) (Inr j)) f"
  "\<exists>f. handle_inbound_failure p j e = act_bind (takes (Inr j)) f \<and> answers_with (answered_by lp (reqres (InboundFailure p j e)) (Inr j)) f"
  "\<exists>f. handle_outbound_failure p j e = act_bind (takes (Inr j)) f \<and> answers_with (answered_by lp (reqres (OutboundFailure p j e)) (Inr j)) f"
  unfolding event_handlers Let_def takes_def sum.case
  by (rule exI, rule conjI, rule refl, fastforce simp: answers_with_def record_answer_def put_answer_def providers_answer_def
      intro: answered_by.intros answered_by.get [where message = "Inl _", unfolded record_answer_def, simplified]
      split: option.split query_response.split sum.split get_record_ok.split get_providers_ok.split)+

definition owner_step :: "peer_id \<Rightarrow> input \<Rightarrow> chan \<Rightarrow> (query_id + request_id \<Rightarrow> query_response \<Rightarrow> bool) \<Rightarrow> 'w node \<Rightarrow> 'w node \<Rightarrow> bool" where
  "owner_step lp inp c E n n' \<longleftrightarrow>
     untouched c n n' \<or> (owner c E n' \<and> (\<exists>s q x. E s q \<and> answered_by lp inp s q x \<and> replies n' c = Some x))"

lemma owner_stepI:
  assumes "owner c E n" "\<exists>f. h = act_bind (takes s) f \<and> answers_with (answered_by lp inp s) f" "h n = (r, n')"
  shows "owner_step lp inp c E n n'"
  using assms handler_owner [OF assms(1)] unfolding owner_step_def by blast

lemma owner_step_refl: "owner_step lp inp c E n n"
  by (simp add: owner_step_def untouched.R_refl)

lemma owner_step_untouched: "relates (untouched c) m \<Longrightarrow> m n = (r, n') \<Longrightarrow> owner_step lp inp c E n n'"
  by (auto simp: owner_step_def dest: relatesD)

lemma swarm_step_owner:
  assumes "owner c E n" "swarm_step beh env lp inp n = (r, n')"
  shows "owner c E n' \<and> (replies n' c = replies n c \<or> (\<exists>s q x. E s q \<and> answered_by lp inp s q x \<and> replies n' c = Some x))"
proof -
  have "owner_step lp inp c E n n'"
  proof (cases inp)
    case (Instruction cmd)
    with assms(2) show ?thesis by (auto simp: swarm_step_def intro: owner_step_untouched [OF handle_controller_event_untouched])
  next
    case (Event ev)
    have fold: "relates (untouched c) (act_fold (\<lambda>(peer, addr) _. lift_pure (\<lambda>w. ((), kad_add_address beh peer addr w))) peers ())" for peers
      by (auto intro!: untouched.rel_compose untouched_lift)
    note answered = handler_shapes [THEN owner_stepI [OF assms(1)]]
    from Event assms(2) show ?thesis
      by (auto simp: swarm_step_def handle_swarm_event_def handle_response_sent_def act_simps
          intro: owner_step_refl answered owner_step_untouched [OF message_request_untouched] owner_step_untouched [OF fold]
          split: swarm_event.splits wire_event.splits kademlia_event.splits query_result.splits reqres_event.splits)
  qed (use assms(2) in \<open>auto simp: swarm_step_def owner_step_def untouched_def\<close>)
  then have "untouched c n n' \<or> (owner c E n' \<and> (\<exists>s q x. E s q \<and> answered_by lp inp s q x \<and> replies n' c = Some x))"
    by (simp add: owner_step_def)
  then show ?thesis using owner_untouched [OF _ assms(1)] by blast
qed

section \<open>Handing out receivers\<close>

primrec resp_of :: "command_to_swarm \<Rightarrow> chan" where
  "resp_of (CmdGet _ resp) = resp"
| "resp_of (CmdPutLocal _ _ resp) = resp"
| "resp_of (CmdPutRemote _ _ _ resp) = resp"
| "resp_of (CmdStartProviding _ resp) = resp"
| "resp_of (CmdGetProviders _ resp) = resp"
| "resp_of (CmdGetClosestPeers _ resp) = resp"
| "resp_of (CmdRequestVerification _ _ _ resp) = resp"

definition same_handed :: "chan \<Rightarrow> 'w node \<Rightarrow> 'w node \<Rightarrow> bool" where
  "same_handed resp n n' \<longleftrightarrow> handed n' resp = handed n resp"

interpretation hand: action_relation "same_handed resp" for resp
  by unfold_locales (auto simp: same_handed_def)

lemma same_handed_basic:
  "relates (same_handed resp) (lift_outside m)" "relates (same_handed resp) (lift_pure f)"
  "relates (same_handed resp) (take_query i)" "relates (same_handed resp) (take_request i)"
  "relates (same_handed resp) (insert_query i q)" "relates (same_handed resp) (insert_request i q)"
  "relates (same_handed resp) (send_reply e c r)"
  "relates (same_handed resp) (\<lambda>n. (Ok (g n), n\<lparr>deleted_files := h n\<rparr>))"
  "resp' \<noteq> resp \<Longrightarrow> relates (same_handed resp) (open_channel resp')"
  by (auto simp: relates_def same_handed_def lift_outside_def lift_pure_def take_query_def take_request_def
      insert_query_def insert_request_def send_reply_def open_channel_simp split: prod.splits if_splits)

lemma swarm_step_handed:
  assumes "swarm_step beh env lp inp n = (r, n')" "\<And>cmd. inp = Instruction (Some cmd) \<Longrightarrow> resp_of cmd \<noteq> resp"
  shows "handed n' resp = handed n resp"
proof -
  have "relates (same_handed resp) (swarm_step beh env lp inp)"
  proof (cases inp)
    case (Instruction cmd)
    with assms(2) show ?thesis
      by (auto simp: swarm_step_def handle_controller_event_def controller_handlers
          intro!: hand.rel_compose same_handed_basic split: option.split command_to_swarm.split)
  next
    case (Event ev)
    have q: "relates (same_handed resp) (handle_get_record lp m j)" "relates (same_handed resp) (handle_put_record m1 j)"
      "relates (same_handed resp) (handle_get_providers m2 j)" "relates (same_handed resp) (handle_get_closest_peers m3 j)"
      "relates (same_handed resp) (handle_start_providing m4 j)" "relates (same_handed resp) (handle_reqres_message_response a j)"
      "relates (same_handed resp) (handle_inbound_failure p j e)" "relates (same_handed resp) (handle_outbound_failure p j e)"
      for m m1 m2 m3 m4 j a p e
      unfolding event_handlers Let_def
      by (auto intro!: hand.rel_compose same_handed_basic
          split: option.split query_response.split sum.split get_record_ok.split get_providers_ok.split)
    have "relates (same_handed resp) (handle_reqres_message_request beh env request channel)" for request channel
      unfolding handle_reqres_message_request_def
      by (auto intro!: hand.rel_compose same_handed_basic split: sum.split option.split)
    with q Event show ?thesis
      by (auto simp: swarm_step_def handle_swarm_event_def handle_response_sent_def intro!: hand.rel_compose same_handed_basic
          split: swarm_event.split wire_event.split kademlia_event.split query_result.split reqres_event.split)
  qed (auto simp: swarm_step_def relates_def same_handed_def)
  from relatesD [OF this assms(1)] show ?thesis by (simp add: same_handed_def)
qed

text \<open>
  The entry that the handler of a command makes in the world \<open>w\<close>: the id is the one the network behaviour issues there for what the command asks.
\<close>

inductive entered :: "'w behaviour \<Rightarrow> 'w storage_env \<Rightarrow> 'w \<Rightarrow> command_to_swarm \<Rightarrow> query_id + request_id \<Rightarrow> query_response \<Rightarrow> bool"
  for beh env w where
  get: "kad_get_record beh (as_bytes key) w = (i, w') \<Longrightarrow> entered beh env w (CmdGet key resp) (Inl i) (QGet c)"
| put: "kad_put_record beh (store_put (storage_put env) swarm_store_config) (new_record (as_bytes key) value) w = (Ok (Inr i), w') \<Longrightarrow>
    entered beh env w (CmdPutLocal key value resp) (Inl i) (QPut c)"
| put_to: "kad_put_record_to beh (new_record (as_bytes key) value) remotes w = (i, w') \<Longrightarrow>
    entered beh env w (CmdPutRemote key value remotes resp) (Inl i) (QPutTo c)"
| providing: "kad_start_providing beh store_add_provider (as_bytes key) w = (Ok (Inr i), w') \<Longrightarrow>
    entered beh env w (CmdStartProviding key resp) (Inl i) (QStartProviding c)"
| providers: "kad_get_providers beh (as_bytes key) w = (i, w') \<Longrightarrow> entered beh env w (CmdGetProviders key resp) (Inl i) (QGetProviders c)"
| peers: "kad_get_closest_peers beh (uuid_as_bytes beh u) w = (i, w') \<Longrightarrow>
    entered beh env w (CmdGetClosestPeers u resp) (Inl i) (QGetClosestPeers c)"
| verification: "rr_send_request beh peer \<lparr>vq_file_name = file, vq_challenge_vector = challenge\<rparr> w = (i, w') \<Longrightarrow>
    entered beh env w (CmdRequestVerification peer file challenge resp) (Inr i) (QVerificationRequest c)"

inductive_cases entered_cases:
  "entered beh env w (CmdGet key resp) s q" "entered beh env w (CmdPutLocal key value resp) s q"
  "entered beh env w (CmdPutRemote key value remotes resp) s q" "entered beh env w (CmdStartProviding key resp) s q"
  "entered beh env w (CmdGetProviders key resp) s q" "entered beh env w (CmdGetClosestPeers u resp) s q"
  "entered beh env w (CmdRequestVerification peer file challenge resp) s q"

inductive_cases answered_by_cases:
  "answered_by lp inp s (QGet c) x" "answered_by lp inp s (QPut c) x" "answered_by lp inp s (QPutTo c) x"
  "answered_by lp inp s (QGetProviders c) x" "answered_by lp inp s (QGetClosestPeers c) x"
  "answered_by lp inp s (QStartProviding c) x" "answered_by lp inp s (QVerificationRequest c) x"

text \<open>After the channel is opened, the rest of a handler leaves the tables alone or makes the entry of the command for it.\<close>

definition enters :: "('w \<Rightarrow> query_id + request_id \<Rightarrow> query_response \<Rightarrow> bool) \<Rightarrow> ('w node, unit) action \<Rightarrow> bool" where
  "enters E m \<longleftrightarrow> (\<forall>n r n'. m n = (r, n') \<longrightarrow> handed n' = handed n \<and> next_chan n' = next_chan n \<and> replies n' = replies n \<and>
     (slots n' = slots n \<or> (\<exists>s q. E (outside n) s q \<and> slots n' = (slots n)(s \<mapsto> q))))"

lemma enters_bind:
  assumes "outside_only m" "\<And>n x n'. m n = (Ok x, n') \<Longrightarrow> enters (\<lambda>_. E (outside n)) (f x)"
  shows "enters E (act_bind m f)"
  unfolding enters_def
proof (intro allI impI)
  fix n r n' assume b: "act_bind m f n = (r, n')"
  obtain q v where m: "m n = (q, v)" by (cases "m n")
  obtain w where v: "v = n\<lparr>outside := w\<rparr>" using relatesD [OF assms(1) m] by (auto simp: outside_change_def)
  have "n' = v \<or> (\<exists>x. q = Ok x \<and> f x v = (r, n'))" using b m by (cases q) (auto simp: act_bind_def)
  then show "handed n' = handed n \<and> next_chan n' = next_chan n \<and> replies n' = replies n \<and>
     (slots n' = slots n \<or> (\<exists>s q. E (outside n) s q \<and> slots n' = (slots n)(s \<mapsto> q)))"
    using assms(2) [of n _ v] m v unfolding enters_def by fastforce
qed

lemma enters_insert:
  "(\<And>w. E w (Inl i) q) \<Longrightarrow> enters E (insert_query i q)" "(\<And>w. E w (Inr i) q) \<Longrightarrow> enters E (insert_request i q)"
  by (auto simp: enters_def insert_query_def insert_request_def)

lemma lifted_Ok:
  "lift_pure f n = (Ok x, n') \<Longrightarrow> f (outside n) = (x, outside n')"
  "lift_outside m n = (Ok x, n') \<Longrightarrow> m (outside n) = (Ok x, outside n')"
  "act_result e res n = (Ok x, n') \<Longrightarrow> res = Inr x"
  by (auto simp: lift_pure_def lift_outside_def act_result_def act_simps split: prod.splits sum.splits)

lemma command_enters:
  "\<exists>f. swarm_step beh env lp (Instruction (Some cmd)) = act_bind (open_channel (resp_of cmd)) f \<and> (\<forall>c. enters (\<lambda>w. entered beh env w cmd) (f c))"
  by (cases cmd)
     (auto simp: swarm_step_def handle_controller_event_def controller_handlers
        intro!: enters_bind enters_insert outside_only_lift frame.rel_result dest!: lifted_Ok intro: entered.intros)

lemma command_owner:
  assumes "node_inv n" "swarm_step beh env lp (Instruction (Some cmd)) n = (r, n')"
  shows "handed n' = handed n \<or> (handed n' = (handed n)(resp_of cmd \<mapsto> next_chan n) \<and>
    owner (next_chan n) (entered beh env (outside n) cmd) n' \<and> replies n' (next_chan n) = None)"
proof -
  let ?c = "next_chan n"
  define n1 where "n1 = n\<lparr>next_chan := ?c + 1, handed := (handed n)(resp_of cmd \<mapsto> ?c)\<rparr>"
  obtain f where f: "swarm_step beh env lp (Instruction (Some cmd)) = act_bind (open_channel (resp_of cmd)) f"
    "\<And>c. enters (\<lambda>w. entered beh env w cmd) (f c)" using command_enters by metis
  have "n' = n\<lparr>next_chan := ?c + 1\<rparr> \<or> f ?c n1 = (r, n')"
    using assms(2) f(1) by (auto simp: act_bind_def open_channel_simp n1_def split: if_splits)
  moreover have "sender q \<noteq> ?c" if "slots n s = Some q" for s q using node_invD(1) [OF assms(1) that] by simp
  moreover have "replies n ?c = None" using node_invD(4) [OF assms(1), of ?c] by (cases "replies n ?c") auto
  ultimately show ?thesis
    using f(2) [of ?c, unfolded enters_def, rule_format, of n1 r n'] by (auto simp: n1_def owner_def split: if_splits)
qed

section \<open>Waiting\<close>

lemma sys_advance_node:
  "sys_node (sys_advance beh env lp i s) = (case sys_input s i of None \<Rightarrow> sys_node s
     | Some inp \<Rightarrow> snd (swarm_step beh env lp inp (sys_node s)))"
  by (auto simp: sys_advance_def split: option.split prod.split)

lemma sys_advance_mailbox: "set (mailbox (sys_advance beh env lp i s)) \<subseteq> set (mailbox s)"
  by (cases "mailbox s") (auto simp: sys_advance_def split: option.splits prod.splits)

lemma swarm_step_inv: "node_inv n \<Longrightarrow> node_inv (snd (swarm_step beh env lp inp n))"
  by (rule keeps_inv [OF preservesD [OF swarm_step_preserves _ prod.collapse [symmetric]]])

lemma sys_advance_inv: "node_inv (sys_node s) \<Longrightarrow> node_inv (sys_node (sys_advance beh env lp i s))"
  by (simp add: sys_advance_node swarm_step_inv split: option.split)

text \<open>The channel of a command is used by no other command.\<close>

definition only_use :: "(chan \<Rightarrow> command_to_swarm) \<Rightarrow> chan \<Rightarrow> command_to_swarm list \<Rightarrow> script_item list \<Rightarrow> bool" where
  "only_use mine resp cmds items \<longleftrightarrow> (\<forall>cmd \<in> set cmds. resp_of cmd = resp \<longrightarrow> cmd = mine resp) \<and>
     (\<forall>cmd. Other (Instruction (Some cmd)) \<in> set items \<longrightarrow> resp_of cmd \<noteq> resp)"

lemma sys_input_cases:
  assumes "sys_input s i = Some inp"
  shows "(i = NextCommand \<and> (\<exists>cmd \<in> set (mailbox s). inp = Instruction (Some cmd))) \<or> i = Other inp"
  using assms by (auto simp: sys_input_def split: script_item.splits list.splits)

text \<open>
  A caller sends its command; \<open>taken_after\<close> says that the loop takes it out of the mailbox right after the items \<open>pre\<close> of the script. The world at
  this time is \<open>world_after\<close>.
\<close>

definition sent :: "command_to_swarm \<Rightarrow> 'w system \<Rightarrow> 'w system" where
  "sent cmd s = s\<lparr>next_resp := next_resp s + 1, mailbox := mailbox s @ [cmd]\<rparr>"

definition world_after :: "'w behaviour \<Rightarrow> 'w storage_env \<Rightarrow> peer_id \<Rightarrow> script_item list \<Rightarrow> 'w system \<Rightarrow> 'w" where
  "world_after beh env lp pre s = outside (sys_node (fold (sys_advance beh env lp) pre s))"

definition taken_after :: "'w behaviour \<Rightarrow> 'w storage_env \<Rightarrow> peer_id \<Rightarrow> script_item list \<Rightarrow> command_to_swarm \<Rightarrow> 'w system \<Rightarrow> bool" where
  "taken_after beh env lp pre cmd s \<longleftrightarrow> (\<exists>cmds. mailbox (fold (sys_advance beh env lp) pre s) = cmd # cmds)"

lemma await_receiver:
  assumes "sys_await beh env lp (\<lambda>n. handed n resp) rest s = (Some c, s')"
    and "node_inv (sys_node s)" "handed (sys_node s) resp = None" "only_use mine resp (mailbox s) rest"
  shows "\<exists>pre. rest = pre @ NextCommand # script s' \<and> taken_after beh env lp pre (mine resp) s \<and>
    owner c (entered beh env (world_after beh env lp pre s) (mine resp)) (sys_node s') \<and> replies (sys_node s') c = None"
  using assms
proof (induction rest arbitrary: s)
  case Nil
  then show ?case by (simp add: sys_await.simps split: if_splits)
next
  case (Cons i rest)
  define s1 where "s1 = sys_advance beh env lp i s"
  have run: "sys_await beh env lp (\<lambda>n. handed n resp) rest s1 = (Some c, s')"
    using Cons.prems(1,3) by (subst (asm) sys_await.simps) (simp add: s1_def split: if_splits)
  have inv: "node_inv (sys_node s1)" unfolding s1_def by (rule sys_advance_inv) (rule Cons.prems(2))
  have use1: "only_use mine resp (mailbox s1) rest"
    using Cons.prems(4) sys_advance_mailbox [of beh env lp i s] by (auto simp: only_use_def s1_def)
  show ?case
  proof (cases "handed (sys_node s1) resp")
    case None
    from Cons.IH [OF run inv None use1] obtain pre where "rest = pre @ NextCommand # script s'" "taken_after beh env lp pre (mine resp) s1"
      "owner c (entered beh env (world_after beh env lp pre s1) (mine resp)) (sys_node s')" "replies (sys_node s') c = None" by blast
    then show ?thesis by (intro exI [of _ "i # pre"]) (simp add: s1_def taken_after_def world_after_def)
  next
    case (Some d)
    then obtain inp where inp: "sys_input s i = Some inp"
      using Cons.prems(3) by (auto simp: s1_def sys_advance_node split: option.splits)
    obtain r n' where st: "swarm_step beh env lp inp (sys_node s) = (r, n')" by (cases "swarm_step beh env lp inp (sys_node s)")
    have n': "sys_node s1 = n'" using st inp by (simp add: s1_def sys_advance_node)
    obtain cmd where cmd: "inp = Instruction (Some cmd)" "resp_of cmd = resp"
      using swarm_step_handed [OF st, of resp] Cons.prems(3) Some n' by auto
    then have m: "i = NextCommand" "cmd = mine resp" using sys_input_cases [OF inp] Cons.prems(4) by (auto simp: only_use_def)
    then have "taken_after beh env lp [] (mine resp) s" using inp cmd(1) by (auto simp: taken_after_def sys_input_def split: list.splits)
    moreover have "owner d (entered beh env (world_after beh env lp [] s) (mine resp)) n'" "replies n' d = None"
      using command_owner [OF Cons.prems(2) st [unfolded cmd(1)]] cmd(2) Some n' Cons.prems(3) m(2) by (auto simp: world_after_def)
    moreover have "c = d" "s' = s1\<lparr>script := rest\<rparr>"
      using run Some by (simp_all add: sys_await.simps [of _ _ _ _ rest s1])
    ultimately show ?thesis using n' m(1) by (intro exI [of _ "[]"]) auto
  qed
qed

lemma await_result:
  assumes "sys_await beh env lp (\<lambda>n. replies n c) rest s = (Some x, s')"
    and "owner c E (sys_node s)" "replies (sys_node s) c = None"
  shows "\<exists>mid inp post i q. rest = mid @ Other inp # post \<and> E i q \<and> answered_by lp inp i q x"
  using assms
proof (induction rest arbitrary: s)
  case Nil
  then show ?case by (simp add: sys_await.simps split: if_splits)
next
  case (Cons item rest)
  define s1 where "s1 = sys_advance beh env lp item s"
  have run: "sys_await beh env lp (\<lambda>n. replies n c) rest s1 = (Some x, s')"
    using Cons.prems(1,3) by (subst (asm) sys_await.simps) (simp add: s1_def split: if_splits)
  show ?case
  proof (cases "sys_input s item")
    case None
    then have "sys_node s1 = sys_node s" by (simp add: s1_def sys_advance_node)
    with Cons.IH [OF run] Cons.prems(2,3) show ?thesis by (metis append_Cons)
  next
    case (Some inp)
    obtain r n' where st: "swarm_step beh env lp inp (sys_node s) = (r, n')" by (cases "swarm_step beh env lp inp (sys_node s)")
    have n': "sys_node s1 = n'" using st Some by (simp add: s1_def sys_advance_node)
    from swarm_step_owner [OF Cons.prems(2) st] consider "owner c E n'" "replies n' c = None"
      | i q y where "E i q" "answered_by lp inp i q y" "replies n' c = Some y"
      using Cons.prems(3) by auto
    then show ?thesis
    proof cases
      case 1
      with Cons.IH [OF run] n' show ?thesis by (metis append_Cons)
    next
      case 2
      then have "item = Other inp" using sys_input_cases [OF Some] by (auto elim: answered_by.cases)
      moreover have "x = y" using run 2(3) n' by (simp add: sys_await.simps [of _ _ _ _ rest s1])
      ultimately show ?thesis using 2(1,2) by (metis append_Nil)
    qed
  qed
qed

section \<open>Every operation gets its own answer\<close>

text \<open>A caller with a channel of its own: no command in the mailbox or yet to come uses it.\<close>

definition own_channel :: "'w system \<Rightarrow> bool" where
  "own_channel s \<longleftrightarrow> handed (sys_node s) (next_resp s) = None \<and> (\<forall>cmd \<in> set (mailbox s). resp_of cmd \<noteq> next_resp s) \<and>
     (\<forall>cmd. Other (Instruction (Some cmd)) \<in> set (script s) \<longrightarrow> resp_of cmd \<noteq> next_resp s)"

text \<open>
  What an operation waits for is an error, or the answer that an event of the script gives to the entry of its own command,
  after that command was taken.
\<close>

lemma send_and_wait_own:
  assumes "node_inv (sys_node s)" "own_channel s" "send_and_wait (system_link beh env lp) mine s = (r, s')"
    and cmd: "cmd = mine (next_resp s)"
  shows "(\<exists>e. r = Err e) \<or> (\<exists>x pre mid inp post i q. r = Ok x \<and> script s = pre @ NextCommand # mid @ Other inp # post \<and>
    taken_after beh env lp pre cmd (sent cmd s) \<and>
    entered beh env (world_after beh env lp pre (sent cmd s)) cmd i q \<and> answered_by lp inp i q x)"
proof -
  define resp where "resp = next_resp s"
  define s1 where "s1 = sent cmd s"
  have s1: "sys_node s1 = sys_node s" "script s1 = script s" by (simp_all add: s1_def sent_def)
  have use1: "only_use mine resp (mailbox s1) (script s)"
    using assms(2) by (auto simp: only_use_def s1_def sent_def resp_def own_channel_def cmd)
  from assms(3) consider e where "r = Err e"
    | c s2 x s3 where "sys_await beh env lp (\<lambda>n. handed n resp) (script s) s1 = (Some c, s2)"
      "sys_await beh env lp (\<lambda>n. replies n c) (script s2) s2 = (Some x, s3)" "r = Ok x"
    by (auto simp: send_and_wait_def link_call_def system_link_def act_simps act_bind_def resp_def s1_def sent_def cmd
        split: if_splits prod.splits option.splits)
  then show ?thesis
  proof cases
    case 2
    obtain pre where o: "script s = pre @ NextCommand # script s2" "taken_after beh env lp pre cmd s1"
      "owner c (entered beh env (world_after beh env lp pre s1) cmd) (sys_node s2)" "replies (sys_node s2) c = None"
      using await_receiver [OF 2(1) _ _ use1] assms(1,2) s1 by (auto simp: own_channel_def resp_def cmd)
    from await_result [OF 2(2) o(3,4)] o(1,2) 2(3) show ?thesis unfolding s1_def by metis
  qed blast
qed

text \<open>
  C6: A caller that asks the controller for a file gets the answer to its own query: the content
  returned is the record that Kademlia reported, after the swarm took the command, under the id it issued for the key at that time, whatever other
  commands and events the swarm handles in between.
\<close>

theorem controller_get_own_answer:
  assumes "reachable beh env lp allowed w0 (sys_node s)" "own_channel s"
    and "controller_get (system_link beh env lp) key s = (Ok q, s')"
  shows "\<exists>pre mid i w' r peer post. script s = pre @ NextCommand # mid @ Other (progressed (GetRecord (Inr (FoundRecord r peer))) i) # post
    \<and> taken_after beh env lp pre (CmdGet key (next_resp s)) (sent (CmdGet key (next_resp s)) s)
    \<and> kad_get_record beh (as_bytes key) (world_after beh env lp pre (sent (CmdGet key (next_resp s)) s)) = (i, w')
    \<and> qg_file q = rec_value r \<and> qg_origin_peer_id q = (case peer of Some p \<Rightarrow> p | None \<Rightarrow> lp)"
proof -
  from assms(3) obtain x s1 where w: "send_and_wait (system_link beh env lp) (CmdGet key) s = (Ok x, s1)" and x: "x = ReplyGet (Inr q)"
    by (auto simp: controller_get_def act_result_def act_simps elim!: act_bind_OkE split: reply.splits sum.splits)
  from send_and_wait_own [OF reachable_inv [OF assms(1)] assms(2) w refl] x obtain pre mid inp post i p where
    o: "script s = pre @ NextCommand # mid @ Other inp # post" "taken_after beh env lp pre (CmdGet key (next_resp s)) (sent (CmdGet key (next_resp s)) s)"
    "entered beh env (world_after beh env lp pre (sent (CmdGet key (next_resp s)) s)) (CmdGet key (next_resp s)) i p"
    "answered_by lp inp i p (ReplyGet (Inr q))" by auto
  from o(3,4) obtain j w' r peer where
    "kad_get_record beh (as_bytes key) (world_after beh env lp pre (sent (CmdGet key (next_resp s)) s)) = (j, w')"
    "inp = progressed (GetRecord (Inr (FoundRecord r peer))) j" "qg_file q = rec_value r"
    "qg_origin_peer_id q = (case peer of Some p \<Rightarrow> p | None \<Rightarrow> lp)"
    by (auto simp: record_answer_def elim!: entered_cases answered_by_cases split: sum.splits get_record_ok.splits)
  with o(1,2) show ?thesis by blast
qed

text \<open>A node that is asked for a file while it handles a request of its own and a late result.\<close>

definition sample_system :: "fs_world system" where
  "sample_system = \<lparr>sys_node = new_node sample_world, mailbox = [],
     script = [Other (Instruction (Some (CmdGet ''other'' 77))), NextCommand,
       Other (progressed (GetRecord (Inr (FoundRecord (new_record [9] [4]) None))) 5),
       Other (progressed (GetRecord (Inr (FoundRecord (new_record (as_bytes ''k'') [1, 2]) (Some (PeerId [3]))))) 6)],
     running = True, next_resp = 0\<rparr>"

lemma sample_own_channel: "own_channel sample_system"
  by (auto simp: own_channel_def sample_system_def new_node_def)

theorem controller_get_own_answer_witness:
  "\<exists>q s'. controller_get (system_link mem_behaviour mem_env (PeerId [])) ''k'' sample_system = (Ok q, s')
     \<and> (\<exists>pre mid i w' r peer post. script sample_system = pre @ NextCommand # mid @ Other (progressed (GetRecord (Inr (FoundRecord r peer))) i) # post
        \<and> kad_get_record mem_behaviour (as_bytes ''k'') (world_after mem_behaviour mem_env (PeerId []) pre (sent (CmdGet ''k'' 0) sample_system)) = (i, w')
        \<and> qg_file q = rec_value r)"
proof -
  define p where "p = controller_get (system_link mem_behaviour mem_env (PeerId [])) ''k'' sample_system"
  have "is_ok (fst p)" unfolding p_def by code_simp
  then obtain q where p: "p = (Ok q, snd p)" using is_ok_pair by blast
  have "reachable mem_behaviour mem_env (PeerId []) (\<lambda>_ _. True) sample_world (sys_node sample_system)"
    using reachable.start by (simp add: sample_system_def)
  moreover have "next_resp sample_system = 0" by (simp add: sample_system_def)
  ultimately show ?thesis
    using controller_get_own_answer [OF _ sample_own_channel p [unfolded p_def]] p unfolding p_def by metis
qed

end
