(* ===== verification/Typed_Replies.thy ===== *)
theory Typed_Replies
  imports Caller
begin

text \<open>
  The channels of the source are typed by the result they carry; in the model a result is a value of \<open>reply\<close>, and an operation of the
  controller that gets a result of another type panics. This theory shows that it never does: the swarm answers every
  command with a result of the type of the command, so the model has no panic that the source does not have.
\<close>

section \<open>Types of results\<close>

datatype result_type = UnitResult | GetResult | ProvidersResult | PeersResult | VerificationResult

primrec reply_type :: "reply \<Rightarrow> result_type" where
  "reply_type (ReplyUnit _) = UnitResult"
| "reply_type (ReplyGet _) = GetResult"
| "reply_type (ReplyProviders _) = ProvidersResult"
| "reply_type (ReplyPeers _) = PeersResult"
| "reply_type (ReplyVerification _) = VerificationResult"

primrec command_type :: "command_to_swarm \<Rightarrow> result_type" where
  "command_type (CmdGet _ _) = GetResult"
| "command_type (CmdPutLocal _ _ _) = UnitResult"
| "command_type (CmdPutRemote _ _ _ _) = UnitResult"
| "command_type (CmdStartProviding _ _) = UnitResult"
| "command_type (CmdGetProviders _ _) = ProvidersResult"
| "command_type (CmdGetClosestPeers _ _) = PeersResult"
| "command_type (CmdRequestVerification _ _ _ _) = VerificationResult"

section \<open>No operation of the controller panics\<close>

lemma answer_typed: "entered beh env w cmd s q \<Longrightarrow> answered_by lp inp s q x \<Longrightarrow> reply_type x = command_type cmd"
  by (cases rule: entered.cases, assumption) (auto elim!: answered_by_cases)

lemma send_and_wait_typed:
  assumes "node_inv (sys_node s)" "own_channel s" "send_and_wait (system_link beh env lp) mine s = (r, s')"
  shows "(\<exists>e. r = Err e) \<or> (\<exists>x. r = Ok x \<and> reply_type x = command_type (mine (next_resp s)))"
  using send_and_wait_own [OF assms refl] answer_typed by metis

lemma typed_operation:
  assumes "node_inv (sys_node s)" "own_channel s"
    and "\<And>x t. reply_type x = command_type (mine (next_resp s)) \<Longrightarrow> fst (k x t) \<noteq> Panic"
  shows "fst (act_bind (send_and_wait (system_link beh env lp) mine) k s) \<noteq> Panic"
proof -
  obtain r s' where w: "send_and_wait (system_link beh env lp) mine s = (r, s')" by (cases "send_and_wait (system_link beh env lp) mine s")
  from send_and_wait_typed [OF assms(1,2) w] w assms(3) show ?thesis by (auto simp: act_bind_def)
qed

lemma reply_continuations:
  "reply_type x = UnitResult \<Longrightarrow> fst (unit_result x t) \<noteq> Panic"
  "reply_type x = GetResult \<Longrightarrow> fst ((case x of ReplyGet y \<Rightarrow> act_result (\<lambda>e. e) y | _ \<Rightarrow> act_panic) t) \<noteq> Panic"
  "reply_type x = ProvidersResult \<Longrightarrow> fst ((case x of ReplyProviders y \<Rightarrow> act_result (\<lambda>e. e) y | _ \<Rightarrow> act_panic) t) \<noteq> Panic"
  "reply_type x = PeersResult \<Longrightarrow> fst ((case x of ReplyPeers y \<Rightarrow> act_result (\<lambda>e. e) y | _ \<Rightarrow> act_panic) t) \<noteq> Panic"
  "reply_type x = VerificationResult \<Longrightarrow> fst ((case x of
     ReplyVerification y \<Rightarrow> act_bind (act_result (\<lambda>e. e) y) (\<lambda>resp. act_return (vr_response_vector resp)) | _ \<Rightarrow> act_panic) t) \<noteq> Panic"
  by (cases x; auto simp: unit_result_def act_result_def act_simps act_bind_def split: sum.split)+

text \<open>
  Whatever the swarm is doing, an operation of the controller with a channel of its own gets a result of its own
  type or an error. It never gets the result of another operation, on which the model of the untyped channels would panic.
\<close>

lemma controller_type_safe:
  assumes "reachable beh env lp allowed w0 (sys_node s)" "own_channel s"
  shows "fst (controller_put (system_link beh env lp) key value s) \<noteq> Panic \<and>
    fst (controller_put_to (system_link beh env lp) key value peers s) \<noteq> Panic \<and>
    fst (controller_start_providing (system_link beh env lp) key s) \<noteq> Panic \<and>
    fst (controller_get (system_link beh env lp) key s) \<noteq> Panic \<and>
    fst (controller_get_providers (system_link beh env lp) key s) \<noteq> Panic \<and>
    fst (controller_get_closest_peers (system_link beh env lp) uuid s) \<noteq> Panic \<and>
    fst (controller_request_verification (system_link beh env lp) peer file challenge s) \<noteq> Panic"
  unfolding controller_put_def controller_put_to_def controller_start_providing_def controller_get_def
    controller_get_providers_def controller_get_closest_peers_def controller_request_verification_def
  by (intro conjI; rule typed_operation [OF reachable_inv [OF assms(1)] assms(2)]; simp add: reply_continuations)

end
