(* ===== verification/Keeper.thy ===== *)
theory Keeper
  imports Grpc_Spec Typed_Replies
begin

text \<open>
  The keeper's side of an audit, and the audit over the network: what a peer answers to a challenge from the record that Kademlia stored
  on it or after it lost the file, and that this answer reaches the caller of the challenger's controller. Challenger and keeper are two
  nodes with behaviours and worlds of their own.
\<close>

section \<open>Rounds\<close>

lemma run_auditE:
  assumes "run_audit bs kept = Some b"
  obtains cc sc ch resp where "client_from_file bs = Some cc" "server_from_file kept = Some sc"
    "make_challenge_vector cc = Some ch" "fulfill_challenge sc ch = Some resp" "audit cc ch resp = Some b"
  using assms by (auto simp: run_audit_def split: bind_splits)

lemma abc_accepted: "run_audit abc abc = Some True"
proof -
  have l: "length abc \<le> 7" "0 < length abc" "length abc \<le> 2 ^ 30" by (simp_all add: abc_def)
  have d: "dims (length abc) = Some (56, 1)" using dims_small(1) [of "length abc"] by (simp add: abc_def)
  from honest_run_audit [OF l(2,3) d vectors_1] obtain b where b: "run_audit abc abc = Some b" and
    "bilinear abc 56 (map word_of_int (take 1 samples_2020)) (map word_of_int (take 56 samples_20)) mod p57 \<noteq> 0 \<longrightarrow> b"
    by auto
  then have b by (subst (asm) bilinear_head [OF l(1)]) (simp_all add: chunk_def samples_2020_def samples_20_def abc_def)
  with b show ?thesis by simp
qed

section \<open>The keeper's side\<close>

text \<open>What the keeper does with a response.\<close>

definition send_verification :: "'w behaviour \<Rightarrow> response_channel \<Rightarrow> string \<Rightarrow> u64 list \<Rightarrow> ('w node, unit) action" where
  "send_verification beh channel name response =
     act_bind (lift_pure (rr_send_response beh channel \<lparr>vr_file_name = name, vr_response_vector = response\<rparr>))
       (\<lambda>sent. if sent then act_return () else act_fail SwarmReqResSendResponseError)"

lemma stored_record_read:
  assumes "storage_ok env" "store_put (storage_put env) cfg rc w = (Ok (Inr ()), w1)"
    and "storage_get env (byte_string (rec_key rc)) w1 = (Ok rc', w2)"
  shows "rec_value rc' = rec_value rc"
proof -
  have put: "storage_put env rc w = (Ok (), w1)"
    using assms(2) by (auto simp: store_put_def act_spawn_def act_simps split: if_splits prod.splits outcome.splits)
  then have "from_utf8 (rec_key rc) = Some (byte_string (rec_key rc))"
    using storage_put_utf8 by (simp add: from_utf8_def)
  from storage_get_after_put [OF assms(1) put this assms(3)] show ?thesis by (simp add: same_content_def)
qed

text \<open>
  C12: A keeper answers a challenge from the record that Kademlia stored on it: the response it sends gets the verdict
  of an audit of the challenger's file against that record, provided that the stored document can be read.
\<close>

theorem keeper_answers_from_record_store:
  assumes "storage_ok env" "store_put (storage_put env) cfg rc w = (Ok (Inr ()), outside n)"
    and "storage_get env (byte_string (rec_key rc)) (outside n) = (Ok rc', w2)"
    and "client_from_file bs = Some cc" "make_challenge_vector cc = Some ch" "run_audit bs (rec_value rc) = Some b"
  shows "\<exists>response. audit cc ch response = Some b
    \<and> handle_reqres_message_request beh env \<lparr>vq_file_name = byte_string (rec_key rc), vq_challenge_vector = ch\<rparr> channel n
      = send_verification beh channel (byte_string (rec_key rc)) response (n\<lparr>outside := w2\<rparr>)"
proof -
  have v: "rec_value rc' = rec_value rc" by (rule stored_record_read [OF assms(1-3)])
  from assms(4-6) obtain sc response where r: "server_from_file (rec_value rc) = Some sc" "fulfill_challenge sc ch = Some response"
    "audit cc ch response = Some b" by (auto elim!: run_auditE)
  have "handle_reqres_message_request beh env \<lparr>vq_file_name = byte_string (rec_key rc), vq_challenge_vector = ch\<rparr> channel n
      = send_verification beh channel (byte_string (rec_key rc)) response (n\<lparr>outside := w2\<rparr>)"
    using assms(3) v r(1,2)
    by (simp add: handle_reqres_message_request_def send_verification_def lift_outside_def act_try_def act_bind_def act_simps)
  with r(3) show ?thesis by blast
qed

lemma storage_get_removed:
  assumes "storage_ok env" "storage_remove env (object_path env name) w = (Ok (), w1)"
  shows "\<exists>e w2. storage_get env name w1 = (Err e, w2)"
proof -
  obtain content where c: "fs_ok env content" using assms(1) by (auto simp: storage_ok_def)
  have "fs_delete env (object_path env name) w = (Inr (), w1)"
    using assms(2) unfolding storage_remove_def by (cases rule: io_call_cases) auto
  with c have "content w1 = (content w)(object_path env name := None)" unfolding fs_ok_def by fastforce
  then have none: "content w1 (object_path env name) = None" by simp
  obtain q v where g: "fs_get env (object_path env name) w1 = (q, v)" by (cases "fs_get env (object_path env name) w1")
  show ?thesis
  proof (cases q)
    case (Inl e)
    with g show ?thesis by (simp add: storage_get_def io_call_def act_bind_def act_simps)
  next
    case (Inr stream)
    have "collect_stream stream \<noteq> Inr chunks" for chunks
      using c g Inr none unfolding fs_ok_def by (metis option.distinct(1))
    then obtain e where "collect_stream stream = Inl e" by (cases "collect_stream stream") auto
    with g Inr show ?thesis by (simp add: storage_get_def io_call_def act_bind_def act_simps)
  qed
qed

lemma audit_empty_response: "cc_cols cc \<noteq> 0 \<Longrightarrow> audit cc ch [] = Some False"
  by (auto simp: audit_def)

text \<open>
  C13: A keeper that deleted a file never passes an audit of it: every audit fails on the empty response, and the empty response is what the keeper sends
  to every challenge on the file, whether the deletion was noted, as the malicious loop does, or not; the note is removed. In one case it sends nothing: when
  the deletion was noted with a time later than that of the clock, the handler panics.
\<close>

theorem deleted_file_fails_audit:
  assumes "storage_ok env" "storage_remove env (object_path env name) w = (Ok (), outside n)"
    and "client_from_file bs = Some cc" "length bs \<le> 2 ^ 30"
  shows "audit cc ch [] = Some False
    \<and> (\<exists>n' e w2. storage_get env name (outside n) = (Err e, w2)
        \<and> n' = n\<lparr>outside := w2, deleted_files := (deleted_files n)(name := None)\<rparr> \<and>
        handle_reqres_message_request beh env \<lparr>vq_file_name = name, vq_challenge_vector = ch\<rparr> channel n =
        (case deleted_files n name of
           None \<Rightarrow> send_verification beh channel name [] n'
         | Some noted \<Rightarrow> (case system_time beh w2 of (now, w3) \<Rightarrow>
             if now < noted then (Panic, n'\<lparr>outside := w3\<rparr>) else send_verification beh channel name [] (n'\<lparr>outside := w3\<rparr>))))"
proof
  have d: "dims (length bs) = Some (cc_rows cc, cc_cols cc)" "0 < length bs"
    using assms(3) by (auto simp: client_from_file_def dims_def checked_sub_def Let_def split: bind_splits if_splits)
  from dims_ok [OF d(2) assms(4)] d(1) have "0 < cc_cols cc" by (metis option.inject prod.inject)
  then show "audit cc ch [] = Some False" by (simp add: audit_empty_response)
  obtain e w2 where g: "storage_get env name (outside n) = (Err e, w2)"
    using storage_get_removed [OF assms(1,2)] by blast
  show "\<exists>n' e w2. storage_get env name (outside n) = (Err e, w2)
        \<and> n' = n\<lparr>outside := w2, deleted_files := (deleted_files n)(name := None)\<rparr> \<and>
        handle_reqres_message_request beh env \<lparr>vq_file_name = name, vq_challenge_vector = ch\<rparr> channel n =
        (case deleted_files n name of
           None \<Rightarrow> send_verification beh channel name [] n'
         | Some noted \<Rightarrow> (case system_time beh w2 of (now, w3) \<Rightarrow>
             if now < noted then (Panic, n'\<lparr>outside := w3\<rparr>) else send_verification beh channel name [] (n'\<lparr>outside := w3\<rparr>)))"
    using g by (intro exI [of _ "n\<lparr>outside := w2, deleted_files := (deleted_files n)(name := None)\<rparr>"] exI [of _ e] exI [of _ w2])
      (auto simp: handle_reqres_message_request_def send_verification_def lift_outside_def lift_pure_def act_try_def act_bind_def
        act_simps split: option.splits prod.splits)
qed

definition abc_record :: kad_record where
  "abc_record = new_record (as_bytes ''k'') abc"

definition ten_bytes :: local_store_config where
  "ten_bytes = \<lparr>max_records = 1, max_value_bytes = 10, max_providers_per_key = 1, max_provided_keys = 1\<rparr>"

lemma abc_key: "byte_string (rec_key abc_record) = ''k''"
  by code_simp

lemma abc_stored: "\<exists>w1 rc w2. store_put (storage_put mem_env) ten_bytes abc_record sample_world = (Ok (Inr ()), w1) \<and>
    storage_get mem_env ''k'' w1 = (Ok rc, w2)"
proof -
  define p where "p = store_put (storage_put mem_env) ten_bytes abc_record sample_world"
  define g where "g = storage_get mem_env ''k'' (snd p)"
  have "case fst p of Ok (Inr _) \<Rightarrow> True | _ \<Rightarrow> False" "is_ok (fst g)"
    unfolding g_def p_def by code_simp+
  then obtain w1 rc where "p = (Ok (Inr ()), w1)" "g = (Ok rc, snd g)" using stored_shape [of p] is_ok_pair [of g] by blast
  then show ?thesis unfolding g_def p_def by (metis snd_conv)
qed

theorem keeper_answers_from_record_store_witness:
  "\<exists>w1 cc ch response w2. store_put (storage_put mem_env) ten_bytes abc_record sample_world = (Ok (Inr ()), w1)
     \<and> client_from_file abc = Some cc \<and> audit cc ch response = Some True
     \<and> handle_reqres_message_request mem_behaviour mem_env \<lparr>vq_file_name = ''k'', vq_challenge_vector = ch\<rparr> 0 (new_node w1)
       = send_verification mem_behaviour 0 ''k'' response ((new_node w1)\<lparr>outside := w2\<rparr>)"
proof -
  obtain w1 rc' w2 where p: "store_put (storage_put mem_env) ten_bytes abc_record sample_world = (Ok (Inr ()), w1)"
    and g: "storage_get mem_env ''k'' w1 = (Ok rc', w2)" using abc_stored by blast
  have st: "store_put (storage_put mem_env) ten_bytes abc_record sample_world = (Ok (Inr ()), outside (new_node w1))"
    "storage_get mem_env (byte_string (rec_key abc_record)) (outside (new_node w1)) = (Ok rc', w2)"
    using p g abc_key by (simp_all add: new_node_def)
  have r: "run_audit abc (rec_value abc_record) = Some True" using abc_accepted by (simp add: abc_record_def new_record_def)
  then obtain cc ch where c: "client_from_file abc = Some cc" "make_challenge_vector cc = Some ch" by (auto elim!: run_auditE)
  from keeper_answers_from_record_store [OF mem_env_ok st c r, of mem_behaviour 0] p c(1) show ?thesis
    unfolding abc_key by (auto simp: new_node_def)
qed

theorem deleted_file_fails_audit_witness:
  "\<exists>w1 cc w2. storage_remove mem_env ''k'' (sample_world\<lparr>files := [(''k'', [1])]\<rparr>) = (Ok (), w1)
     \<and> client_from_file abc = Some cc \<and> audit cc [5] [] = Some False
     \<and> handle_reqres_message_request mem_behaviour mem_env \<lparr>vq_file_name = ''k'', vq_challenge_vector = [5]\<rparr> 0
         ((new_node w1)\<lparr>deleted_files := [''k'' \<mapsto> 0]\<rparr>)
       = send_verification mem_behaviour 0 ''k'' [] ((new_node w1)\<lparr>outside := w2\<rparr>)"
proof -
  obtain cc where c: "client_from_file abc = Some cc" using abc_configured ..
  define w1 where "w1 = sample_world\<lparr>files := []\<rparr>"
  define n where "n = (new_node w1)\<lparr>deleted_files := [''k'' \<mapsto> 0]\<rparr>"
  have r: "storage_remove mem_env (object_path mem_env ''k'') (sample_world\<lparr>files := [(''k'', [1])]\<rparr>) = (Ok (), outside n)"
    "object_path mem_env ''k'' = ''k''"
    by (simp_all add: storage_remove_def io_call_def mem_env_def new_node_def w1_def n_def act_simps)
  have l: "length abc \<le> 2 ^ 30" by (simp add: abc_def)
  have t: "system_time mem_behaviour w = (clock w, w)" for w by (simp add: mem_behaviour_def)
  have g: "clock w2 = 5" if "storage_get mem_env ''k'' (outside n) = (Err e, w2)" for e w2
    using that by (simp add: storage_get_def io_call_def mem_env_def n_def new_node_def w1_def sample_world_def act_bind_def act_simps)
      auto
  have e: "n\<lparr>deleted_files := (deleted_files n)(''k'' := None), outside := w2\<rparr> = (new_node w1)\<lparr>outside := w2\<rparr>" for w2
    by (simp add: n_def new_node_def)
  from deleted_file_fails_audit [OF mem_env_ok r(1) c l, of "[5]" mem_behaviour 0] obtain e w2 where
    "audit cc [5] [] = Some False" "storage_get mem_env ''k'' (outside n) = (Err e, w2)"
    and h: "handle_reqres_message_request mem_behaviour mem_env \<lparr>vq_file_name = ''k'', vq_challenge_vector = [5]\<rparr> 0 n =
        (case deleted_files n ''k'' of
           None \<Rightarrow> send_verification mem_behaviour 0 ''k'' [] (n\<lparr>outside := w2, deleted_files := (deleted_files n)(''k'' := None)\<rparr>)
         | Some noted \<Rightarrow> (case system_time mem_behaviour w2 of (now, w3) \<Rightarrow>
             if now < noted then (Panic, n\<lparr>outside := w2, deleted_files := (deleted_files n)(''k'' := None), outside := w3\<rparr>)
             else send_verification mem_behaviour 0 ''k'' [] (n\<lparr>outside := w2, deleted_files := (deleted_files n)(''k'' := None), outside := w3\<rparr>)))"
    by metis
  moreover have "deleted_files n ''k'' = Some 0" "clock w2 = 5" using g calculation(2) by (simp_all add: n_def)
  then have "handle_reqres_message_request mem_behaviour mem_env \<lparr>vq_file_name = ''k'', vq_challenge_vector = [5]\<rparr> 0 n
      = send_verification mem_behaviour 0 ''k'' [] ((new_node w1)\<lparr>outside := w2\<rparr>)"
    unfolding h t by (simp add: e)
  moreover have "storage_remove mem_env ''k'' (sample_world\<lparr>files := [(''k'', [1])]\<rparr>) = (Ok (), w1)"
    using r by (simp add: n_def new_node_def)
  ultimately show ?thesis using c unfolding n_def by blast
qed

section \<open>An audit over the network\<close>

text \<open>The file that a keeper can read under a name.\<close>

definition holds_file :: "'w storage_env \<Rightarrow> string \<Rightarrow> bytes \<Rightarrow> 'w node \<Rightarrow> bool" where
  "holds_file env name kept n \<longleftrightarrow> (\<exists>rc w. storage_get env name (outside n) = (Ok rc, w) \<and> rec_value rc = kept)"

text \<open>
  What a keeper answers to a request: whatever the protocol does with it, the handler ends by sending \<open>a\<close>. This
  determines \<open>a\<close>, since it holds for every protocol.
\<close>

definition sends_response :: "'w behaviour \<Rightarrow> 'w storage_env \<Rightarrow> verification_request \<Rightarrow> response_channel \<Rightarrow> 'w node \<Rightarrow>
    verification_response \<Rightarrow> bool" where
  "sends_response beh env request channel n a \<longleftrightarrow>
     (\<forall>f. \<exists>n'. handle_reqres_message_request (beh\<lparr>rr_send_response := f\<rparr>) env request channel n =
        send_verification (beh\<lparr>rr_send_response := f\<rparr>) channel (vr_file_name a) (vr_response_vector a) n')"

text \<open>
  A response that arrives under the id that the protocol issued for the request of \<open>cmd\<close>, when the swarm took that command, is one of the answers to it.
\<close>

definition delivers :: "'w behaviour \<Rightarrow> 'w storage_env \<Rightarrow> peer_id \<Rightarrow> peer_id \<Rightarrow> verification_request \<Rightarrow> (verification_response \<Rightarrow> bool) \<Rightarrow>
    'w system \<Rightarrow> bool" where
  "delivers beh env lp peer request allowed_answer s \<longleftrightarrow>
     (let cmd = CmdRequestVerification peer (vq_file_name request) (vq_challenge_vector request) (next_resp s) in
      \<forall>pre mid i a post w'. script s = pre @ NextCommand # mid @ Other (reqres (MessageResponse i a)) # post \<longrightarrow>
        taken_after beh env lp pre cmd (sent cmd s) \<longrightarrow>
        rr_send_request beh peer request (world_after beh env lp pre (sent cmd s)) = (i, w') \<longrightarrow> allowed_answer a)"

lemma handler_with_file:
  assumes "holds_file env name kept n" "server_from_file kept = Some sc" "fulfill_challenge sc ch = Some response"
  shows "\<exists>w. handle_reqres_message_request beh env \<lparr>vq_file_name = name, vq_challenge_vector = ch\<rparr> channel n
    = send_verification beh channel name response (n\<lparr>outside := w\<rparr>)"
  using assms unfolding holds_file_def
  by (auto simp: handle_reqres_message_request_def send_verification_def lift_outside_def act_try_def act_bind_def act_simps)

lemma sends_response_iff:
  assumes "holds_file env name kept n" "server_from_file kept = Some sc" "fulfill_challenge sc ch = Some response"
  shows "sends_response beh env \<lparr>vq_file_name = name, vq_challenge_vector = ch\<rparr> channel n a \<longleftrightarrow>
    a = \<lparr>vr_file_name = name, vr_response_vector = response\<rparr>"
proof
  assume s: "sends_response beh env \<lparr>vq_file_name = name, vq_challenge_vector = ch\<rparr> channel n a"
  define f where "f = (\<lambda>(ch :: response_channel) x (w :: 'a). (x = a, w))"
  let ?beh = "beh\<lparr>rr_send_response := f\<rparr>"
  obtain w n' where "send_verification ?beh channel name response (n\<lparr>outside := w\<rparr>) =
      send_verification ?beh channel (vr_file_name a) (vr_response_vector a) n'"
    using s handler_with_file [OF assms, of ?beh channel] unfolding sends_response_def by metis
  then have "\<lparr>vr_file_name = name, vr_response_vector = response\<rparr> = a"
    by (cases a) (auto simp: send_verification_def f_def lift_pure_def act_bind_def act_simps split: if_splits)
  then show "a = \<lparr>vr_file_name = name, vr_response_vector = response\<rparr>" ..
next
  assume "a = \<lparr>vr_file_name = name, vr_response_vector = response\<rparr>"
  then show "sends_response beh env \<lparr>vq_file_name = name, vq_challenge_vector = ch\<rparr> channel n a"
    using handler_with_file [OF assms] unfolding sends_response_def by auto
qed

lemma verification_own_answer:
  assumes "node_inv (sys_node s)" "own_channel s" "delivers beh env lp peer \<lparr>vq_file_name = name, vq_challenge_vector = ch\<rparr> allowed_answer s"
    and "controller_request_verification (system_link beh env lp) peer name ch s = (Ok resp, s')"
  shows "\<exists>a. allowed_answer a \<and> resp = vr_response_vector a"
proof -
  let ?cmd = "CmdRequestVerification peer name ch (next_resp s)"
  from assms(4) obtain x s1 where w: "send_and_wait (system_link beh env lp) (CmdRequestVerification peer name ch) s = (Ok x, s1)"
    and x: "\<exists>a. x = ReplyVerification (Inr a) \<and> resp = vr_response_vector a"
    by (auto simp: controller_request_verification_def act_result_def act_simps elim!: act_bind_OkE split: reply.splits sum.splits)
  from send_and_wait_own [OF assms(1,2) w refl] obtain pre mid inp post i q where
    o: "script s = pre @ NextCommand # mid @ Other inp # post" "taken_after beh env lp pre ?cmd (sent ?cmd s)"
    "entered beh env (world_after beh env lp pre (sent ?cmd s)) ?cmd i q" "answered_by lp inp i q x" by auto
  from o(3,4) x obtain j a w' where "inp = reqres (MessageResponse j a)" "resp = vr_response_vector a"
    "rr_send_request beh peer \<lparr>vq_file_name = name, vq_challenge_vector = ch\<rparr> (world_after beh env lp pre (sent ?cmd s)) = (j, w')"
    by (auto elim!: entered_cases answered_by_cases)
  with o(1,2) assms(3) have "allowed_answer a" unfolding delivers_def Let_def verification_request.select_convs by blast
  with \<open>resp = vr_response_vector a\<close> show ?thesis by blast
qed

text \<open>
  C5: The proof of retrievability works over the network: under every interleaving of commands and events in the challenger's
  swarm, the response that the controller returns for a challenge is audited with the verdict of the original file against
  the file that the challenged peer holds, provided that what arrives under the id of the request is what the peer sent in answer to it.
\<close>

theorem audit_over_the_network:
  assumes "reachable beh env lp allowed w0 (sys_node s)" "own_channel s"
    and "delivers beh env lp peer \<lparr>vq_file_name = name, vq_challenge_vector = ch\<rparr> (\<lambda>a. \<exists>channel n. holds_file kenv name kept n \<and>
      sends_response kbeh kenv \<lparr>vq_file_name = name, vq_challenge_vector = ch\<rparr> channel n a) s"
    and "client_from_file bs = Some cc" "make_challenge_vector cc = Some ch" "run_audit bs kept = Some b"
    and "controller_request_verification (system_link beh env lp) peer name ch s = (Ok resp, s')"
  shows "audit cc ch resp = Some b"
proof -
  from assms(4-6) obtain sc response where r: "server_from_file kept = Some sc" "fulfill_challenge sc ch = Some response"
    "audit cc ch response = Some b" by (auto elim!: run_auditE)
  from verification_own_answer [OF reachable_inv [OF assms(1)] assms(2,3,7)] obtain a channel n where
    "holds_file kenv name kept n" "sends_response kbeh kenv \<lparr>vq_file_name = name, vq_challenge_vector = ch\<rparr> channel n a"
    and resp: "resp = vr_response_vector a" by blast
  from this(2) have "a = \<lparr>vr_file_name = name, vr_response_vector = response\<rparr>"
    unfolding sends_response_iff [OF \<open>holds_file kenv name kept n\<close> r(1,2)] .
  with r(3) resp show ?thesis by simp
qed

text \<open>A challenger whose script delivers the response \<open>a\<close> to its first request.\<close>

definition challenger :: "verification_response \<Rightarrow> fs_world system" where
  "challenger a = \<lparr>sys_node = new_node sample_world, mailbox = [], script = [Other (Instruction (Some (CmdGet ''other'' 77))), NextCommand,
     Other (progressed (GetRecord (Inl ''timeout'')) 5), Other (reqres (MessageResponse 6 a))], running = True, next_resp = 0\<rparr>"

lemma challenger_answer:
  "\<exists>s'. controller_request_verification (system_link mem_behaviour mem_env (PeerId [])) p name ch (challenger a) = (Ok (vr_response_vector a), s')"
  by (simp add: controller_request_verification_def send_and_wait_def system_link_def link_call_def challenger_def sys_await.simps
      sys_advance_def sys_input_def swarm_step_def handle_controller_event_def handle_controller_get_def handle_swarm_event_def
      handle_controller_request_verification_def handle_get_record_def handle_reqres_message_response_def open_channel_def
      take_query_def take_request_def insert_query_def insert_request_def send_reply_def lift_pure_def mem_behaviour_def next_id_def
      sample_world_def new_node_def act_bind_def act_result_def act_simps Let_def)

theorem audit_over_the_network_witness:
  "\<exists>cc ch response s'. client_from_file abc = Some cc \<and> make_challenge_vector cc = Some ch \<and>
     controller_request_verification (system_link mem_behaviour mem_env (PeerId [])) (PeerId [7]) ''k'' ch
       (challenger \<lparr>vr_file_name = ''k'', vr_response_vector = response\<rparr>) = (Ok response, s') \<and> audit cc ch response = Some True"
proof -
  obtain cc sc ch response where c: "client_from_file abc = Some cc" "server_from_file abc = Some sc"
    "make_challenge_vector cc = Some ch" "fulfill_challenge sc ch = Some response" using abc_accepted by (auto elim!: run_auditE)
  let ?a = "\<lparr>vr_file_name = ''k'', vr_response_vector = response\<rparr>" and ?q = "\<lparr>vq_file_name = ''k'', vq_challenge_vector = ch\<rparr>"
  obtain w1 rc w2 where st: "store_put (storage_put mem_env) ten_bytes abc_record sample_world = (Ok (Inr ()), w1)"
    and "storage_get mem_env ''k'' w1 = (Ok rc, w2)" using abc_stored by blast
  then have h: "holds_file mem_env ''k'' abc (new_node w1)"
    using stored_record_read [OF mem_env_ok st, of rc w2] abc_key by (auto simp: holds_file_def new_node_def abc_record_def new_record_def)
  have "a = ?a" if "Other (reqres (MessageResponse i a)) \<in> set (script (challenger ?a))" for i a
    using that by (simp add: challenger_def)
  moreover have "\<exists>channel n. holds_file mem_env ''k'' abc n \<and> sends_response mem_behaviour mem_env ?q channel n ?a"
    using h sends_response_iff [OF h c(2,4)] by blast
  ultimately have "delivers mem_behaviour mem_env (PeerId []) (PeerId [7]) ?q (\<lambda>a. \<exists>channel n. holds_file mem_env ''k'' abc n \<and>
      sends_response mem_behaviour mem_env ?q channel n a) (challenger ?a)"
    unfolding delivers_def Let_def by (metis in_set_conv_decomp append_Cons append_assoc)
  moreover have "reachable mem_behaviour mem_env (PeerId []) (\<lambda>_ _. True) sample_world (sys_node (challenger ?a))"
    using reachable.start by (simp add: challenger_def)
  moreover have "own_channel (challenger ?a)" by (auto simp: own_channel_def challenger_def new_node_def)
  moreover obtain s' where s': "controller_request_verification (system_link mem_behaviour mem_env (PeerId [])) (PeerId [7]) ''k'' ch
      (challenger ?a) = (Ok response, s')" using challenger_answer [of "PeerId [7]" "''k''" ch ?a] by auto
  ultimately have "audit cc ch response = Some True"
    using audit_over_the_network [OF _ _ _ c(1,3) abc_accepted s'] by blast
  with c s' show ?thesis by blast
qed

end
