(* ===== verification/Socket_Addr.thy ===== *)
theory Socket_Addr
  imports Kiss_Prelude "HOL-Library.Char_ord"
begin

text \<open>
  The text of socket addresses, as the standard library of Rust prints integers and parses \<^verbatim>\<open>SocketAddr\<close>: the parser of
  \<^verbatim>\<open>std::net\<close> with its readers for numbers, IPv4 and IPv6 addresses, scopes and ports. A reader takes the rest of the input and
  gives a value with what is left of it, or nothing; a failed reader has consumed nothing.
\<close>

section \<open>Printing\<close>

definition digit_char :: "nat \<Rightarrow> char" where
  "digit_char d = char_of (48 + d)"

fun show_nat :: "nat \<Rightarrow> string" where
  "show_nat n = (if n < 10 then [digit_char n] else show_nat (n div 10) @ [digit_char (n mod 10)])"

declare show_nat.simps [simp del]

section \<open>Reading\<close>

type_synonym 'a reader = "string \<Rightarrow> ('a \<times> string) option"

definition to_digit :: "nat \<Rightarrow> char \<Rightarrow> nat option" where
  "to_digit radix c =
     (let k = (of_char c :: nat);
          d = (if 48 \<le> k \<and> k \<le> 57 then k - 48 else if 97 \<le> k \<and> k \<le> 122 then k - 87
               else if 65 \<le> k \<and> k \<le> 90 then k - 55 else radix)
      in if d < radix then Some d else None)"

definition read_given_char :: "char \<Rightarrow> unit reader" where
  "read_given_char c s = (case s of [] \<Rightarrow> None | x # xs \<Rightarrow> if x = c then Some ((), xs) else None)"

text \<open>
  \<^verbatim>\<open>read_number\<close>: digits are read as long as there are any; \<open>bound\<close> is the number of values of the integer type, \<open>max_digits\<close> an optional limit.
\<close>

fun read_digits :: "nat \<Rightarrow> nat \<Rightarrow> nat option \<Rightarrow> nat \<Rightarrow> nat \<Rightarrow> (nat \<times> nat) reader" where
  "read_digits bound radix max_digits result count [] = Some ((result, count), [])"
| "read_digits bound radix max_digits result count (c # s) =
     (case to_digit radix c of
        None \<Rightarrow> Some ((result, count), c # s)
      | Some d \<Rightarrow>
          if bound \<le> result * radix \<or> bound \<le> result * radix + d then None
          else if (case max_digits of Some m \<Rightarrow> m < count + 1 | None \<Rightarrow> False) then None
          else read_digits bound radix max_digits (result * radix + d) (count + 1) s)"

definition read_number :: "nat \<Rightarrow> nat \<Rightarrow> nat option \<Rightarrow> bool \<Rightarrow> nat reader" where
  "read_number bound radix max_digits allow_zero_prefix s =
     (case read_digits bound radix max_digits 0 0 s of
        None \<Rightarrow> None
      | Some ((result, count), rest) \<Rightarrow>
          if count = 0 then None
          else if \<not> allow_zero_prefix \<and> hd s = CHR ''0'' \<and> 1 < count then None
          else Some (result, rest))"

definition read_separator :: "char \<Rightarrow> nat \<Rightarrow> 'a reader \<Rightarrow> 'a reader" where
  "read_separator sep i inner s =
     (if 0 < i then do { (_, s) \<leftarrow> read_given_char sep s; inner s } else inner s)"

fun read_octets :: "nat \<Rightarrow> nat \<Rightarrow> nat list reader" where
  "read_octets 0 i s = Some ([], s)"
| "read_octets (Suc n) i s = do {
     (o1, s) \<leftarrow> read_separator (CHR ''.'') i (read_number 256 10 (Some 3) False) s;
     (os, s) \<leftarrow> read_octets n (i + 1) s;
     Some (o1 # os, s) }"

definition read_ipv4_addr :: "nat list reader" where
  "read_ipv4_addr = read_octets 4 0"

text \<open>
  \<^verbatim>\<open>read_groups\<close>: up to \<open>n\<close> groups from position \<open>i\<close> on; a trailing IPv4 address stands for two groups. The flag says that
  the last groups were such an address.
\<close>

fun read_groups :: "nat \<Rightarrow> nat \<Rightarrow> string \<Rightarrow> nat list \<times> bool \<times> string" where
  "read_groups 0 i s = ([], False, s)"
| "read_groups (Suc n) i s =
     (case (if 0 < n then read_separator (CHR '':'') i read_ipv4_addr s else None) of
        Some ([a, b, c, d], s') \<Rightarrow> ([a * 256 + b, c * 256 + d], True, s')
      | _ \<Rightarrow>
          (case read_separator (CHR '':'') i (read_number 65536 16 (Some 4) True) s of
             None \<Rightarrow> ([], False, s)
           | Some (g, s') \<Rightarrow> (case read_groups n (i + 1) s' of (gs, v4, s'') \<Rightarrow> (g # gs, v4, s''))))"

definition read_ipv6_addr :: "nat list reader" where
  "read_ipv6_addr s =
     (case read_groups 8 0 s of (head, head_ipv4, s1) \<Rightarrow>
        if length head = 8 then Some (head, s1)
        else if head_ipv4 then None
        else do {
          (_, s2) \<leftarrow> read_given_char (CHR '':'') s1;
          (_, s3) \<leftarrow> read_given_char (CHR '':'') s2;
          (case read_groups (7 - length head) 0 s3 of (tail, _, s4) \<Rightarrow>
             Some (head @ replicate (8 - length head - length tail) 0 @ tail, s4)) })"

definition read_port :: "nat reader" where
  "read_port s = do { (_, s) \<leftarrow> read_given_char (CHR '':'') s; read_number 65536 10 None True s }"

definition read_scope_id :: "nat reader" where
  "read_scope_id s = do { (_, s) \<leftarrow> read_given_char (CHR ''%'') s; read_number 4294967296 10 None True s }"

datatype socket_addr = V4 "nat list" nat | V6 "nat list" nat nat

definition read_socket_addr_v4 :: "socket_addr reader" where
  "read_socket_addr_v4 s = do { (ip, s) \<leftarrow> read_ipv4_addr s; (port, s) \<leftarrow> read_port s; Some (V4 ip port, s) }"

definition read_socket_addr_v6 :: "socket_addr reader" where
  "read_socket_addr_v6 s = do {
     (_, s) \<leftarrow> read_given_char (CHR ''['') s;
     (ip, s) \<leftarrow> read_ipv6_addr s;
     let (scope_id, s) = (case read_scope_id s of Some r \<Rightarrow> r | None \<Rightarrow> (0, s));
     (_, s) \<leftarrow> read_given_char (CHR '']'') s;
     (port, s) \<leftarrow> read_port s;
     Some (V6 ip port scope_id, s) }"

definition parse_socket_addr :: "string \<Rightarrow> socket_addr option" where
  "parse_socket_addr s =
     (case (case read_socket_addr_v4 s of Some r \<Rightarrow> Some r | None \<Rightarrow> read_socket_addr_v6 s) of
        Some (a, []) \<Rightarrow> Some a
      | _ \<Rightarrow> None)"

section \<open>A printed number is read back\<close>

lemma of_char_digit [simp]: "d < 10 \<Longrightarrow> (of_char (digit_char d) :: nat) = 48 + d"
  by (simp add: digit_char_def of_char_of)

lemma to_digit_digit [simp]: "d < 10 \<Longrightarrow> to_digit 10 (digit_char d) = Some d"
  by (simp add: to_digit_def Let_def)

lemma read_digits_show:
  assumes "result * 10 ^ length (show_nat n) + n < bound"
  shows "read_digits bound 10 None result count (show_nat n @ rest) =
     read_digits bound 10 None (result * 10 ^ length (show_nat n) + n) (count + length (show_nat n)) rest"
  using assms
proof (induction n arbitrary: result count rest rule: show_nat.induct)
  case (1 n)
  show ?case
  proof (cases "n < 10")
    case True
    with "1.prems" show ?thesis by (simp add: show_nat.simps [of n])
  next
    case False
    define l where "l = length (show_nat (n div 10))"
    have s: "show_nat n = show_nat (n div 10) @ [digit_char (n mod 10)]" using False by (subst show_nat.simps) simp
    have b: "(result * 10 ^ l + n div 10) * 10 + n mod 10 = result * 10 ^ length (show_nat n) + n"
      by (simp add: s l_def algebra_simps)
    have less: "(result * 10 ^ l + n div 10) * 10 + n mod 10 < bound" using "1.prems" unfolding b .
    have step: "read_digits bound 10 None x k (digit_char (n mod 10) # rest) =
        read_digits bound 10 None (x * 10 + n mod 10) (k + 1) rest" if "x * 10 + n mod 10 < bound" for x k
      using that by simp
    note less
    moreover have "x \<le> x * 10 + n mod 10" for x :: nat by simp
    ultimately have "result * 10 ^ l + n div 10 < bound" by (rule le_less_trans [rotated])
    from "1.IH" [OF False this [unfolded l_def], of count "digit_char (n mod 10) # rest"]
    have "read_digits bound 10 None result count (show_nat n @ rest) =
        read_digits bound 10 None (result * 10 ^ l + n div 10) (count + l) (digit_char (n mod 10) # rest)"
      by (simp add: s l_def)
    also have "\<dots> = read_digits bound 10 None (result * 10 ^ length (show_nat n) + n) (count + l + 1) rest"
      unfolding b [symmetric] by (rule step [OF less])
    finally show ?thesis by (simp add: s l_def)
  qed
qed

lemma show_nat_length: "0 < length (show_nat n)"
  by (subst show_nat.simps) simp

lemma read_number_show:
  assumes "n < bound" "rest = [] \<or> to_digit 10 (hd rest) = None"
  shows "read_number bound 10 None True (show_nat n @ rest) = Some (n, rest)"
proof -
  have "read_digits bound 10 None m k rest = Some ((m, k), rest)" for m k
    using assms(2) by (cases rest) simp_all
  then show ?thesis
    using read_digits_show [of 0 n bound 0 rest] assms(1) show_nat_length [of n] by (simp add: read_number_def)
qed

text \<open>The loopback address with any port.\<close>

lemma loopback_digits:
  "to_digit 10 (CHR ''['') = None" "to_digit 10 (CHR '':'') = None" "to_digit 10 (CHR ''1'') = Some 1" "to_digit 10 (CHR '']'') = None"
  "to_digit 16 (CHR '':'') = None" "to_digit 16 (CHR ''1'') = Some 1" "to_digit 16 (CHR '']'') = None"
  by code_simp+

lemmas read_octets_numeral = read_octets.simps(2) [of 3, simplified] read_octets.simps(2) [of 2, simplified]

lemmas read_groups_numeral = read_groups.simps(2) [of 7, simplified] read_groups.simps(2) [of 6, simplified]
  read_groups.simps(2) [of 5, simplified]

lemma read_ipv4_addr_fails:
  "read_ipv4_addr (CHR ''['' # s) = None" "read_ipv4_addr (CHR '':'' # s) = None" "read_ipv4_addr (CHR '']'' # s) = None"
  "read_ipv4_addr (CHR ''1'' # CHR '']'' # s) = None"
  by (simp_all add: read_ipv4_addr_def read_octets_numeral read_separator_def read_number_def read_given_char_def
      loopback_digits)

lemma read_loopback: "read_ipv6_addr (''::1]'' @ s) = Some ([0, 0, 0, 0, 0, 0, 0, 1], '']'' @ s)"
proof -
  have "read_groups 8 0 (''::1]'' @ s) = ([], False, ''::1]'' @ s)"
    by (simp add: read_groups_numeral read_separator_def read_ipv4_addr_fails read_number_def loopback_digits)
  moreover have "read_groups 7 0 (''1]'' @ s) = ([1], False, '']'' @ s)"
    by (simp add: read_groups_numeral read_separator_def read_ipv4_addr_fails read_number_def read_given_char_def
        loopback_digits)
  ultimately show ?thesis by (simp add: read_ipv6_addr_def read_given_char_def numeral_eq_Suc)
qed

lemma parse_loopback:
  assumes "port < 65536"
  shows "parse_socket_addr (''[::1]'' @ '':'' @ show_nat port) = Some (V6 [0, 0, 0, 0, 0, 0, 0, 1] port 0)"
proof -
  have p: "read_port ('':'' @ show_nat port) = Some (port, [])"
    using read_number_show [OF assms, of "[]"] by (simp add: read_port_def read_given_char_def)
  with read_loopback [of "'':'' @ show_nat port"] show ?thesis
    by (simp add: parse_socket_addr_def read_socket_addr_v4_def read_socket_addr_v6_def read_ipv4_addr_fails
        read_given_char_def read_scope_id_def)
qed

end
