(* ===== verification/Process.thy ===== *)
theory Process
  imports Settings Grpc_Spec Socket_Addr
begin

text \<open>
  The node as a process: \<^verbatim>\<open>src/main.rs\<close>, \<^verbatim>\<open>src/deps/mod.rs\<close>, \<^verbatim>\<open>src/p2p/mod.rs\<close>, the factories the injector calls, and the listener of the gRPC
  service. The injector, the transport and the listener are parameters.

  The tasks of a node run concurrently under \<^verbatim>\<open>try_join!\<close>. Which of them end, how, and in which order, is a list of completions;
  the theorems hold for every such list. A task that does not end has no entry in it.
\<close>

section \<open>The services and their wiring\<close>

datatype service = SettingsService | StorageService | BenchService | LedgerService | ControllerService | SwarmService
  | VerifierService | MaliceService | GrpcService | CommandSender | CommandReceiver

text \<open>The channel of commands of \<^verbatim>\<open>p2p::module\<close>, its capacity, and the services of \<^verbatim>\<open>dependency_injector\<close> in the order they are provided.\<close>

definition command_capacity :: nat where "command_capacity = 5"

definition p2p_module :: "service list" where
  "p2p_module = [ControllerService, SwarmService, CommandSender, CommandReceiver]"

definition dependency_injector :: "service list" where
  "dependency_injector = p2p_module @ [StorageService, MaliceService, SettingsService, GrpcService, LedgerService,
     VerifierService, BenchService]"

text \<open>What the factory of each service asks the injector for, in the order of its \<^verbatim>\<open>invoke\<close>.\<close>

primrec invoke_requests :: "service \<Rightarrow> service list" where
  "invoke_requests SettingsService = []"
| "invoke_requests StorageService = [SettingsService]"
| "invoke_requests BenchService = []"
| "invoke_requests LedgerService = [SettingsService]"
| "invoke_requests ControllerService = [CommandSender]"
| "invoke_requests SwarmService = [SettingsService, CommandReceiver, StorageService, BenchService]"
| "invoke_requests VerifierService = [LedgerService, ControllerService, SettingsService]"
| "invoke_requests MaliceService = [SettingsService, StorageService, BenchService]"
| "invoke_requests GrpcService = [SettingsService, SettingsService, ControllerService, LedgerService]"
| "invoke_requests CommandSender = []"
| "invoke_requests CommandReceiver = []"

section \<open>Factories\<close>

type_synonym ('w, 'a) factory = "'w \<Rightarrow> (inject_error + 'a) \<times> 'w"

definition factory_bind :: "('w, 'a) factory \<Rightarrow> ('a \<Rightarrow> ('w, 'b) factory) \<Rightarrow> ('w, 'b) factory" where
  "factory_bind m f w = (case m w of (Inl e, w') \<Rightarrow> (Inl e, w') | (Inr x, w') \<Rightarrow> f x w')"

text \<open>\<^verbatim>\<open>map_err\<close> into \<^verbatim>\<open>InjectError::ActivationFailed\<close>.\<close>

definition activation :: "string \<Rightarrow> (ext_error \<Rightarrow> error_kind) \<Rightarrow> ('w \<Rightarrow> (ext_error + 'a) \<times> 'w) \<Rightarrow> ('w, 'a) factory" where
  "activation service wrap f w =
     (case f w of (Inl e, w') \<Rightarrow> (Inl (ActivationFailed service (wrap e)), w') | (Inr x, w') \<Rightarrow> (Inr x, w'))"

record kademlia_config =
  query_timeout :: nat
  max_packet_size :: nat

definition swarm_kademlia_config :: kademlia_config where
  "swarm_kademlia_config = \<lparr>query_timeout = 60, max_packet_size = 1024 * 1024 * 1024\<rparr>"

record ('w, 'k) net_env =
  peer_of :: "'k \<Rightarrow> peer_id"
  mdns_new :: "peer_id \<Rightarrow> 'w \<Rightarrow> (ext_error + unit) \<times> 'w"
  kademlia_new :: "peer_id \<Rightarrow> local_store_config \<Rightarrow> kademlia_config \<Rightarrow> 'w \<Rightarrow> 'w"
  reqres_new :: "string \<Rightarrow> 'w \<Rightarrow> 'w"
  noise_new :: "'k \<Rightarrow> 'w \<Rightarrow> (ext_error + unit) \<times> 'w"
  parse_multiaddr :: "string \<Rightarrow> ext_error + string"
  listen_on :: "string \<Rightarrow> 'w \<Rightarrow> (ext_error + unit) \<times> 'w"

definition swarm_build :: "('w, 'k) net_env \<Rightarrow> settings \<Rightarrow> 'k \<Rightarrow> ('w, peer_id \<times> 'w node) factory" where
  "swarm_build net s local_key =
     (let local_peer_id = peer_of net local_key; port = sw_port (set_swarm s) in
      factory_bind (activation ''Swarm'' BehaviourInitFailed (mdns_new net local_peer_id)) (\<lambda>_.
      factory_bind (\<lambda>w. (Inr (), reqres_new net ''/verification/1.0.0''
          (kademlia_new net local_peer_id swarm_store_config swarm_kademlia_config w))) (\<lambda>_.
      factory_bind (activation ''Swarm'' NoiseInitFailed (noise_new net local_key)) (\<lambda>_.
      factory_bind (activation ''Swarm'' IpParseFailed (\<lambda>w. (parse_multiaddr net (''/ip4/0.0.0.0/tcp/'' @ show_nat port), w))) (\<lambda>addr.
      factory_bind (activation ''Swarm'' (\<lambda>e. SwarmListenFailed e port) (listen_on net addr)) (\<lambda>_ w.
      (Inr (local_peer_id, new_node w), w)))))))"

text \<open>\<^verbatim>\<open>SwarmProvider::invoke\<close>: the search for a key pair may not end.\<close>

definition swarm_provider :: "('w, 'k) keys \<Rightarrow> ('w, 'k) net_env \<Rightarrow> settings \<Rightarrow> 'w \<Rightarrow>
    ((inject_error + peer_id \<times> 'w node) \<times> 'w) option" where
  "swarm_provider g net s w = do {
     (key, w') \<leftarrow> swarm_keypair g s w;
     Some (case key of
         Inl e \<Rightarrow> (Inl (ActivationFailed ''Swarm'' e), w')
       | Inr local_key \<Rightarrow> swarm_build net s local_key w') }"

record 'w grpc_handler =
  gh_inner :: "'w inner"
  gh_port :: nat

definition grpc_provider :: "'w host \<Rightarrow> 'w immudb \<Rightarrow> settings \<Rightarrow> 'w controller \<Rightarrow> immu_ledger \<Rightarrow> 'w grpc_handler" where
  "grpc_provider h db s ctl l =
     \<lparr>gh_inner = \<lparr>swarm_controller = ctl, database = db, ledger = l, por_enabled = set_por_enabled s, host_of = h\<rparr>,
      gh_port = set_grpc_port s\<rparr>"

section \<open>The listener of the service\<close>

definition LOCALHOST :: string where "LOCALHOST = ''[::1]''"

record ('w, 'l) tcp_env =
  tcp_bind :: "socket_addr \<Rightarrow> 'w \<Rightarrow> (ext_error + 'l) \<times> 'w"
  tcp_local_addr :: "'l \<Rightarrow> 'w \<Rightarrow> (ext_error + socket_addr) \<times> 'w"
  tcp_serve :: "'w inner \<Rightarrow> nat \<Rightarrow> nat \<Rightarrow> nat \<Rightarrow> 'l \<Rightarrow> 'w \<Rightarrow> (ext_error + unit) \<times> 'w"

text \<open>\<^verbatim>\<open>GrpcHandler::start\<close>: serving takes the time limit and the two limits of the message size.\<close>

definition grpc_start :: "('w, 'l) tcp_env \<Rightarrow> 'w grpc_handler \<Rightarrow> ('w, unit) action" where
  "grpc_start tcp h =
     (case parse_socket_addr (LOCALHOST @ '':'' @ show_nat (gh_port h)) of
        None \<Rightarrow> act_fail (SettingsParseError ''invalid socket address syntax'')
      | Some addr \<Rightarrow>
          act_bind (\<lambda>w. case tcp_bind tcp addr w of (r, w') \<Rightarrow> act_result (\<lambda>e. IoDetailed e (gh_port h)) r w') (\<lambda>listener.
          act_bind (\<lambda>w. case tcp_local_addr tcp listener w of (r, w') \<Rightarrow> act_result (\<lambda>e. IoDetailed e (gh_port h)) r w') (\<lambda>real_addr w.
          case tcp_serve tcp (gh_inner h) GRPC_TIMEOUT (1024 * 1024 * 1024) (1024 * 1024 * 1024) listener w of
            (r, w') \<Rightarrow> act_result from_transport_error r w')))"

section \<open>The tasks of a node\<close>

datatype task = GrpcTask | SwarmTask | VerifierTask | MaliceTask | ReputationTask

text \<open>\<^verbatim>\<open>try_join!\<close>: the first task that fails decides; all of them have to end for success. \<open>None\<close> is that it still runs.\<close>

fun try_join :: "task set \<Rightarrow> (task \<times> unit outcome) list \<Rightarrow> unit outcome option" where
  "try_join ts [] = (if ts = {} then Some (Ok ()) else None)"
| "try_join ts ((t, r) # cs) =
     (if ts = {} then Some (Ok ())
      else if t \<notin> ts then try_join ts cs
      else case r of Ok _ \<Rightarrow> try_join (ts - {t}) cs | Err e \<Rightarrow> Some (Err e) | Panic \<Rightarrow> Some Panic)"

definition run_requests :: "service list" where
  "run_requests = [GrpcService, SwarmService, VerifierService, MaliceService, SettingsService, LedgerService]"

primrec acquire :: "(service \<Rightarrow> ('w, unit) factory) \<Rightarrow> service list \<Rightarrow> ('w, unit) factory" where
  "acquire get [] w = (Inr (), w)"
| "acquire get (s # ss) w = factory_bind (get s) (\<lambda>_. acquire get ss) w"

definition run_tasks :: "settings \<Rightarrow> task set" where
  "run_tasks s = (if vs_enabled (set_verifier s)
     then {GrpcTask, SwarmTask, VerifierTask, MaliceTask, ReputationTask}
     else {GrpcTask, SwarmTask, MaliceTask, ReputationTask})"

definition run :: "(service \<Rightarrow> ('w, unit) factory) \<Rightarrow> (error_kind \<Rightarrow> string) \<Rightarrow> settings \<Rightarrow> (task \<times> unit outcome) list \<Rightarrow> 'w \<Rightarrow>
    unit outcome option" where
  "run get debug s completions w =
     (case acquire get run_requests w of
        (Inl e, _) \<Rightarrow> Some (Err (from_inject_error debug e))
      | (Inr (), _) \<Rightarrow> try_join (run_tasks s) completions)"

text \<open>\<^verbatim>\<open>die\<close> and \<^verbatim>\<open>main\<close>: the exit code of the process; a panic of the main task is 101.\<close>

definition die :: "error_kind \<Rightarrow> int" where
  "die err = error_code err"

definition main :: "(service \<Rightarrow> ('w, unit) factory) \<Rightarrow> (error_kind \<Rightarrow> string) \<Rightarrow> settings \<Rightarrow> (task \<times> unit outcome) list \<Rightarrow> 'w \<Rightarrow>
    int option" where
  "main get debug s completions w =
     (case run get debug s completions w of
        None \<Rightarrow> None
      | Some (Ok _) \<Rightarrow> Some 0
      | Some (Err err) \<Rightarrow> Some (die err)
      | Some Panic \<Rightarrow> Some 101)"

text \<open>The swarm starts with empty tables, the first of its reachable states.\<close>

lemma swarm_provider_initial:
  "swarm_provider g net s w = Some (Inr (p, n), w') \<Longrightarrow> n = new_node w'"
  by (auto simp: swarm_provider_def swarm_build_def factory_bind_def Let_def split: bind_splits sum.splits prod.splits)

section \<open>The wiring is complete\<close>

text \<open>A height of the services that decreases along the requests.\<close>

primrec height :: "service \<Rightarrow> nat" where
  "height SettingsService = 0" | "height BenchService = 0" | "height CommandSender = 0" | "height CommandReceiver = 0"
| "height StorageService = 1" | "height LedgerService = 1" | "height ControllerService = 1"
| "height SwarmService = 2" | "height VerifierService = 2" | "height MaliceService = 2" | "height GrpcService = 2"

lemma wiring_acyclic: "d \<in> set (invoke_requests s) \<Longrightarrow> height d < height s"
  by (cases s) auto

lemma wiring_complete: "set dependency_injector = UNIV" "distinct dependency_injector"
  by (auto simp: dependency_injector_def p2p_module_def intro: service.exhaust)

lemma wiring_no_cycle: "(s, d) \<in> {(s, d). d \<in> set (invoke_requests s)}\<^sup>+ \<Longrightarrow> height d < height s"
  by (induction rule: trancl_induct) (auto dest: wiring_acyclic)

text \<open>
  The injector can build every service: each one is provided exactly once, every service that a factory or \<^verbatim>\<open>run\<close> asks for is
  provided, and no factory depends on itself, directly or through others.
\<close>

lemma wiring_well_formed:
  "distinct dependency_injector \<and> set run_requests \<subseteq> set dependency_injector \<and>
   \<Union> (set ` invoke_requests ` set dependency_injector) \<subseteq> set dependency_injector \<and>
   acyclic {(s, d). d \<in> set (invoke_requests s)}"
  using wiring_complete wiring_no_cycle by (auto simp: acyclic_def)

section \<open>The address of the service\<close>

text \<open>
  C38: For every port the address of the service is parsed, to the loopback address with that port. So starting the service
  fails only where binding, the local address or serving fails, and never because of the settings.
\<close>

theorem grpc_start_binds_loopback:
  assumes "gh_port h < 65536"
  shows "grpc_start tcp h w =
    (case tcp_bind tcp (V6 [0, 0, 0, 0, 0, 0, 0, 1] (gh_port h) 0) w of
       (Inl e, w') \<Rightarrow> (Err (IoDetailed e (gh_port h)), w')
     | (Inr l, w') \<Rightarrow> (case tcp_local_addr tcp l w' of
         (Inl e, w'') \<Rightarrow> (Err (IoDetailed e (gh_port h)), w'')
       | (Inr a, w'') \<Rightarrow> (case tcp_serve tcp (gh_inner h) GRPC_TIMEOUT (2 ^ 30) (2 ^ 30) l w'' of
           (Inl e, w3) \<Rightarrow> (Err (TonicTransportError e), w3)
         | (Inr u, w3) \<Rightarrow> (Ok (), w3))))"
  using parse_loopback [OF assms]
  by (auto simp: grpc_start_def LOCALHOST_def act_bind_def act_result_def act_simps
      split: prod.splits sum.splits)

text \<open>A listener in memory that is closed when it serves.\<close>

definition mem_tcp :: "('w, socket_addr) tcp_env" where
  "mem_tcp = \<lparr>tcp_bind = \<lambda>a w. (Inr a, w), tcp_local_addr = \<lambda>a w. (Inr a, w),
     tcp_serve = \<lambda>_ _ _ _ _ w. (Inl ''closed'', w)\<rparr>"

theorem grpc_start_binds_loopback_witness:
  "fst (grpc_start mem_tcp (grpc_provider mem_host (mem_db False) mem_settings (mem_controller True) mem_ledger) empty_world)
     = Err (TonicTransportError ''closed'')"
proof -
  have "gh_port (grpc_provider mem_host (mem_db False) mem_settings (mem_controller True) mem_ledger) < 65536"
    by (simp add: grpc_provider_def mem_settings_def)
  from grpc_start_binds_loopback [OF this, of mem_tcp empty_world] show ?thesis by (simp add: mem_tcp_def)
qed

section \<open>The end of the process\<close>

lemma try_join_failure:
  assumes "(t, r) \<in> set cs" "r \<noteq> Ok ()" "t \<in> ts" "distinct (map fst cs)"
  shows "\<exists>f. try_join ts cs = Some f \<and> f \<noteq> Ok ()"
  using assms
proof (induction cs arbitrary: ts)
  case (Cons c cs)
  show ?case
  proof (cases "c = (t, r)")
    case True
    with Cons.prems show ?thesis by (cases r) auto
  next
    case False
    then have "(t, r) \<in> set cs" "fst c \<noteq> t" using Cons.prems by (auto simp: rev_image_eqI)
    then show ?thesis using Cons.IH [of "ts - {fst c}"] Cons.IH [of ts] Cons.prems by (cases c; cases "snd c") auto
  qed
qed simp

lemma try_join_success:
  "try_join ts cs = Some (Ok ()) \<Longrightarrow> t \<in> ts \<Longrightarrow> (t, Ok ()) \<in> set cs"
  by (induction ts cs rule: try_join.induct) (auto split: if_splits outcome.splits)

lemma error_code_1: "error_code e = 1"
  by (cases e) (simp_all add: error_code_def)

text \<open>When a task of the node fails, the process ends with a failure, whatever the other tasks do.\<close>

lemma failed_task_ends_process:
  assumes "(t, r) \<in> set completions" "r \<noteq> Ok ()" "t \<in> run_tasks s" "distinct (map fst completions)"
  shows "\<exists>code. main get debug s completions w = Some code \<and> code \<noteq> 0"
proof -
  obtain f where f: "try_join (run_tasks s) completions = Some f" "f \<noteq> Ok ()" using try_join_failure [OF assms] by blast
  then show ?thesis
    by (cases f) (auto simp: main_def run_def die_def error_code_1 split: prod.splits sum.splits unit.splits)
qed

lemma run_tasks_swarm: "SwarmTask \<in> run_tasks s"
  by (simp add: run_tasks_def)

text \<open>
  C37: A client that stops waiting takes the whole node down: when the receiver of a pending get is dropped and Kademlia then reports on the
  query, the task of the swarm fails, and the process ends with a failure, in whatever order the other tasks end or fail.
\<close>

theorem abandoned_get_ends_process:
  assumes "queries n i = Some (QGet c)" "distinct (map fst completions)"
    and "(SwarmTask, fst (swarm_run beh env lp (DropReceiver c # progressed (GetRecord message) i # rest) n)) \<in> set completions"
  shows "\<exists>code. main get debug s completions w = Some code \<and> code \<noteq> 0"
  using abandoned_query_ends_swarm [OF assms(1), of beh env lp message rest]
  by (intro failed_task_ends_process [OF assms(3) _ run_tasks_swarm assms(2)]) simp

theorem abandoned_get_ends_process_witness:
  "\<exists>code. main (\<lambda>_ w. (Inr (), w)) (\<lambda>_. []) mem_settings
     [(MaliceTask, Ok ()), (SwarmTask, fst (swarm_run mem_behaviour mem_env (PeerId [])
        [DropReceiver 0, progressed (GetRecord (Inl ''timeout'')) 5] ((new_node sample_world)\<lparr>queries := [5 \<mapsto> QGet 0]\<rparr>)))] ()
     = Some code \<and> code \<noteq> 0"
  by (rule abandoned_get_ends_process [where c = 0 and i = 5 and message = "Inl ''timeout''" and rest = "[]"
      and n = "(new_node sample_world)\<lparr>queries := [5 \<mapsto> QGet 0]\<rparr>" and lp = "PeerId []"
      and beh = mem_behaviour and env = mem_env]) simp_all

text \<open>
  A claim dated in the future takes down every node whose verifier meets it: the verifier reads the claims of all verifiers on a contract, and one
  that is later than its own clock ends its task with an error, and with it the process.
\<close>

lemma future_claim_ends_check:
  assumes "get_previous_verified db l (c_contract_uuid c) w = (Ok previous, w1)" "claim \<in> set previous"
    and "now_millis db w1 = (now, w2)" "now < v_verification_time claim"
  shows "check_previous db l c is_success w = (Err from_system_time_error, w2)"
proof -
  define ps where "ps = sort_key (\<lambda>a. - v_verification_time a) previous"
  have m: "claim \<in> set ps" "sorted (map (\<lambda>a. - v_verification_time a) ps)" using assms(2) by (simp_all add: ps_def)
  then obtain latest rest where ps: "ps = latest # rest" by (cases ps) auto
  with m have "v_verification_time claim \<le> v_verification_time latest" by auto
  with assms ps show ?thesis by (simp add: check_previous_def act_bind_def act_simps flip: ps_def)
qed

lemma future_claim_ends_cycle:
  assumes "get_all_contracts db l w = (Ok (c # cs), w0)" "ufs (c_file_uuid c) = Some u" "starting_uuid v \<le> u" "u \<le> ending_uuid v"
    and "audit_contract db l req c w0 = (Ok is_success, w1)" "get_previous_verified db l (c_contract_uuid c) w1 = (Ok previous, w2)"
    and "claim \<in> set previous" "now_millis db w2 = (now, w3)" "now < v_verification_time claim"
  shows "verifier_cycle db l req ufs v w = (Err from_system_time_error, w3)"
  using assms(1-5) future_claim_ends_check [OF assms(6-9), of is_success]
  by (auto simp: verifier_cycle_def verify_contract_def act_bind_def act_simps)

text \<open>
  The process never ends successfully: the loop of the swarm is left only with an error or a panic, so a list of completions
  in which the swarm has no success never gives the exit code 0.
\<close>

lemma process_never_succeeds:
  assumes "\<And>r. (SwarmTask, r) \<in> set completions \<Longrightarrow> r \<noteq> Ok ()"
  shows "main get debug s completions w \<noteq> Some 0"
  using try_join_success [OF _ run_tasks_swarm, of s completions] assms
  by (auto simp: main_def run_def die_def error_code_1 split: prod.splits sum.splits option.splits outcome.splits unit.splits)

end
