(* ===== verification/Gateway.thy ===== *)
theory Gateway
  imports Util
begin

text \<open>
  The gateway of \<^verbatim>\<open>src/grpc/keeper_client.rs\<close>: a client of the service of another node, which connects to the first of its addresses that
  answers and keeps that client. No module of the crate includes the file at this commit. The generated client is the parameter
  \<open>keeper_client\<close>; an action works on the gateway and the world outside.
\<close>

record ('w, 'c) keeper_client =
  kc_connect :: "string \<Rightarrow> 'w \<Rightarrow> (ext_error + 'c) \<times> 'w"
  kc_put :: "'c \<Rightarrow> string \<Rightarrow> bytes \<Rightarrow> 'w \<Rightarrow> (ext_error + unit) \<times> 'w"
  kc_get :: "'c \<Rightarrow> string \<Rightarrow> 'w \<Rightarrow> (ext_error + bytes) \<times> 'w"
  kc_verify :: "'c \<Rightarrow> string \<Rightarrow> 'w \<Rightarrow> (ext_error + string) \<times> 'w"

record 'c keeper_gateway =
  gw_client :: "'c option"
  gw_addresses :: "string list"

definition try_connect :: "('w, 'c) keeper_client \<Rightarrow> string \<Rightarrow> 'w \<Rightarrow> 'c option \<times> 'w" where
  "try_connect kc address w = (case kc_connect kc (''http://'' @ address) w of
     (Inr x, w') \<Rightarrow> (Some x, w')
   | (Inl _, w') \<Rightarrow> (None, w'))"

definition connect :: "('w, 'c) keeper_client \<Rightarrow> string \<Rightarrow> ('w, 'c) action" where
  "connect kc address w = (case kc_connect kc (''http://'' @ address) w of (r, w') \<Rightarrow> act_result from_transport_error r w')"

primrec connect_loop :: "('w, 'c) keeper_client \<Rightarrow> string list \<Rightarrow> 'w \<Rightarrow> 'c option \<times> 'w" where
  "connect_loop kc [] w = (None, w)"
| "connect_loop kc (address # addresses) w = (case try_connect kc address w of
     (Some c, w') \<Rightarrow> (Some c, w')
   | (None, w') \<Rightarrow> connect_loop kc addresses w')"

definition get_client :: "('w, 'c) keeper_client \<Rightarrow> ('c keeper_gateway \<times> 'w, 'c) action" where
  "get_client kc = (\<lambda>(gw, w).
     let (client, w') = (case gw_client gw of
           Some c \<Rightarrow> (Some c, w)
         | None \<Rightarrow> connect_loop kc (gw_addresses gw) w);
         gw' = gw\<lparr>gw_client := client\<rparr>
     in case client of Some x \<Rightarrow> (Ok x, (gw', w')) | None \<Rightarrow> (Err GrpcClientIsEmpty, (gw', w')))"

definition client_request :: "('w \<Rightarrow> (ext_error + 'a) \<times> 'w) \<Rightarrow> ('c keeper_gateway \<times> 'w, 'a) action" where
  "client_request f = (\<lambda>(gw, w). case f w of (r, w') \<Rightarrow> act_result GrpcError r (gw, w'))"

definition gateway_put :: "('w, 'c) keeper_client \<Rightarrow> string \<Rightarrow> bytes \<Rightarrow> ('c keeper_gateway \<times> 'w, unit) action" where
  "gateway_put kc key value = act_bind (get_client kc) (\<lambda>c. client_request (kc_put kc c key value))"

definition gateway_get :: "('w, 'c) keeper_client \<Rightarrow> string \<Rightarrow> ('c keeper_gateway \<times> 'w, bytes) action" where
  "gateway_get kc path = act_bind (get_client kc) (\<lambda>c. client_request (kc_get kc c path))"

definition gateway_verify :: "('w, 'c) keeper_client \<Rightarrow> string \<Rightarrow> ('c keeper_gateway \<times> 'w, string) action" where
  "gateway_verify kc path = act_bind (get_client kc) (\<lambda>c. client_request (kc_verify kc c path))"

text \<open>\<^verbatim>\<open>KeeperGatewayProvider::invoke\<close>: only the first address is tried; \<open>spawned\<close> runs the attempt on a task of its own.\<close>

definition gateway_provider :: "('w, 'c) keeper_client \<Rightarrow> (('w \<Rightarrow> 'c option \<times> 'w) \<Rightarrow> 'w \<Rightarrow> (ext_error + 'c option) \<times> 'w) \<Rightarrow>
    string list \<Rightarrow> 'w \<Rightarrow> (inject_error + 'c keeper_gateway) \<times> 'w" where
  "gateway_provider kc spawned addresses w = (case addresses of
     [] \<Rightarrow> (Inr \<lparr>gw_client = None, gw_addresses = addresses\<rparr>, w)
   | address # _ \<Rightarrow> (case spawned (try_connect kc address) w of
       (Inl e, w') \<Rightarrow> (Inl (ActivationFailed ''KeeperGateway'' (JoinError e)), w')
     | (Inr c, w') \<Rightarrow> (Inr \<lparr>gw_client = c, gw_addresses = addresses\<rparr>, w')))"

section \<open>The gateway keeps the first client\<close>

text \<open>Which addresses answer, when that does not depend on the state of the world.\<close>

definition answering :: "('w, 'c) keeper_client \<Rightarrow> (string \<Rightarrow> 'c option) \<Rightarrow> bool" where
  "answering kc reach \<longleftrightarrow> (\<forall>a w. fst (try_connect kc a w) = reach a)"

lemma connect_loop_first:
  assumes "answering kc reach"
  shows "fst (connect_loop kc as w) = (case filter (\<lambda>a. reach a \<noteq> None) as of [] \<Rightarrow> None | a # _ \<Rightarrow> reach a)"
proof (induction as arbitrary: w)
  case (Cons a as)
  have "fst (try_connect kc a w) = reach a" using assms by (simp add: answering_def)
  with Cons show ?case by (cases "try_connect kc a w"; cases "reach a") auto
qed simp

lemma connected_unchanged:
  assumes "gw_client gw = Some c"
  shows "get_client kc (gw, w) = (Ok c, (gw, w))"
  using assms by (cases gw) (simp add: get_client_def)

text \<open>
  The gateway uses the first of its addresses that answers and stays with it: a request that finds no client connects in the order
  of the addresses, fails with \<open>GrpcClientIsEmpty\<close> exactly when none answers, and otherwise leaves the new client in the gateway; once there is one, every
  request goes to it without connecting again, even when it fails.
\<close>

lemma gateway_keeps_first_client:
  assumes "answering kc reach" "gw_client gw = None"
  shows "(case filter (\<lambda>a. reach a \<noteq> None) (gw_addresses gw) of
      [] \<Rightarrow> \<exists>w'. gateway_get kc path (gw, w) = (Err GrpcClientIsEmpty, (gw, w'))
    | a # _ \<Rightarrow> \<exists>c w' w''. reach a = Some c \<and> fst (gateway_get kc path (gw, w)) =
          (case kc_get kc c path w' of (Inr content, _) \<Rightarrow> Ok content | (Inl e, _) \<Rightarrow> Err (GrpcError e)) \<and>
        snd (gateway_get kc path (gw, w)) = (gw\<lparr>gw_client := Some c\<rparr>, w'') \<and>
        gateway_get kc path' (gw\<lparr>gw_client := Some c\<rparr>, v) =
          (case kc_get kc c path' v of (r, v') \<Rightarrow> act_result GrpcError r (gw\<lparr>gw_client := Some c\<rparr>, v')))"
proof -
  obtain o1 w' where l: "connect_loop kc (gw_addresses gw) w = (o1, w')" by (cases "connect_loop kc (gw_addresses gw) w")
  have f: "o1 = (case filter (\<lambda>a. reach a \<noteq> None) (gw_addresses gw) of [] \<Rightarrow> None | a # _ \<Rightarrow> reach a)"
    using connect_loop_first [OF assms(1), of "gw_addresses gw" w] l by simp
  have gw: "gw\<lparr>gw_client := None\<rparr> = gw" using assms(2) by (cases gw) simp
  show ?thesis
  proof (cases "filter (\<lambda>a. reach a \<noteq> None) (gw_addresses gw)")
    case Nil
    with f l assms(2) gw show ?thesis by (simp add: gateway_get_def get_client_def act_bind_def)
  next
    case (Cons a as)
    then have "reach a \<noteq> None" by (metis (mono_tags, lifting) filter_eq_ConsD)
    then obtain c where c: "reach a = Some c" by blast
    obtain r w2 where g: "kc_get kc c path w' = (r, w2)" by (cases "kc_get kc c path w'")
    have "gateway_get kc path (gw, w) = act_result GrpcError r (gw\<lparr>gw_client := Some c\<rparr>, w2)"
      using f l assms(2) Cons c g by (simp add: gateway_get_def get_client_def act_bind_def client_request_def)
    moreover have "gateway_get kc path' (gw\<lparr>gw_client := Some c\<rparr>, v) =
        (case kc_get kc c path' v of (r, v') \<Rightarrow> act_result GrpcError r (gw\<lparr>gw_client := Some c\<rparr>, v'))"
      by (simp add: gateway_get_def connected_unchanged act_bind_def client_request_def)
    ultimately show ?thesis
      using Cons c g by (cases r) (auto simp: act_simps intro!: exI [of _ w'])
  qed
qed

definition mem_keeper :: "(unit, nat) keeper_client" where
  "mem_keeper = \<lparr>kc_connect = \<lambda>a w. (if a = ''http://b'' then Inr 7 else Inl ''refused'', w),
     kc_put = \<lambda>_ _ _ w. (Inr (), w), kc_get = \<lambda>c _ w. (Inr [of_nat c], w), kc_verify = \<lambda>_ _ w. (Inl ''closed'', w)\<rparr>"

lemma gateway_second_address:
  "fst (gateway_get mem_keeper ''f'' (\<lparr>gw_client = None, gw_addresses = [''a'', ''b'']\<rparr>, ())) = Ok [7]"
proof -
  let ?reach = "\<lambda>a. if a = ''b'' then Some (7 :: nat) else None" and ?gw = "\<lparr>gw_client = None, gw_addresses = [''a'', ''b'']\<rparr> :: nat keeper_gateway"
  have "answering mem_keeper ?reach" by (simp add: answering_def try_connect_def mem_keeper_def)
  from gateway_keeps_first_client [OF this, of ?gw "''f''" "()"] show ?thesis by (auto simp: mem_keeper_def)
qed

end
