(* ===== verification/Spec2Isabelle.thy ===== *)
theory Spec2Isabelle
  imports Por_Soundness Por_Bounds Key_Tests Verifier Storage Swarm_Runs Keeper Malice Settings Process Gateway
begin

text \<open>
  KISS, a peer-to-peer storage network with audited replication, written in Rust.

  A node takes requests of clients over gRPC (\<^verbatim>\<open>src/grpc\<close>), replicates files over a Kademlia network (\<^verbatim>\<open>src/p2p\<close>) and keeps the
  records that other nodes put on it in local files (\<^verbatim>\<open>src/storage\<close>). For every stored file a contract with the secrets of a proof
  of retrievability (\<^verbatim>\<open>src/verifier/por.rs\<close>) is written to an immudb database (\<^verbatim>\<open>src/ledger\<close>). Verifiers (\<^verbatim>\<open>src/verifier/mod.rs\<close>) walk
  through the contracts in shares of the UUID space, challenge the keepers through the swarm, audit the
  responses, change the reputation of the keepers and publish their verdicts.

  \<^bold>\<open>Conventions.\<close> Machine integers are words where they can wrap or overflow; a panic, an index out of range and an
  arithmetic overflow are the value \<open>None\<close> of plain functions and the outcome \<open>Panic\<close> of effectful ones. Effectful functions are
  actions (theory \<open>Util\<close>): state transformers with an outcome \<open>Ok\<close>, \<open>Err\<close> or \<open>Panic\<close>, composed with \<open>act_bind\<close> for \<^verbatim>\<open>?\<close>, \<open>act_try\<close> for \<^verbatim>\<open>match\<close> on
  a result, and \<open>act_fold\<close> for loops. Foreign code is a record of functions that the definitions take as an argument: \<open>immudb\<close>,
  \<open>storage_env\<close>, \<open>behaviour\<close> (Kademlia and request-response), \<open>link\<close> (tokio channels), \<open>host\<close>, \<open>keys\<close>, \<open>system_env\<close>, \<open>net_env\<close>, \<open>tcp_env\<close>. What a theorem needs of it is a named
  hypothesis (\<open>autocommit_spec\<close>, \<open>tx_spec\<close>, \<open>fs_ok\<close>, \<open>fs_readable\<close>, \<open>codecs_ok\<close>, \<open>requests_apart\<close>, \<open>ids_fresh\<close>, \<open>tables_apart\<close>, \<open>keys_ok\<close>, \<open>config_kept\<close>), and each has an instance in
  memory on which the witnesses evaluate.

  \<^bold>\<open>Theories.\<close>
  \<^item> \<open>Kiss_Prelude\<close>: machine integers, checked arithmetic and indexing, loops in the option monad. \<open>Util\<close>: \<^verbatim>\<open>src/util\<close>, shared types,
    constants, error kinds, actions. \<open>Action_Rel\<close>: the locale \<open>action_relation\<close>, which carries a reflexive and transitive relation
    of states through every composition of actions; the invariants and frame conditions of the swarm are its interpretations.
  \<^item> \<open>Le_Bytes\<close>, \<open>F64\<close>, \<open>Por_Random\<close>, \<open>Por\<close>, \<open>Por_Audit\<close>: \<^verbatim>\<open>por.rs\<close>. Byte conversions, the binary64 expression for the grid, the random
    generator with its rejection loop as a partial function, client and server loop by loop. The loops compute the matrix
    product modulo \<open>P57\<close> without overflow; every audit of a file up to one gigabyte ends with a verdict, an honest keeper is accepted unless
    a product is divisible by \<open>P57\<close>, a damaged group of bytes is always rejected, and the lemmas show where the code panics and what an audit does not see.
  \<^item> \<open>Rand_Total\<close>: the rejection loop ends, for both seeds and vectors of every length. The locale \<open>permuted\<close> is a finite set of states and an injective
    step on it, whose iteration comes back to every state it started from, later than any given time; its interpretation \<open>generator\<close> is the
    generator, and the state it comes back to is one whose word is accepted.
  \<^item> \<open>Prime_Field\<close>, \<open>Por_Soundness\<close>: \<open>P57\<close> is prime, by a Pocklington certificate, so that a keeper of another file passes at most one in \<open>P57\<close>
    of all challenges; and the response that a keeper without the file computes from the contract of any file. \<open>Por_Bounds\<close>: the shape of configurations and the size
    of the messages. \<open>Por_Tests\<close>, \<open>Por_Benches\<close>, \<open>Key_Tests\<close>: the tests and
    benches of \<^verbatim>\<open>por.rs\<close> and \<^verbatim>\<open>peer_id.rs\<close>; the tests on small files pass, those on 10 and 100 megabytes and the benches are shown to run to their end.
  \<^item> \<open>Utf8\<close>, \<open>Ledger\<close>, \<open>Ledger_Spec\<close>: \<^verbatim>\<open>src/ledger/mod.rs\<close>, every operation with its statements. \<open>Ledger_Spec\<close> specifies the database by
    tables (autocommit and transactions) and shows round trips of contracts and claims, atomicity of
    reputation changes, and the statements that can never succeed.
  \<^item> \<open>Verifier\<close>: shares, cycles, verdicts. A reachable verifier has one of seven states, never overflows, and covers every UUID within four cycles. A
    completed cycle has challenged the keeper of every contract of the share and published the verdicts of the audits, an audit moves only the reputation of
    the keeper, and the ledger has no other change.
  \<^item> \<open>Storage\<close>: \<^verbatim>\<open>src/storage\<close> and \<^verbatim>\<open>src/p2p/store.rs\<close>. Documents of records and their round trip; the locale \<open>record_storage\<close> is what the
    record store of Kademlia relies on, and \<open>readable_storage\<close> extends it with files that can be read, so that every stored record is found; both are
    interpreted on the local storage.
  \<^item> \<open>Swarm\<close>, \<open>Swarm_Runs\<close>: \<^verbatim>\<open>src/p2p/swarm.rs\<close>. The loop of \<^verbatim>\<open>start\<close> is \<open>swarm_step\<close> on an arbitrary sequence of instructions, events and dropped
    receivers; \<open>reachable\<close> are the states it passes through. Every caller is answered at most once, and none is forgotten while the loop
    runs. \<open>Swarm_Runs\<close> shows which inputs end the loop.
  \<^item> \<open>Controller\<close>, \<open>Caller\<close>: \<^verbatim>\<open>src/p2p/controller.rs\<close> over a link, and the link to the swarm in which the caller waits while the swarm works off a
    script, an arbitrary interleaving. Every operation gets the answer that arrives under the id which was issued when its own command
    was taken. \<open>Typed_Replies\<close>: the answers of the model are untyped, and none
    ever reaches an operation of another type.
  \<^item> \<open>Hasher\<close>, \<open>Grpc\<close>, \<open>Grpc_Spec\<close>: \<^verbatim>\<open>src/util/hasher.rs\<close> and \<^verbatim>\<open>src/grpc/mod.rs\<close>, every method. A stored file was put to its closest peers and has a contract, retrieved content has the stored hash,
    files stored without proofs cannot be retrieved, and failed puts leave contracts.
  \<^item> \<open>Peer_Id\<close>, \<open>Malice\<close>, \<open>Settings\<close>: \<^verbatim>\<open>src/p2p/peer_id.rs\<close>, \<^verbatim>\<open>src/malice\<close>, \<^verbatim>\<open>src/bench\<close>, \<^verbatim>\<open>src/settings\<close>, and what factories and \<^verbatim>\<open>src/main.rs\<close> do with the settings. The search for
    a key pair ends with the first that fits; the first start of a node writes settings it can run with.
  \<^item> \<open>Socket_Addr\<close>, \<open>Process\<close>: the node as a process, \<^verbatim>\<open>src/main.rs\<close>, \<^verbatim>\<open>src/deps\<close>, \<^verbatim>\<open>src/p2p/mod.rs\<close>, the construction of the swarm and the listener of the service. The
    service binds the loopback address, the services can all be built, and one failed task ends the process.
  \<^item> \<open>Gateway\<close>: \<^verbatim>\<open>src/grpc/keeper_client.rs\<close>, a client of other nodes that no module includes.
  \<^item> \<open>Keeper\<close>: the other end of an audit. A keeper answers a challenge from the record in its storage, a keeper that deleted the file fails, and
    an audit over the network has the verdict of the two files: controller and swarm of the challenger, swarm, record store and storage of the keeper.
  \<^item> This theory: the path of an audit through gRPC service, ledger and proof of retrievability.

  \<^bold>\<open>Bounds and fuel.\<close> Files up to \<open>2 ^ 30\<close> bytes, the limit of the service and of the record store, keep the 128 bit accumulators
  from overflowing. That a damaged group of bytes is always rejected is shown up to 21952 bytes, where the entries of the random vectors are evaluated
  and found not to be zero; beyond, it holds unless one of two entries is zero. The rejection loop and the key search are
  partial functions with theorems that they return: the first always, the second when the generator of key pairs gives one that fits. The endless loops (swarm, verifier, malice, reputation) are runs over a list of inputs or
  a number of rounds, and the concurrent tasks of a process are a list of completions; the theorems hold for all of them. \<^verbatim>\<open>usize\<close> is \<open>nat\<close> where only lengths of lists are counted.

  \<^bold>\<open>Not modelled.\<close> The transport, the injector itself, of which only what is provided and asked for is stated, log
  output and pauses; \<^verbatim>\<open>src/p2p/memorystore.rs\<close>, which is commented
  out, \<^verbatim>\<open>kad.rs\<close>, an example of libp2p that no target of the crate builds, and the code generated from the protocol files. The text of an error is opaque. Equality of text assumes
  that a string is its bytes.
\<close>

section \<open>A stored file under audit\<close>

lemma client_dims:
  assumes "client_from_file bs = Some cc" "length bs \<le> 2 ^ 30"
  shows "cc_rows cc < 2 ^ 64" "cc_cols cc < 2 ^ 64"
proof -
  have d: "dims (length bs) = Some (cc_rows cc, cc_cols cc)" "0 < length bs"
    using assms(1) by (auto simp: client_from_file_def dims_def checked_sub_def Let_def split: bind_splits if_splits)
  from dims_ok [OF d(2) assms(2)] d(1) have "cc_rows cc < 2 ^ 15" "cc_cols cc < 2 ^ 15" by (metis option.inject prod.inject)+
  then show "cc_rows cc < 2 ^ 64" "cc_cols cc < 2 ^ 64" by simp_all
qed

text \<open>The configuration is read back from the contract it was written to.\<close>

lemma contract_of_client:
  assumes "contract_of c fh ttl cc" "cc_rows cc < 2 ^ 64" "cc_cols cc < 2 ^ 64"
  shows "from_contract c = cc"
  using assms i64_usize_roundtrip [OF assms(2)] i64_usize_roundtrip [OF assms(3)]
  by (simp add: contract_of_def to_contract_def from_contract_def bytes_to_u64_to_bytes)

text \<open>The keeper \<open>peer\<close> of a file answers from \<open>kept\<close>, whenever a request to it gets an answer.\<close>

definition keeper_answers_from :: "'w inner \<Rightarrow> peer_id \<Rightarrow> string \<Rightarrow> bytes \<Rightarrow> bool" where
  "keeper_answers_from inn peer name kept \<longleftrightarrow> (\<forall>ch v resp v'. ctl_request_verification (swarm_controller inn) peer name ch v = (Ok resp, v') \<longrightarrow>
     (\<exists>sc. server_from_file kept = Some sc \<and> fulfill_challenge sc ch = Some resp))"

text \<open>The request to the keeper of a contract, with the challenge of that contract and in the state \<open>v\<close>, fails.\<close>

definition request_failed :: "'w inner \<Rightarrow> contract \<Rightarrow> string \<Rightarrow> 'w \<Rightarrow> bool" where
  "request_failed inn c name v \<longleftrightarrow> (\<exists>ch e v'. make_challenge_vector (from_contract c) = Some ch \<and>
     ctl_request_verification (swarm_controller inn) (c_peer_id c) name ch v = (Err e, v'))"

lemma verify_contract_for_audit:
  assumes "from_contract c = cc" "make_challenge_vector cc = Some ch" "server_from_file kept = Some sc"
    "fulfill_challenge sc ch = Some resp" "audit cc ch resp = Some b" "keeper_answers_from inn (c_peer_id c) name kept"
    and "verify_contract_for inn name c acc v = (Ok verdicts, v')"
  shows "\<exists>verified. verdicts = acc @ [\<lparr>vp_peer_id = to_base58 (database inn) (c_peer_id c), vp_verified = verified\<rparr>] \<and>
    (verified = b \<or> \<not> verified \<and> request_failed inn c name v)"
proof -
  obtain r v1 where r: "ctl_request_verification (swarm_controller inn) (c_peer_id c) name ch v = (r, v1)"
    by (cases "ctl_request_verification (swarm_controller inn) (c_peer_id c) name ch v")
  show ?thesis
  proof (cases r)
    case (Ok answer)
    with r assms(3,4,6) have "answer = resp" unfolding keeper_answers_from_def by fastforce
    with Ok r assms(1,2,5,7) show ?thesis by (auto simp: verify_contract_for_def act_bind_def act_try_def act_simps)
  next
    case (Err e)
    with r assms(1,2) have "request_failed inn c name v" unfolding request_failed_def by blast
    with Err r assms(1,2,7) show ?thesis by (auto simp: verify_contract_for_def act_bind_def act_try_def act_simps)
  next
    case Panic
    with r assms(1,2,7) show ?thesis by (simp add: verify_contract_for_def act_bind_def act_try_def act_simps)
  qed
qed

lemma on_record_unique: "peer_text db \<Longrightarrow> on_record db tb name c \<Longrightarrow> on_record db tb name c' \<Longrightarrow> c = c'"
  using map_row_to_contract_row unfolding on_record_def by (metis option.inject outcome.inject(1) prod.inject)

text \<open>
  C4: Verifying a stored file runs the proof of retrievability of the whole system. The one verdict that is returned is on the keeper named in
  the contract that the ledger has for the file; the challenge and the secrets come back from that contract. The verdict is that
  of an audit of the content that was stored against the file from which this keeper answers; it is negative without one only when the
  request to this keeper, made right after the contract was read, fails. So it is never positive for a file that \<open>run_audit\<close> rejects.
\<close>

theorem verify_file_audits_stored_content:
  assumes "autocommit_spec (database inn) view" "peer_text (database inn)" "tables_apart view inn" "por_enabled inn"
    and "\<And>u v v'. ctl_get_closest_peers (swarm_controller inn) u v \<noteq> (Ok [], v')"
    and "length (st_content request) \<le> 2 ^ 30"
    and "grpc_store inn request w = (Ok (Inr name), w1)"
    and "map_of (contracts_tbl (view w2)) name = map_of (contracts_tbl (view w1)) name"
    and "on_record (database inn) (view w2) name c" "keeper_answers_from inn (c_peer_id c) name kept"
    and "run_audit (st_content request) kept = Some b"
    and "verify_file inn name w2 = (Ok (Inr verdicts), w3)"
  shows "\<exists>verified v. get_contracts (database inn) (ledger inn) name w2 = (Ok [c], v)
    \<and> verdicts = [\<lparr>vp_peer_id = to_base58 (database inn) (c_peer_id c), vp_verified = verified\<rparr>]
    \<and> (verified = b \<or> \<not> verified \<and> request_failed inn c name v)"
proof -
  obtain c' cc where c': "client_from_file (st_content request) = Some cc"
    "contract_of c' (hash (host_of inn) (st_content request)) (st_ttl request) cc" "on_record (database inn) (view w2) name c'"
    using grpc_store_on_record [OF assms(7,3,1,4,5)] assms(8) by (auto simp: on_record_def)
  then have c: "contract_of c (hash (host_of inn) (st_content request)) (st_ttl request) cc"
    using on_record_unique [OF assms(2,9)] by metis
  have cc: "from_contract c = cc" using contract_of_client [OF c] client_dims [OF c'(1) assms(6)] by simp
  from assms(11) obtain sc ch resp where a: "server_from_file kept = Some sc" "make_challenge_vector cc = Some ch"
    "fulfill_challenge sc ch = Some resp" "audit cc ch resp = Some b" using c'(1) by (auto elim!: run_auditE)
  obtain g v where g: "get_contracts (database inn) (ledger inn) name w2 = (g, v)" by (cases "get_contracts (database inn) (ledger inn) name w2")
  have "g = Ok [c] \<or> (\<exists>e. g = Err e \<and> service_error e)"
    using get_contracts_spec [OF assms(1,2) assms(9) [unfolded on_record_def] g] .
  with assms(12) g have g: "get_contracts (database inn) (ledger inn) name w2 = (Ok [c], v)"
    by (auto simp: verify_file_def or_status_def act_simps)
  with assms(12) have "\<exists>v'. verify_contract_for inn name c [] v = (Ok verdicts, v')"
    by (auto simp: verify_file_def or_status_def act_try_def act_bind_def respond_def act_simps split: prod.splits outcome.splits)
  then obtain v' where "verify_contract_for inn name c [] v = (Ok verdicts, v')" ..
  from verify_contract_for_audit [OF cc a(2,1,3,4) assms(10) this] g show ?thesis by auto
qed

lemma mem_get_contracts:
  assumes "on_record (mem_db ro) (committed w) fu c"
  shows "get_contracts (mem_db ro) mem_ledger fu w = (Ok [c], w)"
proof -
  have "query_execute (mem_db ro) mem_ledger select_contract_sql [param ''file_uuid'' (S fu)] w = (Ok [contract_row (mem_db ro) c], w)"
    using assms by (simp add: query_execute_def with_client_def mem_ledger_def auth_map_def metadata_value_def call_def mem_db_def
        mem_query_def query_rows_def rows_with_key_def on_record_def sql_simps act_bind_def act_simps Let_def)
  then show ?thesis
    by (simp add: get_contracts_def act_bind_def act_collect_def map_row_to_contract_row [OF mem_db_peer_text] act_simps)
qed

theorem verify_file_audits_stored_content_witness:
  "\<exists>w1 w3. grpc_store (mem_inner True True) \<lparr>st_name = ''f'', st_content = abc, st_ttl = 9\<rparr> empty_world = (Ok (Inr ''xx''), w1)
     \<and> verify_file (mem_inner True True) ''xx'' w1
       = (Ok (Inr [\<lparr>vp_peer_id = to_base58 (mem_db False) (PeerId [7]), vp_verified = True\<rparr>]), w3)"
proof -
  define inn where "inn = mem_inner True True"
  define req where "req = \<lparr>st_name = ''f'', st_content = abc, st_ttl = 9\<rparr>"
  obtain w1 c where s: "grpc_store inn req empty_world = (Ok (Inr ''xx''), w1)"
    and c: "on_record (database inn) (committed w1) ''xx'' c" "c_peer_id c = PeerId [7]"
    using mem_store_record unfolding inn_def req_def by auto
  have i: "autocommit_spec (database inn) committed" "peer_text (database inn)" "tables_apart committed inn" "por_enabled inn"
    "length (st_content req) \<le> 2 ^ 30"
    by (simp_all add: inn_def mem_db_autocommit mem_db_peer_text mem_tables_apart req_def abc_def)
  note closest = mem_closest [of True True, folded inn_def]
  have k: "keeper_answers_from inn peer name abc" "\<not> request_failed inn c name v" for name v peer
    by (auto simp: keeper_answers_from_def request_failed_def inn_def mem_controller_def act_option_def act_bind_def act_simps
        split: option.splits)
  have a: "run_audit (st_content req) abc = Some True" using abc_accepted by (simp add: req_def)
  obtain cc c' where c': "client_from_file abc = Some cc" "contract_of c' (hash mem_host abc) 9 cc" "on_record (mem_db False) (committed w1) ''xx'' c'"
    using grpc_store_on_record [OF s i(3,1,4) closest] by (auto simp: inn_def req_def)
  then have "contract_of c (hash mem_host abc) 9 cc" using on_record_unique [OF mem_db_peer_text] c(1) by (metis inn_def mem_inner_simps(1))
  then have cc: "from_contract c = cc" using contract_of_client client_dims [OF c'(1)] i(5) by (simp add: req_def)
  from abc_accepted obtain sc ch resp where x: "server_from_file abc = Some sc" "make_challenge_vector cc = Some ch"
    "fulfill_challenge sc ch = Some resp" "audit cc ch resp = Some True" using c'(1) by (auto elim!: run_auditE)
  have "get_contracts (mem_db False) mem_ledger ''xx'' w1 = (Ok [c], w1)" using mem_get_contracts c(1) by (simp add: inn_def)
  then obtain verdicts w3 where v: "verify_file inn ''xx'' w1 = (Ok (Inr verdicts), w3)"
    using cc x by (auto simp: verify_file_def verify_contract_for_def or_status_def act_try_def act_bind_def respond_def act_simps inn_def
        mem_controller_def act_option_def)
  from verify_file_audits_stored_content [OF i(1-4) closest i(5) s refl c(1) k(1) a v] k(2) c(2) s v show ?thesis
    unfolding inn_def req_def by auto
qed

end
